(* ===== verification/Difflib.thy ===== *)
theory Difflib
  imports Main "HOL-Library.Product_Lexorder" "HOL-Library.Multiset"
begin

text \<open>
  \<open>bunko-layout/src/difflib.rs\<close>: CPython's \<open>SequenceMatcher\<close> without junk, which aligns an old
  OCR text with a new one. \<open>ratio\<close>, a float of the sum of the sizes, is not modelled.
\<close>

section \<open>Longest match\<close>

datatype tag = Replace | Delete | Insert | Equal

record opcode =
  op_tag :: tag
  op_i1 :: nat
  op_i2 :: nat
  op_j1 :: nat
  op_j2 :: nat

text \<open>\<open>Match\<close>: start in \<open>a\<close>, start in \<open>b\<close>, size; compared in this order.\<close>

type_synonym smatch = "nat \<times> nat \<times> nat"

text \<open>The positions of each element of \<open>b\<close>, ascending.\<close>

fun index_from :: "nat \<Rightarrow> 'a list \<Rightarrow> ('a \<Rightarrow> nat list) \<Rightarrow> 'a \<Rightarrow> nat list" where
  "index_from j [] m = m"
| "index_from j (x # xs) m = index_from (Suc j) xs (m(x := m x @ [j]))"

definition b2j :: "'a list \<Rightarrow> 'a \<Rightarrow> nat list" where
  "b2j b = index_from 0 b (\<lambda>_. [])"

text \<open>
  One row: the positions \<open>js\<close> of \<open>a ! i\<close>, with the lengths \<open>j2len\<close> of the matches that end in the
  row before, the new lengths and the best match so far.
\<close>

fun scan_row ::
  "nat \<Rightarrow> nat \<Rightarrow> nat \<Rightarrow> (nat \<Rightarrow> nat) \<Rightarrow> nat list \<Rightarrow> (nat \<Rightarrow> nat) \<Rightarrow> smatch \<Rightarrow> (nat \<Rightarrow> nat) \<times> smatch" where
  "scan_row blo bhi i j2len [] newj2len best = (newj2len, best)"
| "scan_row blo bhi i j2len (j # js) newj2len best =
     (if j < blo then scan_row blo bhi i j2len js newj2len best
      else if bhi \<le> j then (newj2len, best)
      else
        let k = (if 0 < j then j2len (j - 1) else 0) + 1;
            newj2len = newj2len(j := k);
            best = (if snd (snd best) < k then (i + 1 - k, j + 1 - k, k) else best)
        in scan_row blo bhi i j2len js newj2len best)"

fun scan_rows ::
  "'a list \<Rightarrow> ('a \<Rightarrow> nat list) \<Rightarrow> nat \<Rightarrow> nat \<Rightarrow> nat list \<Rightarrow> (nat \<Rightarrow> nat) \<Rightarrow> smatch \<Rightarrow> smatch" where
  "scan_rows a pos blo bhi [] j2len best = best"
| "scan_rows a pos blo bhi (i # is) j2len best =
     (let (newj2len, best) = scan_row blo bhi i j2len (pos (a ! i)) (\<lambda>_. 0) best
      in scan_rows a pos blo bhi is newj2len best)"

function extend_back :: "'a list \<Rightarrow> 'a list \<Rightarrow> nat \<Rightarrow> nat \<Rightarrow> smatch \<Rightarrow> smatch" where
  "extend_back a b alo blo (i, j, k) =
     (if alo < i \<and> blo < j \<and> a ! (i - 1) = b ! (j - 1)
      then extend_back a b alo blo (i - 1, j - 1, k + 1) else (i, j, k))"
  by pat_completeness auto
termination by (relation "measure (\<lambda>(_, _, _, _, i, _, _). i)") auto

function extend_forward :: "'a list \<Rightarrow> 'a list \<Rightarrow> nat \<Rightarrow> nat \<Rightarrow> smatch \<Rightarrow> smatch" where
  "extend_forward a b ahi bhi (i, j, k) =
     (if i + k < ahi \<and> j + k < bhi \<and> a ! (i + k) = b ! (j + k)
      then extend_forward a b ahi bhi (i, j, k + 1) else (i, j, k))"
  by pat_completeness auto
termination by (relation "measure (\<lambda>(_, _, ahi, _, i, _, k). ahi - (i + k))") auto

declare extend_back.simps [simp del] extend_forward.simps [simp del]

definition find_longest_match ::
  "'a list \<Rightarrow> 'a list \<Rightarrow> nat \<Rightarrow> nat \<Rightarrow> nat \<Rightarrow> nat \<Rightarrow> smatch" where
  "find_longest_match a b alo ahi blo bhi =
     extend_forward a b ahi bhi
       (extend_back a b alo blo
         (scan_rows a (b2j b) blo bhi [alo..<min ahi (length a)] (\<lambda>_. 0) (alo, blo, 0)))"

section \<open>What a match is\<close>

definition matches :: "'a list \<Rightarrow> 'a list \<Rightarrow> nat \<Rightarrow> nat \<Rightarrow> nat \<Rightarrow> nat \<Rightarrow> smatch \<Rightarrow> bool" where
  "matches a b alo ahi blo bhi m =
     (case m of (i, j, k) \<Rightarrow>
        alo \<le> i \<and> i + k \<le> ahi \<and> blo \<le> j \<and> j + k \<le> bhi \<and> (\<forall>x<k. a ! (i + x) = b ! (j + x)))"

lemma index_from_eq: "index_from j xs m x = m x @ map (\<lambda>n. j + n) (filter (\<lambda>n. xs ! n = x) [0..<length xs])"
proof (induction xs arbitrary: j m)
  case (Cons y xs)
  have "[0..<length (y # xs)] = 0 # map Suc [0..<length xs]"
    by (simp add: upt_conv_Cons map_Suc_upt del: upt_Suc)
  then have "filter (\<lambda>n. (y # xs) ! n = x) [0..<length (y # xs)] =
      (if y = x then [0] else []) @ map Suc (filter (\<lambda>n. xs ! n = x) [0..<length xs])"
    by (simp add: filter_map comp_def)
  with Cons show ?case by (auto simp: comp_def)
qed simp

lemma b2j_eq: "b2j b x = filter (\<lambda>n. b ! n = x) [0..<length b]"
  by (simp add: b2j_def index_from_eq)

text \<open>The length of the longest match ending just before \<open>i\<close> and \<open>j\<close> inside the range.\<close>

fun run_at :: "'a list \<Rightarrow> 'a list \<Rightarrow> nat \<Rightarrow> nat \<Rightarrow> nat \<Rightarrow> nat \<Rightarrow> nat" where
  "run_at a b alo blo 0 j = 0"
| "run_at a b alo blo i 0 = 0"
| "run_at a b alo blo (Suc i) (Suc j) =
     (if alo \<le> i \<and> blo \<le> j \<and> a ! i = b ! j then run_at a b alo blo i j + 1 else 0)"

lemma run_at_matches:
  "run_at a b alo blo i j = k \<Longrightarrow> k \<le> i \<and> k \<le> j \<and> (0 < k \<longrightarrow> alo \<le> i - k \<and> blo \<le> j - k) \<and>
     (\<forall>x<k. a ! (i - k + x) = b ! (j - k + x))"
proof (induction a b alo blo i j arbitrary: k rule: run_at.induct)
  case (3 a b alo blo i j)
  show ?case
  proof (cases "alo \<le> i \<and> blo \<le> j \<and> a ! i = b ! j")
    case True
    let ?k = "run_at a b alo blo i j"
    from "3.IH" [OF True refl] have ih: "?k \<le> i" "?k \<le> j" "0 < ?k \<longrightarrow> alo \<le> i - ?k \<and> blo \<le> j - ?k"
      "\<And>x. x < ?k \<Longrightarrow> a ! (i - ?k + x) = b ! (j - ?k + x)" by auto
    have k: "k = Suc ?k" using "3.prems" True by simp
    have "a ! (i - ?k + x) = b ! (j - ?k + x)" if "x < k" for x
      using that ih(4) [of x] ih(1,2) True by (cases "x = ?k") (auto simp: k)
    then show ?thesis using ih(1-3) True by (cases "?k = 0") (auto simp: k)
  next
    case False
    with "3.prems" show ?thesis by auto
  qed
qed auto

lemma run_at_longest:
  assumes "alo \<le> i" "blo \<le> j" "\<forall>x<k. a ! (i + x) = b ! (j + x)"
  shows "k \<le> run_at a b alo blo (i + k) (j + k)"
  using assms by (induction k) auto

section \<open>The scan finds the first longest match\<close>

text \<open>
  \<open>best\<close> belongs to the first cell of \<open>D\<close>, row by row, at which a longest run ends; a cell
  \<open>(x, y)\<close> stands for the run that ends with \<open>a ! x\<close> and \<open>b ! y\<close>.
\<close>

definition run_to :: "'a list \<Rightarrow> 'a list \<Rightarrow> nat \<Rightarrow> nat \<Rightarrow> nat \<times> nat \<Rightarrow> nat" where
  "run_to a b alo blo c = run_at a b alo blo (Suc (fst c)) (Suc (snd c))"

definition first_best :: "'a list \<Rightarrow> 'a list \<Rightarrow> nat \<Rightarrow> nat \<Rightarrow> (nat \<times> nat) set \<Rightarrow> smatch \<Rightarrow> bool" where
  "first_best a b alo blo D best \<longleftrightarrow>
     (case best of (i, j, k) \<Rightarrow>
        (\<forall>c\<in>D. run_to a b alo blo c \<le> k) \<and>
        (if k = 0 then i = alo \<and> j = blo
         else \<exists>c\<in>D. run_to a b alo blo c = k \<and> i + k = Suc (fst c) \<and> j + k = Suc (snd c) \<and>
                (\<forall>c'\<in>D. run_to a b alo blo c' = k \<longrightarrow> c \<le> c')))"

lemma run_to_le: "run_to a b alo blo c \<le> Suc (fst c) \<and> run_to a b alo blo c \<le> Suc (snd c)"
  using run_at_matches [of a b alo blo "Suc (fst c)" "Suc (snd c)"] unfolding run_to_def by blast

lemma first_best_insert:
  assumes "first_best a b alo blo D (i, j, k)" and "\<And>d. d \<in> D \<Longrightarrow> d < c" and n: "n = run_to a b alo blo c"
  shows "first_best a b alo blo (insert c D) (if k < n then (fst c + 1 - n, snd c + 1 - n, n) else (i, j, k))"
proof (cases "k < n")
  case True
  have le: "run_to a b alo blo d \<le> k" if "d \<in> D" for d using assms(1) that by (auto simp: first_best_def)
  have "fst c + 1 - n + n = Suc (fst c)" "snd c + 1 - n + n = Suc (snd c)" using run_to_le [of a b alo blo c] n by auto
  moreover have "run_to a b alo blo d \<le> n" "run_to a b alo blo d \<noteq> n" if "d \<in> D" for d
    using le [OF that] True by auto
  ultimately show ?thesis using True n by (auto simp: first_best_def)
next
  case False
  have "(\<exists>c'\<in>D. run_to a b alo blo c' = k \<and> i + k = Suc (fst c') \<and> j + k = Suc (snd c') \<and>
      (\<forall>d\<in>insert c D. run_to a b alo blo d = k \<longrightarrow> c' \<le> d))" if k: "k \<noteq> 0"
  proof -
    from assms(1) k obtain c' where c': "c' \<in> D" "run_to a b alo blo c' = k" "i + k = Suc (fst c')" "j + k = Suc (snd c')"
      "\<forall>d\<in>D. run_to a b alo blo d = k \<longrightarrow> c' \<le> d" by (auto simp: first_best_def)
    moreover have "c' \<le> c" using assms(2) [OF c'(1)] by simp
    ultimately show ?thesis by blast
  qed
  with assms(1) False n show ?thesis by (auto simp: first_best_def split: if_splits)
qed

lemma first_best_zero:
  assumes "first_best a b alo blo D best" and "\<And>c. c \<in> E \<Longrightarrow> run_to a b alo blo c = 0"
  shows "first_best a b alo blo (D \<union> E) best"
proof -
  obtain i j k where best: "best = (i, j, k)" by (cases best)
  have "\<exists>c\<in>D \<union> E. run_to a b alo blo c = k \<and> i + k = Suc (fst c) \<and> j + k = Suc (snd c) \<and>
      (\<forall>c'\<in>D \<union> E. run_to a b alo blo c' = k \<longrightarrow> c \<le> c')" if k: "k \<noteq> 0"
  proof -
    from assms(1) k best obtain c where "c \<in> D" "run_to a b alo blo c = k" "i + k = Suc (fst c)" "j + k = Suc (snd c)"
      "\<forall>d\<in>D. run_to a b alo blo d = k \<longrightarrow> c \<le> d" by (auto simp: first_best_def)
    with assms(2) k show ?thesis by (intro bexI [of _ c]) auto
  qed
  with assms best show ?thesis by (auto simp: first_best_def split: if_splits)
qed

lemma scan_row_correct:
  assumes "first_best a b alo blo D best" and "sorted_wrt (<) js"
    and "\<And>d j. d \<in> D \<Longrightarrow> j \<in> set js \<Longrightarrow> d < (i, j)"
    and "\<And>j. j \<in> set js \<Longrightarrow> blo \<le> j \<Longrightarrow> j < bhi \<Longrightarrow>
          (if 0 < j then j2len (j - 1) else 0) + 1 = run_to a b alo blo (i, j)"
    and "scan_row blo bhi i j2len js newj2len best = (new', best')"
  shows "first_best a b alo blo (D \<union> {(i, j) | j. j \<in> set js \<and> blo \<le> j \<and> j < bhi}) best' \<and>
     new' = (\<lambda>j. if j \<in> set js \<and> blo \<le> j \<and> j < bhi then run_to a b alo blo (i, j) else newj2len j)"
  using assms
proof (induction js arbitrary: D best newj2len)
  case Nil
  then show ?case by simp
next
  case (Cons j js)
  consider "j < blo" | "blo \<le> j" "bhi \<le> j" | "blo \<le> j" "j < bhi" by linarith
  then show ?case
  proof cases
    case 1
    have "first_best a b alo blo (D \<union> {(i, y) | y. y \<in> set js \<and> blo \<le> y \<and> y < bhi}) best' \<and>
      new' = (\<lambda>y. if y \<in> set js \<and> blo \<le> y \<and> y < bhi then run_to a b alo blo (i, y) else newj2len y)"
      using Cons.prems 1 by (intro Cons.IH) auto
    moreover have "{(i, y) | y. y \<in> set (j # js) \<and> blo \<le> y \<and> y < bhi} = {(i, y) | y. y \<in> set js \<and> blo \<le> y \<and> y < bhi}"
      using 1 by auto
    ultimately show ?thesis using 1 by (auto simp: fun_eq_iff)
  next
    case 2
    then have e: "{(i, y) | y. y \<in> set (j # js) \<and> blo \<le> y \<and> y < bhi} = {}" using Cons.prems(2) by fastforce
    then have "\<not> (y \<in> set (j # js) \<and> blo \<le> y \<and> y < bhi)" for y by blast
    with Cons.prems(1,5) 2 show ?thesis unfolding e by (auto simp: fun_eq_iff)
  next
    case 3
    define n where "n = run_to a b alo blo (i, j)"
    obtain bi bj bk where best: "best = (bi, bj, bk)" by (cases best)
    define best1 where "best1 = (if bk < n then (i + 1 - n, j + 1 - n, n) else (bi, bj, bk))"
    have k: "(if 0 < j then j2len (j - 1) else 0) + 1 = n" using Cons.prems(4) [of j] 3 n_def by simp
    have fb: "first_best a b alo blo (insert (i, j) D) best1"
    proof -
      have "first_best a b alo blo D (bi, bj, bk)" and "\<And>d. d \<in> D \<Longrightarrow> d < (i, j)"
        using Cons.prems(1,3) best by auto
      from first_best_insert [OF this n_def] show ?thesis by (simp only: best1_def fst_conv snd_conv)
    qed
    have row: "scan_row blo bhi i j2len js (newj2len(j := n)) best1 = (new', best')"
      using Cons.prems(5) 3 unfolding scan_row.simps k Let_def best best1_def by (simp split: if_splits)
    have later: "j < y" if "y \<in> set js" for y using Cons.prems(2) that by auto
    have "first_best a b alo blo (insert (i, j) D \<union> {(i, y) | y. y \<in> set js \<and> blo \<le> y \<and> y < bhi}) best' \<and>
      new' = (\<lambda>y. if y \<in> set js \<and> blo \<le> y \<and> y < bhi then run_to a b alo blo (i, y) else (newj2len(j := n)) y)"
    proof (rule Cons.IH [where newj2len = "newj2len(j := n)", OF fb _ _ _ row])
      show "sorted_wrt (<) js" using Cons.prems(2) by simp
      show "d < (i, y)" if "d \<in> insert (i, j) D" "y \<in> set js" for d y
      proof (cases "d = (i, j)")
        case True
        with later [OF that(2)] show ?thesis by simp
      next
        case False
        with that(1) have "d \<in> D" by simp
        with that(2) show ?thesis by (intro Cons.prems(3)) auto
      qed
    qed (use Cons.prems(4) in auto)
    moreover have "insert (i, j) D \<union> {(i, y) | y. y \<in> set js \<and> blo \<le> y \<and> y < bhi} =
        D \<union> {(i, y) | y. y \<in> set (j # js) \<and> blo \<le> y \<and> y < bhi}"
      using 3 by auto
    ultimately show ?thesis using 3 n_def by (auto simp: fun_eq_iff)
  qed
qed

definition cells :: "'a list \<Rightarrow> nat \<Rightarrow> nat \<Rightarrow> nat \<Rightarrow> nat \<Rightarrow> (nat \<times> nat) set" where
  "cells b alo i blo bhi = {(x, y). alo \<le> x \<and> x < i \<and> blo \<le> y \<and> y < bhi \<and> y < length b}"

definition row_runs :: "'a list \<Rightarrow> 'a list \<Rightarrow> nat \<Rightarrow> nat \<Rightarrow> nat \<Rightarrow> nat \<Rightarrow> nat \<Rightarrow> nat" where
  "row_runs a b alo blo bhi i =
     (\<lambda>j. if blo \<le> j \<and> j < bhi \<and> j < length b then run_at a b alo blo i (Suc j) else 0)"

lemma set_b2j: "j \<in> set (b2j b x) \<longleftrightarrow> j < length b \<and> b ! j = x"
  by (auto simp: b2j_eq)

lemma sorted_b2j: "sorted_wrt (<) (b2j b x)"
  by (simp add: b2j_eq sorted_wrt_filter)

lemma scan_row_step:
  assumes "first_best a b alo blo (cells b alo i blo bhi) best" and "alo \<le> i"
    and "scan_row blo bhi i (row_runs a b alo blo bhi i) (b2j b (a ! i)) (\<lambda>_. 0) best = (new', best')"
  shows "first_best a b alo blo (cells b alo (Suc i) blo bhi) best' \<and> new' = row_runs a b alo blo bhi (Suc i)"
proof -
  let ?js = "b2j b (a ! i)"
  let ?hit = "{(i, j) | j. j \<in> set ?js \<and> blo \<le> j \<and> j < bhi}"
  let ?rest = "{(i, j) | j. j < length b \<and> b ! j \<noteq> a ! i \<and> blo \<le> j \<and> j < bhi}"
  have run: "(if 0 < j then row_runs a b alo blo bhi i (j - 1) else 0) + 1 = run_to a b alo blo (i, j)"
    if j: "j \<in> set ?js" "blo \<le> j" "j < bhi" for j
  proof (cases "j \<le> blo")
    case True
    then have "run_at a b alo blo i j = 0" by (cases i; cases j) auto
    with True j assms(2) show ?thesis by (simp add: row_runs_def run_to_def set_b2j)
  next
    case False
    with j assms(2) show ?thesis by (auto simp: row_runs_def run_to_def set_b2j)
  qed
  have "first_best a b alo blo (cells b alo i blo bhi \<union> ?hit) best' \<and>
      new' = (\<lambda>j. if j \<in> set ?js \<and> blo \<le> j \<and> j < bhi then run_to a b alo blo (i, j) else 0)"
    using assms(1,3) sorted_b2j run
    by (intro scan_row_correct [where newj2len = "\<lambda>_. 0"]) (auto simp: cells_def)
  moreover from this have "first_best a b alo blo (cells b alo i blo bhi \<union> ?hit \<union> ?rest) best'"
    by (rule first_best_zero [OF conjunct1]) (auto simp: run_to_def)
  moreover have "cells b alo i blo bhi \<union> ?hit \<union> ?rest = cells b alo (Suc i) blo bhi"
    using assms(2) by (auto simp: cells_def set_b2j less_Suc_eq)
  ultimately show ?thesis by (auto simp: row_runs_def run_to_def set_b2j fun_eq_iff)
qed

lemma scan_rows_correct:
  assumes "alo \<le> i" and "first_best a b alo blo (cells b alo i blo bhi) best" and "i \<le> n"
  shows "first_best a b alo blo (cells b alo n blo bhi)
     (scan_rows a (b2j b) blo bhi [i..<n] (row_runs a b alo blo bhi i) best)"
  using assms
proof (induction "n - i" arbitrary: i best)
  case 0
  then show ?case by simp
next
  case (Suc d)
  obtain new' best' where row: "scan_row blo bhi i (row_runs a b alo blo bhi i) (b2j b (a ! i)) (\<lambda>_. 0) best = (new', best')"
    by (rule prod.exhaust)
  note step = scan_row_step [OF Suc.prems(2,1) row]
  have "first_best a b alo blo (cells b alo n blo bhi)
     (scan_rows a (b2j b) blo bhi [Suc i..<n] (row_runs a b alo blo bhi (Suc i)) best')"
    using Suc.hyps(2) Suc.prems step by (intro Suc.hyps(1)) auto
  moreover have "[i..<n] = i # [Suc i..<n]" using Suc.hyps(2) by (simp add: upt_conv_Cons)
  ultimately show ?case using row step by simp
qed

lemma scan_finds:
  "first_best a b alo blo (cells b alo (min ahi (length a)) blo bhi)
     (scan_rows a (b2j b) blo bhi [alo..<min ahi (length a)] (\<lambda>_. 0) (alo, blo, 0))"
proof -
  have zero: "run_at a b alo blo alo j = 0" for j by (cases alo; cases j) auto
  have runs: "row_runs a b alo blo bhi alo = (\<lambda>_. 0)" by (auto simp: row_runs_def zero)
  have "first_best a b alo blo (cells b alo alo blo bhi) (alo, blo, 0)" by (auto simp: first_best_def cells_def)
  from scan_rows_correct [OF le_refl this, of "min ahi (length a)"] show ?thesis
    by (cases "alo \<le> min ahi (length a)") (auto simp: runs first_best_def cells_def)
qed

text \<open>The block of a \<open>first_best\<close> is a match, and no match of the range is better.\<close>

lemma run_grows:
  assumes "alo \<le> i" "blo \<le> j" "\<forall>x<n. a ! (i + x) = b ! (j + x)" "0 < n"
  shows "n \<le> run_to a b alo blo (i + n - 1, j + n - 1)"
  using run_at_longest [OF assms(1-3)] assms(4) by (simp add: run_to_def del: run_at.simps)

lemma first_best_matches:
  assumes "first_best a b alo blo (cells b alo n blo bhi) (i, j, k)" and "0 < k"
  shows "matches a b alo n blo (min bhi (length b)) (i, j, k)"
proof -
  from assms obtain c where c: "c \<in> cells b alo n blo bhi" "run_to a b alo blo c = k"
    "i + k = Suc (fst c)" "j + k = Suc (snd c)" by (auto simp: first_best_def)
  then have ij: "i = Suc (fst c) - k" "j = Suc (snd c) - k" by auto
  from run_at_matches [OF c(2) [unfolded run_to_def]] assms(2) c show ?thesis
    unfolding matches_def ij by (auto simp: cells_def)
qed

lemma first_best_maximal:
  assumes fb: "first_best a b alo blo (cells b alo n blo bhi) (i, j, k)"
    and m: "matches a b alo n blo (min bhi (length b)) (x, y, z)"
  shows "z \<le> k \<and> (z = k \<longrightarrow> (i, j, k) \<le> (x, y, z))"
proof (cases "z = 0")
  case True
  with m fb show ?thesis by (auto simp: matches_def first_best_def)
next
  case False
  let ?c = "(x + z - 1, y + z - 1)"
  have c: "?c \<in> cells b alo n blo bhi" using m False by (auto simp: cells_def matches_def)
  have z: "z \<le> run_to a b alo blo ?c" using m False by (intro run_grows) (auto simp: matches_def)
  have k: "run_to a b alo blo ?c \<le> k" using fb c by (auto simp: first_best_def)
  moreover have "(i, j, k) \<le> (x, y, z)" if zk: "z = k"
  proof -
    from fb zk False obtain d where d: "i + k = Suc (fst d)" "j + k = Suc (snd d)"
      "\<forall>c'\<in>cells b alo n blo bhi. run_to a b alo blo c' = k \<longrightarrow> d \<le> c'" by (auto simp: first_best_def)
    from d(3) c z k zk have "d \<le> ?c" by auto
    with d(1,2) zk False show ?thesis by (cases d) auto
  qed
  ultimately show ?thesis using z by auto
qed

text \<open>A longest match cannot be extended: the two passes after the scan change nothing.\<close>

lemma extend_back_stops:
  assumes "first_best a b alo blo (cells b alo n blo bhi) (i, j, k)"
  shows "extend_back a b alo blo (i, j, k) = (i, j, k)"
proof (cases "k = 0")
  case True
  with assms show ?thesis by (simp add: first_best_def extend_back.simps)
next
  case False
  then have m: "matches a b alo n blo (min bhi (length b)) (i, j, k)" using assms by (simp add: first_best_matches)
  have False if bk: "alo < i" "blo < j" "a ! (i - 1) = b ! (j - 1)"
  proof -
    have "a ! (i - 1 + x) = b ! (j - 1 + x)" if "x < Suc k" for x
      using that bk m by (cases x) (auto simp: matches_def)
    then have "matches a b alo n blo (min bhi (length b)) (i - 1, j - 1, Suc k)"
      using m bk by (auto simp: matches_def)
    from first_best_maximal [OF assms this] show False by simp
  qed
  then show ?thesis by (subst extend_back.simps) auto
qed

lemma extend_forward_stops:
  assumes "first_best a b alo blo (cells b alo n blo bhi) (i, j, k)"
    and "n = min ahi (length a)" "ahi \<le> length a" "bhi \<le> length b"
  shows "extend_forward a b ahi bhi (i, j, k) = (i, j, k)"
proof -
  have False if fwd: "i + k < ahi" "j + k < bhi" "a ! (i + k) = b ! (j + k)"
  proof -
    have ij: "alo \<le> i \<and> blo \<le> j \<and> (\<forall>x<k. a ! (i + x) = b ! (j + x))"
      using assms(1) first_best_matches [OF assms(1)] by (cases "k = 0") (auto simp: first_best_def matches_def)
    then have "matches a b alo n blo (min bhi (length b)) (i, j, Suc k)"
      using fwd assms(2-4) by (auto simp: matches_def less_Suc_eq)
    from first_best_maximal [OF assms(1) this] show False by simp
  qed
  then show ?thesis by (subst extend_forward.simps) auto
qed

lemma find_longest_match_scan:
  assumes "ahi \<le> length a" "bhi \<le> length b"
  shows "first_best a b alo blo (cells b alo ahi blo bhi) (find_longest_match a b alo ahi blo bhi)"
proof -
  obtain i j k where s: "scan_rows a (b2j b) blo bhi [alo..<min ahi (length a)] (\<lambda>_. 0) (alo, blo, 0) = (i, j, k)"
    by (rule prod_cases3)
  have fb: "first_best a b alo blo (cells b alo (min ahi (length a)) blo bhi) (i, j, k)"
    using scan_finds [of a b alo blo ahi bhi] unfolding s .
  then show ?thesis
    using extend_back_stops [OF fb] extend_forward_stops [OF fb refl assms] assms(1)
    unfolding find_longest_match_def s by (simp add: min_def split: if_splits)
qed

lemma find_longest_match_matches:
  assumes "ahi \<le> length a" "bhi \<le> length b" "alo \<le> ahi" "blo \<le> bhi"
  shows "matches a b alo ahi blo bhi (find_longest_match a b alo ahi blo bhi)"
proof -
  obtain i j k where m: "find_longest_match a b alo ahi blo bhi = (i, j, k)" by (rule prod_cases3)
  have "first_best a b alo blo (cells b alo ahi blo bhi) (i, j, k)"
    using find_longest_match_scan [OF assms(1,2), of alo blo] by (simp add: m)
  from first_best_matches [OF this] this show ?thesis
    using assms by (cases "k = 0") (auto simp: m matches_def first_best_def)
qed

section \<open>Matching blocks\<close>

lemma extend_forward_range:
  "extend_forward a b ahi bhi (i, j, k) = (i', j', k') \<Longrightarrow> i' = i \<and> (k' = k \<or> i' + k' \<le> ahi)"
proof (induction a b ahi bhi "(i, j, k)" arbitrary: k rule: extend_forward.induct)
  case (1 a b ahi bhi k)
  from "1.prems" have "(if i + k < ahi \<and> j + k < bhi \<and> a ! (i + k) = b ! (j + k)
      then extend_forward a b ahi bhi (i, j, k + 1) else (i, j, k)) = (i', j', k')"
    by (subst (asm) extend_forward.simps)
  with "1.hyps" show ?case by (fastforce split: if_splits)
qed

lemma find_longest_match_range:
  assumes "find_longest_match a b alo ahi blo bhi = (i, j, k)" and "0 < k"
  shows "alo \<le> i \<and> i + k \<le> ahi"
proof -
  obtain x y z where s: "scan_rows a (b2j b) blo bhi [alo..<min ahi (length a)] (\<lambda>_. 0) (alo, blo, 0) = (x, y, z)"
    by (rule prod_cases3)
  have fb: "first_best a b alo blo (cells b alo (min ahi (length a)) blo bhi) (x, y, z)"
    using scan_finds [of a b alo blo ahi bhi] unfolding s .
  have f: "extend_forward a b ahi bhi (x, y, z) = (i, j, k)"
    using assms(1) extend_back_stops [OF fb] unfolding find_longest_match_def s by simp
  have "z \<noteq> 0 \<Longrightarrow> alo \<le> x \<and> x + z \<le> ahi" using first_best_matches [OF fb] by (auto simp: matches_def)
  moreover have "z = 0 \<Longrightarrow> x = alo" using fb by (auto simp: first_best_def)
  ultimately show ?thesis using extend_forward_range [OF f] assms(2) by (cases "z = 0") auto
qed

text \<open>The queue is a stack: its head is the last range pushed.\<close>

type_synonym range4 = "nat \<times> nat \<times> nat \<times> nat"

definition range_weight :: "range4 \<Rightarrow> nat" where
  "range_weight r = (case r of (alo, ahi, blo, bhi) \<Rightarrow> 2 * (ahi - alo) + 1)"

function block_queue :: "'a list \<Rightarrow> 'a list \<Rightarrow> range4 list \<Rightarrow> smatch list \<Rightarrow> smatch list" where
  "block_queue a b [] blocks = blocks"
| "block_queue a b ((alo, ahi, blo, bhi) # queue) blocks =
     (let (i, j, k) = find_longest_match a b alo ahi blo bhi in
      if 0 < k then
        block_queue a b
          ((if i + k < ahi \<and> j + k < bhi then [(i + k, ahi, j + k, bhi)] else []) @
           (if alo < i \<and> blo < j then [(alo, i, blo, j)] else []) @ queue)
          (blocks @ [(i, j, k)])
      else block_queue a b queue blocks)"
  by pat_completeness auto
termination
proof (relation "measure (\<lambda>(a, b, queue, blocks). \<Sum>r\<leftarrow>queue. range_weight r)", goal_cases)
  case (2 a b alo ahi blo bhi queue blocks m i x j k)
  then have "find_longest_match a b alo ahi blo bhi = (i, j, k)" "0 < k" by auto
  note find_longest_match_range [OF this]
  with 2 show ?case by (auto simp: range_weight_def)
qed (auto simp: range_weight_def)

declare block_queue.simps(2) [simp del]

fun merge_blocks :: "smatch \<Rightarrow> smatch list \<Rightarrow> smatch list" where
  "merge_blocks (i1, j1, k1) [] = (if 0 < k1 then [(i1, j1, k1)] else [])"
| "merge_blocks (i1, j1, k1) ((i, j, k) # ms) =
     (if i1 + k1 = i \<and> j1 + k1 = j then merge_blocks (i1, j1, k1 + k) ms
      else (if 0 < k1 then [(i1, j1, k1)] else []) @ merge_blocks (i, j, k) ms)"

definition matching_blocks :: "'a list \<Rightarrow> 'a list \<Rightarrow> smatch list" where
  "matching_blocks a b =
     merge_blocks (0, 0, 0) (sort (block_queue a b [(0, length a, 0, length b)] [])) @
     [(length a, length b, 0)]"

section \<open>Opcodes\<close>

fun opcode_loop :: "nat \<Rightarrow> nat \<Rightarrow> smatch list \<Rightarrow> opcode list" where
  "opcode_loop i j [] = []"
| "opcode_loop i j ((x, y, k) # ms) =
     (let tag = (if i < x \<and> j < y then Some Replace
                 else if i < x then Some Delete
                 else if j < y then Some Insert
                 else None)
      in (case tag of Some t \<Rightarrow> [\<lparr>op_tag = t, op_i1 = i, op_i2 = x, op_j1 = j, op_j2 = y\<rparr>] | None \<Rightarrow> []) @
         (if 0 < k then [\<lparr>op_tag = Equal, op_i1 = x, op_i2 = x + k, op_j1 = y, op_j2 = y + k\<rparr>] else []) @
         opcode_loop (x + k) (y + k) ms)"

definition opcodes :: "'a list \<Rightarrow> 'a list \<Rightarrow> opcode list" where
  "opcodes a b = opcode_loop 0 0 (matching_blocks a b)"

section \<open>Blocks advance through both sequences\<close>

fun advancing :: "'a list \<Rightarrow> 'a list \<Rightarrow> nat \<Rightarrow> nat \<Rightarrow> smatch list \<Rightarrow> nat \<Rightarrow> nat \<Rightarrow> bool" where
  "advancing a b i j [] ahi bhi = (i \<le> ahi \<and> j \<le> bhi)"
| "advancing a b i j ((x, y, k) # ms) ahi bhi =
     (i \<le> x \<and> j \<le> y \<and> 0 < k \<and> (\<forall>z<k. a ! (x + z) = b ! (y + z)) \<and> advancing a b (x + k) (y + k) ms ahi bhi)"

definition separated :: "smatch list \<Rightarrow> bool" where
  "separated = successively (\<lambda>(i, j, k) (x, y, _). i + k < x \<or> j + k < y)"

lemma advancing_append:
  "advancing a b i j xs x y \<Longrightarrow> advancing a b x y ys ahi bhi \<Longrightarrow> advancing a b i j (xs @ ys) ahi bhi"
proof (induction a b i j xs x y rule: advancing.induct)
  case (1 a b i j x y)
  then show ?case by (cases ys) auto
qed auto

lemma advancing_le: "advancing a b i j ms ahi bhi \<Longrightarrow> i \<le> ahi \<and> j \<le> bhi"
  by (induction a b i j ms ahi bhi rule: advancing.induct) auto

lemma advancing_sorted:
  "advancing a b i j ms ahi bhi \<Longrightarrow> sorted ms \<and> (\<forall>m\<in>set ms. i \<le> fst m)"
  by (induction a b i j ms ahi bhi rule: advancing.induct) fastforce+

text \<open>The ranges in order: the reference the stack of ranges is compared with.\<close>

function blocks_in :: "'a list \<Rightarrow> 'a list \<Rightarrow> nat \<Rightarrow> nat \<Rightarrow> nat \<Rightarrow> nat \<Rightarrow> smatch list" where
  "blocks_in a b alo ahi blo bhi =
     (let (i, j, k) = find_longest_match a b alo ahi blo bhi in
      if 0 < k then
        (if alo < i \<and> blo < j then blocks_in a b alo i blo j else []) @ (i, j, k) #
        (if i + k < ahi \<and> j + k < bhi then blocks_in a b (i + k) ahi (j + k) bhi else [])
      else [])"
  by pat_completeness auto
termination
proof (relation "measure (\<lambda>(a, b, alo, ahi, blo, bhi). ahi - alo)", goal_cases)
  case (2 a b alo ahi blo bhi m i x j k)
  then have "find_longest_match a b alo ahi blo bhi = (i, j, k)" "0 < k" by auto
  note find_longest_match_range [OF this]
  with 2 show ?case by auto
next
  case (3 a b alo ahi blo bhi m i x j k)
  then have "find_longest_match a b alo ahi blo bhi = (i, j, k)" "0 < k" by auto
  note find_longest_match_range [OF this]
  with 3 show ?case by auto
qed simp

declare blocks_in.simps [simp del]

definition range_blocks :: "'a list \<Rightarrow> 'a list \<Rightarrow> range4 \<Rightarrow> smatch list" where
  "range_blocks a b r = (case r of (alo, ahi, blo, bhi) \<Rightarrow> blocks_in a b alo ahi blo bhi)"

lemma block_queue_mset:
  "mset (block_queue a b queue blocks) = mset blocks + (\<Sum>r\<leftarrow>queue. mset (range_blocks a b r))"
proof (induction a b queue blocks rule: block_queue.induct)
  case (1 a b blocks)
  then show ?case by simp
next
  case (2 a b alo ahi blo bhi queue blocks)
  obtain i j k where m: "find_longest_match a b alo ahi blo bhi = (i, j, k)" by (rule prod_cases3)
  show ?case
    using 2 [OF refl, of i "(j, k)" j k]
    by (subst block_queue.simps) (auto simp: m range_blocks_def blocks_in.simps [of a b alo])
qed

lemma blocks_in_advancing:
  assumes "alo \<le> ahi" "ahi \<le> length a" "blo \<le> bhi" "bhi \<le> length b"
  shows "advancing a b alo blo (blocks_in a b alo ahi blo bhi) ahi bhi"
  using assms
proof (induction a b alo ahi blo bhi rule: blocks_in.induct)
  case (1 a b alo ahi blo bhi)
  obtain i j k where m: "find_longest_match a b alo ahi blo bhi = (i, j, k)" by (rule prod_cases3)
  have mt: "matches a b alo ahi blo bhi (i, j, k)"
    using find_longest_match_matches [of ahi a bhi b alo blo] "1.prems" by (simp add: m)
  show ?case
  proof (cases "0 < k")
    case False
    with m "1.prems" show ?thesis by (simp add: blocks_in.simps)
  next
    case True
    let ?l = "if alo < i \<and> blo < j then blocks_in a b alo i blo j else []"
    let ?r = "if i + k < ahi \<and> j + k < bhi then blocks_in a b (i + k) ahi (j + k) bhi else []"
    have l: "advancing a b alo blo ?l i j"
      using "1.IH"(1) [OF refl m [symmetric] refl True] "1.prems" mt by (auto simp: matches_def)
    have r: "advancing a b (i + k) (j + k) ?r ahi bhi"
      using "1.IH"(2) [OF refl m [symmetric] refl True] "1.prems" mt by (auto simp: matches_def)
    have "advancing a b i j ((i, j, k) # ?r) ahi bhi" using r True mt by (simp add: matches_def)
    from advancing_append [OF l this] True show ?thesis
      by (subst blocks_in.simps) (simp only: m Let_def prod.case if_True)
  qed
qed

lemma sorted_queue: "sort (block_queue a b [(0, length a, 0, length b)] []) = blocks_in a b 0 (length a) 0 (length b)"
proof (rule properties_for_sort)
  show "mset (blocks_in a b 0 (length a) 0 (length b)) = mset (block_queue a b [(0, length a, 0, length b)] [])"
    by (simp add: block_queue_mset range_blocks_def)
  show "sorted (blocks_in a b 0 (length a) 0 (length b))"
    using advancing_sorted [OF blocks_in_advancing [of 0 "length a" a 0 "length b" b]] by simp
qed

lemma advancing_join:
  assumes "advancing a b i j ((i1, j1, k1) # (i1 + k1, j1 + k1, k) # ms) ahi bhi"
  shows "advancing a b i j ((i1, j1, k1 + k) # ms) ahi bhi"
proof -
  have "a ! (i1 + z) = b ! (j1 + z)" if "z < k1 + k" for z
  proof (cases "z < k1")
    case False
    then have "z - k1 < k" "i1 + k1 + (z - k1) = i1 + z" "j1 + k1 + (z - k1) = j1 + z" using that by auto
    with assms show ?thesis by (auto dest: spec [of _ "z - k1"])
  qed (use assms in auto)
  with assms show ?thesis by (auto simp: add.assoc)
qed

lemma merge_advancing:
  "advancing a b i j ((i1, j1, k1) # ms) ahi bhi \<Longrightarrow> advancing a b i j (merge_blocks (i1, j1, k1) ms) ahi bhi"
proof (induction ms arbitrary: i j i1 j1 k1)
  case (Cons m ms)
  obtain x y k where m: "m = (x, y, k)" by (rule prod_cases3)
  show ?case
  proof (cases "i1 + k1 = x \<and> j1 + k1 = y")
    case True
    with Cons.prems m have "advancing a b i j ((i1, j1, k1) # (i1 + k1, j1 + k1, k) # ms) ahi bhi" by simp
    from Cons.IH [OF advancing_join [OF this]] True show ?thesis by (simp add: m)
  next
    case False
    from Cons.prems have "advancing a b (i1 + k1) (j1 + k1) (merge_blocks (x, y, k) ms) ahi bhi"
      unfolding m by (intro Cons.IH) simp
    with Cons.prems False show ?thesis unfolding m by auto
  qed
qed simp

lemma merge_separated:
  assumes "advancing a b i j ((i1, j1, k1) # ms) ahi bhi"
  shows "separated (merge_blocks (i1, j1, k1) ms) \<and> (\<exists>k. take 1 (merge_blocks (i1, j1, k1) ms) = [(i1, j1, k)])"
  using assms
proof (induction ms arbitrary: i j i1 j1 k1)
  case Nil
  then show ?case by (simp add: separated_def)
next
  case (Cons m ms)
  obtain x y k where m: "m = (x, y, k)" by (rule prod_cases3)
  show ?case
  proof (cases "i1 + k1 = x \<and> j1 + k1 = y")
    case True
    with Cons.prems m have "advancing a b i j ((i1, j1, k1) # (i1 + k1, j1 + k1, k) # ms) ahi bhi" by simp
    from Cons.IH [OF advancing_join [OF this]] True show ?thesis by (simp add: m)
  next
    case False
    from Cons.prems have "advancing a b (i1 + k1) (j1 + k1) ((x, y, k) # ms) ahi bhi" unfolding m by simp
    from Cons.IH [OF this] obtain k' where ih: "separated (merge_blocks (x, y, k) ms)"
      "take 1 (merge_blocks (x, y, k) ms) = [(x, y, k')]" by blast
    obtain rest where "merge_blocks (x, y, k) ms = (x, y, k') # rest"
      using ih(2) by (cases "merge_blocks (x, y, k) ms") auto
    with ih(1) Cons.prems False show ?thesis unfolding m separated_def by auto
  qed
qed

definition block_pairs :: "smatch list \<Rightarrow> (nat \<times> nat) list" where
  "block_pairs ms = concat (map (\<lambda>(i, j, k). map (\<lambda>x. (i + x, j + x)) [0..<k]) ms)"

lemma merge_pairs: "block_pairs (merge_blocks (i1, j1, k1) ms) = block_pairs ((i1, j1, k1) # ms)"
proof (induction ms arbitrary: i1 j1 k1)
  case (Cons m ms)
  obtain x y k where m: "m = (x, y, k)" by (rule prod_cases3)
  have "map f [0..<k1 + k] = map f [0..<k1] @ map (\<lambda>z. f (k1 + z)) [0..<k]" for f :: "nat \<Rightarrow> nat \<times> nat"
    by (intro nth_equalityI) (auto simp: nth_append)
  note this [of "\<lambda>z. (i1 + z, j1 + z)"]
  with Cons show ?case unfolding m by (auto simp: block_pairs_def add.assoc)
qed (simp add: block_pairs_def)

lemma merge_start: "merge_blocks (0, 0, 0) ms = (case ms of [] \<Rightarrow> [] | m # ms \<Rightarrow> merge_blocks m ms)"
  by (cases ms) auto

definition real_blocks :: "'a list \<Rightarrow> 'a list \<Rightarrow> smatch list" where
  "real_blocks a b = merge_blocks (0, 0, 0) (blocks_in a b 0 (length a) 0 (length b))"

lemma matching_blocks_eq: "matching_blocks a b = real_blocks a b @ [(length a, length b, 0)]"
  by (simp add: matching_blocks_def sorted_queue real_blocks_def)

lemma real_blocks_advancing:
  "advancing a b 0 0 (real_blocks a b) (length a) (length b) \<and> separated (real_blocks a b)"
proof -
  have adv: "advancing a b 0 0 (blocks_in a b 0 (length a) 0 (length b)) (length a) (length b)"
    by (rule blocks_in_advancing) auto
  show ?thesis
  proof (cases "blocks_in a b 0 (length a) 0 (length b)")
    case Nil
    then show ?thesis by (simp add: real_blocks_def separated_def)
  next
    case (Cons m ms)
    obtain i j k where m: "m = (i, j, k)" by (rule prod_cases3)
    from merge_advancing merge_separated adv show ?thesis
      unfolding real_blocks_def merge_start Cons list.case m by blast
  qed
qed

section \<open>Opcodes tile both sequences\<close>

definition slice_of :: "'a list \<Rightarrow> nat \<Rightarrow> nat \<Rightarrow> 'a list" where
  "slice_of xs m n = take (n - m) (drop m xs)"

definition opcode_ok :: "'a list \<Rightarrow> 'a list \<Rightarrow> opcode \<Rightarrow> bool" where
  "opcode_ok a b c =
     (case op_tag c of
        Equal \<Rightarrow> op_i1 c < op_i2 c \<and> slice_of a (op_i1 c) (op_i2 c) = slice_of b (op_j1 c) (op_j2 c)
      | Replace \<Rightarrow> op_i1 c < op_i2 c \<and> op_j1 c < op_j2 c
      | Delete \<Rightarrow> op_i1 c < op_i2 c \<and> op_j1 c = op_j2 c
      | Insert \<Rightarrow> op_i1 c = op_i2 c \<and> op_j1 c < op_j2 c)"

fun tiles :: "nat \<Rightarrow> nat \<Rightarrow> opcode list \<Rightarrow> nat \<Rightarrow> nat \<Rightarrow> bool" where
  "tiles i j [] ahi bhi = (i = ahi \<and> j = bhi)"
| "tiles i j (c # cs) ahi bhi =
     (op_i1 c = i \<and> op_j1 c = j \<and> i \<le> op_i2 c \<and> j \<le> op_j2 c \<and> tiles (op_i2 c) (op_j2 c) cs ahi bhi)"

text \<open>What replaying an opcode leaves: the text of \<open>a\<close> where both agree, of \<open>b\<close> where they do not.\<close>

definition replay :: "'a list \<Rightarrow> 'a list \<Rightarrow> opcode \<Rightarrow> 'a list" where
  "replay a b c =
     (case op_tag c of
        Equal \<Rightarrow> slice_of a (op_i1 c) (op_i2 c)
      | Delete \<Rightarrow> []
      | _ \<Rightarrow> slice_of b (op_j1 c) (op_j2 c))"

definition alternating :: "opcode list \<Rightarrow> bool" where
  "alternating = successively (\<lambda>c d. (op_tag c = Equal) \<noteq> (op_tag d = Equal))"

lemma slice_of_join:
  assumes "m \<le> n" "n \<le> p"
  shows "slice_of xs m n @ slice_of xs n p = slice_of xs m p"
proof -
  from assms obtain d e where "n = m + d" "p = m + d + e" by (metis le_iff_add)
  then show ?thesis by (simp add: slice_of_def take_add add.commute [of m])
qed

lemma slice_of_all: "slice_of xs 0 (length xs) = xs"
  by (simp add: slice_of_def)

lemma slice_of_nil [simp]: "slice_of xs m m = []"
  by (simp add: slice_of_def)

lemma slice_of_eq:
  assumes "\<forall>z<k. a ! (x + z) = b ! (y + z)" "x + k \<le> length a" "y + k \<le> length b"
  shows "slice_of a x (x + k) = slice_of b y (y + k)"
  using assms by (intro nth_equalityI) (auto simp: slice_of_def)

lemma opcode_loop_tiles:
  assumes "advancing a b i j ms (length a) (length b)"
  shows "tiles i j (opcode_loop i j (ms @ [(length a, length b, 0)])) (length a) (length b) \<and>
    (\<forall>c\<in>set (opcode_loop i j (ms @ [(length a, length b, 0)])). opcode_ok a b c)"
  using assms
proof (induction ms arbitrary: i j)
  case Nil
  then show ?case by (auto simp: opcode_ok_def)
next
  case (Cons m ms)
  obtain x y k where m: "m = (x, y, k)" by (rule prod_cases3)
  from Cons.prems have rest: "advancing a b (x + k) (y + k) ms (length a) (length b)" by (simp add: m)
  have "slice_of a x (x + k) = slice_of b y (y + k)"
    using advancing_le [OF rest] Cons.prems by (intro slice_of_eq) (auto simp: m)
  with Cons.IH [OF rest] Cons.prems show ?case unfolding m by (auto simp: opcode_ok_def)
qed

lemma tiles_le: "tiles i j cs ahi bhi \<Longrightarrow> i \<le> ahi \<and> j \<le> bhi"
  by (induction i j cs ahi bhi rule: tiles.induct) auto

lemma tiles_replay:
  assumes "tiles i j cs ahi bhi" and "\<forall>c\<in>set cs. opcode_ok a b c"
  shows "concat (map (replay a b) cs) = slice_of b j bhi \<and>
    concat (map (\<lambda>c. slice_of a (op_i1 c) (op_i2 c)) cs) = slice_of a i ahi"
  using assms
proof (induction i j cs ahi bhi rule: tiles.induct)
  case (2 i j c cs ahi bhi)
  have le: "op_i2 c \<le> ahi" "op_j2 c \<le> bhi" using "2.prems" tiles_le by auto
  have "replay a b c = slice_of b j (op_j2 c)"
    using "2.prems" by (auto simp: replay_def opcode_ok_def split: tag.splits)
  with 2 le show ?case by (auto simp: slice_of_join)
qed simp

lemma opcode_loop_alternates:
  assumes "separated ((p, q, n) # ms)" "\<forall>m\<in>set ms. 0 < snd (snd m)" "i = p + n" "j = q + n"
  shows "alternating (opcode_loop i j (ms @ [(la, lb, 0)])) \<and>
    (\<forall>c\<in>set (take 1 (opcode_loop i j (ms @ [(la, lb, 0)]))). op_tag c \<noteq> Equal)"
  using assms
proof (induction ms arbitrary: p q n i j)
  case Nil
  then show ?case by (auto simp: alternating_def)
next
  case (Cons m ms)
  obtain x y k where m: "m = (x, y, k)" by (rule prod_cases3)
  have ih: "alternating (opcode_loop (x + k) (y + k) (ms @ [(la, lb, 0)])) \<and>
    (\<forall>c\<in>set (take 1 (opcode_loop (x + k) (y + k) (ms @ [(la, lb, 0)]))). op_tag c \<noteq> Equal)"
    using Cons.prems by (intro Cons.IH [of x y k]) (auto simp: m separated_def)
  show ?case
  proof (cases "opcode_loop (x + k) (y + k) (ms @ [(la, lb, 0)])")
    case Nil
    with Cons.prems show ?thesis by (auto simp: m separated_def alternating_def)
  next
    case (Cons c cs)
    with Cons.prems ih show ?thesis by (auto simp: m separated_def alternating_def)
  qed
qed

lemma advancing_positive: "advancing a b i j ms ahi bhi \<Longrightarrow> \<forall>m\<in>set ms. 0 < snd (snd m)"
  by (induction a b i j ms ahi bhi rule: advancing.induct) auto

text \<open>The example in the tests of the source.\<close>

lemma opcodes_doc_example:
  "opcodes ''qabxcd'' ''abycdf'' =
     [\<lparr>op_tag = Delete, op_i1 = 0, op_i2 = 1, op_j1 = 0, op_j2 = 0\<rparr>,
      \<lparr>op_tag = Equal, op_i1 = 1, op_i2 = 3, op_j1 = 0, op_j2 = 2\<rparr>,
      \<lparr>op_tag = Replace, op_i1 = 3, op_i2 = 4, op_j1 = 2, op_j2 = 3\<rparr>,
      \<lparr>op_tag = Equal, op_i1 = 4, op_i2 = 6, op_j1 = 3, op_j2 = 5\<rparr>,
      \<lparr>op_tag = Insert, op_i1 = 6, op_i2 = 6, op_j1 = 5, op_j2 = 6\<rparr>]"
  by code_simp

section \<open>Properties\<close>

text \<open>
  C28: on a range of two sequences the matcher finds a longest common block, and among the
  longest the one that starts first in \<open>a\<close>, then first in \<open>b\<close>.
\<close>

theorem longest_match_first:
  assumes "alo \<le> ahi" "ahi \<le> length a" "blo \<le> bhi" "bhi \<le> length b"
  shows "matches a b alo ahi blo bhi (find_longest_match a b alo ahi blo bhi) \<and>
    (\<forall>i j k. matches a b alo ahi blo bhi (i, j, k) \<longrightarrow>
       k \<le> snd (snd (find_longest_match a b alo ahi blo bhi)) \<and>
       (k = snd (snd (find_longest_match a b alo ahi blo bhi)) \<longrightarrow>
          find_longest_match a b alo ahi blo bhi \<le> (i, j, k)))"
proof -
  obtain i j k where m: "find_longest_match a b alo ahi blo bhi = (i, j, k)" by (rule prod_cases3)
  have fb: "first_best a b alo blo (cells b alo ahi blo bhi) (i, j, k)"
    using find_longest_match_scan [OF assms(2,4), of alo blo] by (simp add: m)
  have "z \<le> k \<and> (z = k \<longrightarrow> (i, j, k) \<le> (x, y, z))" if "matches a b alo ahi blo bhi (x, y, z)" for x y z
    using first_best_maximal [OF fb, of x y z] that assms(4) by (simp add: min_absorb1)
  with find_longest_match_matches [OF assms(2,4,1,3)] show ?thesis unfolding m by (simp del: less_eq_prod_simp)
qed

lemma longest_match_first_witness:
  "find_longest_match ''qabxcd'' ''abycdf'' 0 6 0 6 = (1, 0, 2) \<and>
   matches ''qabxcd'' ''abycdf'' 0 6 0 6 (1, 0, 2) \<and> matches ''qabxcd'' ''abycdf'' 0 6 0 6 (4, 3, 2) \<and>
   (1, 0, 2) \<le> ((4, 3, 2) :: smatch)"
proof -
  have m: "find_longest_match ''qabxcd'' ''abycdf'' 0 6 0 6 = (1, 0, 2)"
    "matches ''qabxcd'' ''abycdf'' 0 6 0 6 (4, 3, 2)" by code_simp+
  have "0 \<le> (6::nat)" "6 \<le> length ''qabxcd''" "6 \<le> length ''abycdf''" by simp_all
  from longest_match_first [OF this(1,2,1,3), unfolded m(1)] m show ?thesis
    by (simp only: snd_conv)
qed

text \<open>
  C27: the matching blocks are those of the in-order recursion over the longest matches. They
  advance through both sequences, every block matches, no two touch (they would be one), and the
  sentinel ends them.
\<close>

theorem matching_blocks_in_order:
  "\<exists>ms. matching_blocks a b = ms @ [(length a, length b, 0)] \<and>
     advancing a b 0 0 ms (length a) (length b) \<and> separated ms \<and>
     block_pairs ms = block_pairs (blocks_in a b 0 (length a) 0 (length b))"
proof (intro exI conjI)
  show "matching_blocks a b = real_blocks a b @ [(length a, length b, 0)]" by (rule matching_blocks_eq)
  show "block_pairs (real_blocks a b) = block_pairs (blocks_in a b 0 (length a) 0 (length b))"
    by (simp add: real_blocks_def merge_pairs) (simp add: block_pairs_def)
qed (use real_blocks_advancing [of a b] in auto)

text \<open>
  C25: the opcodes cover both sequences from end to end without gap or overlap, each is what its
  tag says (an \<open>Equal\<close> one joins equal slices, a \<open>Replace\<close> is empty on neither side, a \<open>Delete\<close>
  or \<open>Insert\<close> on just one), and equal and unequal stretches alternate.
\<close>

theorem opcodes_tile:
  "tiles 0 0 (opcodes a b) (length a) (length b) \<and> (\<forall>c\<in>set (opcodes a b). opcode_ok a b c) \<and>
   alternating (opcodes a b)"
proof -
  note adv = real_blocks_advancing [of a b]
  have "alternating (opcode_loop 0 0 (real_blocks a b @ [(length a, length b, 0)]))"
  proof (cases "\<exists>k ms. real_blocks a b = (0, 0, k) # ms")
    case True
    then obtain k ms where ms: "real_blocks a b = (0, 0, k) # ms" by blast
    have alt: "alternating (opcode_loop k k (ms @ [(length a, length b, 0)])) \<and>
        (\<forall>c\<in>set (take 1 (opcode_loop k k (ms @ [(length a, length b, 0)]))). op_tag c \<noteq> Equal)"
      using adv advancing_positive [OF conjunct1 [OF adv]] unfolding ms
      by (intro opcode_loop_alternates [of 0 0 k]) auto
    with adv show ?thesis unfolding ms
      by (cases "opcode_loop k k (ms @ [(length a, length b, 0)])") (auto simp: alternating_def)
  next
    case False
    then have "separated ((0, 0, 0) # real_blocks a b)"
      using adv by (cases "real_blocks a b") (auto simp: separated_def)
    from opcode_loop_alternates [OF this advancing_positive [OF conjunct1 [OF adv]]] show ?thesis by simp
  qed
  with opcode_loop_tiles [OF conjunct1 [OF adv]] show ?thesis
    by (simp add: opcodes_def matching_blocks_eq)
qed

lemma opcodes_tile_witness:
  "length (opcodes ''qabxcd'' ''abycdf'') = 5 \<and>
   opcode_ok ''qabxcd'' ''abycdf'' \<lparr>op_tag = Equal, op_i1 = 1, op_i2 = 3, op_j1 = 0, op_j2 = 2\<rparr> \<and>
   tiles 0 0 (opcodes ''qabxcd'' ''abycdf'') (length ''qabxcd'') (length ''abycdf'')"
proof -
  have "\<lparr>op_tag = Equal, op_i1 = 1, op_i2 = 3, op_j1 = 0, op_j2 = 2\<rparr> \<in> set (opcodes ''qabxcd'' ''abycdf'')"
    "length (opcodes ''qabxcd'' ''abycdf'') = 5" by (simp_all add: opcodes_doc_example)
  with opcodes_tile [of "''qabxcd''" "''abycdf''"] show ?thesis by blast
qed

text \<open>
  C26: replaying the opcodes, the text of \<open>a\<close> where they say equal and of \<open>b\<close> where they do not,
  gives back \<open>b\<close>, and the stretches they name in \<open>a\<close> give back \<open>a\<close>.
\<close>

theorem opcodes_replay:
  "concat (map (replay a b) (opcodes a b)) = b \<and>
   concat (map (\<lambda>c. slice_of a (op_i1 c) (op_i2 c)) (opcodes a b)) = a"
proof -
  have "tiles 0 0 (opcodes a b) (length a) (length b) \<and> (\<forall>c\<in>set (opcodes a b). opcode_ok a b c)"
    using opcode_loop_tiles [OF conjunct1 [OF real_blocks_advancing [of a b]]]
    by (simp add: opcodes_def matching_blocks_eq)
  then show ?thesis using tiles_replay [of 0 0 "opcodes a b" "length a" "length b" a b]
    by (simp add: slice_of_all)
qed

end
