(* ===== verification/Rust_Prelude.thy ===== *)
theory Rust_Prelude
  imports Main "HOL-Library.Char_ord" "HOL-Library.List_Lexorder" "HOL-Library.Option_ord"
    "HOL-Library.AList"
begin

text \<open>
  Shared material: the operations of Rust's \<open>str\<close> and integer parsing that the sources
  use, on byte strings (\<^typ>\<open>string\<close> is the UTF-8 encoding, one \<^typ>\<open>char\<close> per
  byte), the lemma collections of the development, and the two interfaces several
  components share: a machine whose operations keep an invariant, and a table of rows
  addressed by a key.

  The pattern of every \<open>split\<close>, \<open>trim_matches\<close>, \<open>strip_prefix\<close> and \<open>find\<close> call
  that is modelled is ASCII, and UTF-8 never uses an ASCII byte inside a longer encoding,
  so working byte by byte gives what Rust's \<open>char\<close>-wise functions give.
\<close>

named_theorems str_simps \<open>facts about the string operations used as rewrite rules\<close>
named_theorems inv_intros \<open>introduction rules for preservation of invariants\<close>

lemma set_map_filter: "set (List.map_filter f xs) = {y. \<exists>x\<in>set xs. f x = Some y}"
  by (force simp: List.map_filter_def image_iff)

section \<open>Prefixes and suffixes\<close>

fun strip_prefix :: "'a list \<Rightarrow> 'a list \<Rightarrow> 'a list option" where
  "strip_prefix [] s = Some s"
| "strip_prefix (p # ps) [] = None"
| "strip_prefix (p # ps) (c # cs) = (if p = c then strip_prefix ps cs else None)"

definition starts_with :: "'a list \<Rightarrow> 'a list \<Rightarrow> bool" where
  "starts_with s p \<longleftrightarrow> strip_prefix p s \<noteq> None"

definition strip_suffix :: "'a list \<Rightarrow> 'a list \<Rightarrow> 'a list option" where
  "strip_suffix p s = map_option rev (strip_prefix (rev p) (rev s))"

definition ends_with :: "'a list \<Rightarrow> 'a list \<Rightarrow> bool" where
  "ends_with s p \<longleftrightarrow> strip_suffix p s \<noteq> None"

lemma strip_prefix_Some_iff [str_simps]: "strip_prefix p s = Some r \<longleftrightarrow> s = p @ r"
  by (induction p s rule: strip_prefix.induct) auto

lemma strip_prefix_append [simp]: "strip_prefix p (p @ r) = Some r"
  by (simp add: strip_prefix_Some_iff)

lemma strip_prefix_self [simp]: "strip_prefix p p = Some []"
  using strip_prefix_append [of p "[]"] by simp

lemma strip_prefix_append_pat: "strip_prefix (p @ q) s = Option.bind (strip_prefix p s) (strip_prefix q)"
  by (induction p s rule: strip_prefix.induct) auto

lemma strip_prefix_None_iff: "strip_prefix p s = None \<longleftrightarrow> (\<forall>r. s \<noteq> p @ r)"
  by (metis not_None_eq strip_prefix_Some_iff)

lemma starts_with_iff [str_simps]: "starts_with s p \<longleftrightarrow> (\<exists>r. s = p @ r)"
  by (auto simp: starts_with_def strip_prefix_Some_iff)

lemma starts_with_append [simp]: "starts_with (p @ r) p"
  by (auto simp: starts_with_iff)

lemma starts_with_refl [simp]: "starts_with s s"
  using starts_with_append [of s "[]"] by simp

lemma starts_with_trans: "starts_with c b \<Longrightarrow> starts_with b a \<Longrightarrow> starts_with c a"
  by (auto simp: starts_with_iff)

lemma strip_suffix_Some_iff [str_simps]: "strip_suffix p s = Some r \<longleftrightarrow> s = r @ p"
proof
  assume "strip_suffix p s = Some r"
  then obtain q where "strip_prefix (rev p) (rev s) = Some q" and r: "r = rev q"
    by (auto simp: strip_suffix_def)
  then have "rev s = rev p @ q" by (simp add: strip_prefix_Some_iff)
  then have "rev (rev s) = rev (rev p @ q)" by (rule arg_cong)
  then show "s = r @ p" by (simp add: r)
qed (simp add: strip_suffix_def)

lemma ends_with_iff [str_simps]: "ends_with s p \<longleftrightarrow> (\<exists>r. s = r @ p)"
  by (auto simp: ends_with_def strip_suffix_Some_iff)

section \<open>Trimming one character\<close>

definition trim_start_c :: "'a \<Rightarrow> 'a list \<Rightarrow> 'a list" where
  "trim_start_c c s = dropWhile ((=) c) s"

definition trim_end_c :: "'a \<Rightarrow> 'a list \<Rightarrow> 'a list" where
  "trim_end_c c s = rev (dropWhile ((=) c) (rev s))"

definition trim_c :: "'a \<Rightarrow> 'a list \<Rightarrow> 'a list" where
  "trim_c c s = trim_end_c c (trim_start_c c s)"

lemma trim_start_c_Nil [simp]: "trim_start_c c [] = []"
  and trim_end_c_Nil [simp]: "trim_end_c c [] = []"
  and trim_c_Nil [simp]: "trim_c c [] = []"
  by (simp_all add: trim_start_c_def trim_end_c_def trim_c_def)

lemma trim_start_c_Cons [simp]:
  "trim_start_c c (x # xs) = (if x = c then trim_start_c c xs else x # xs)"
  by (auto simp: trim_start_c_def)

lemma trim_end_c_snoc [simp]:
  "trim_end_c c (xs @ [x]) = (if x = c then trim_end_c c xs else xs @ [x])"
  by (auto simp: trim_end_c_def)

lemma trim_start_c_eq_Nil: "trim_start_c c s = [] \<Longrightarrow> set s \<subseteq> {c}"
  by (induction s) (auto split: if_splits)

lemma hd_trim_start_c: "trim_start_c c s \<noteq> [] \<Longrightarrow> hd (trim_start_c c s) \<noteq> c"
  by (induction s) auto

lemma last_trim_end_c: "trim_end_c c s \<noteq> [] \<Longrightarrow> last (trim_end_c c s) \<noteq> c"
  by (induction s rule: rev_induct) (auto split: if_splits)

lemma trim_start_c_id: "s = [] \<or> hd s \<noteq> c \<Longrightarrow> trim_start_c c s = s"
  by (cases s) auto

lemma trim_end_c_id: "s = [] \<or> last s \<noteq> c \<Longrightarrow> trim_end_c c s = s"
  by (cases s rule: rev_cases) auto

lemma trim_start_c_idem [simp]: "trim_start_c c (trim_start_c c s) = trim_start_c c s"
  using hd_trim_start_c [of c s] by (intro trim_start_c_id) auto

lemma trim_end_c_idem [simp]: "trim_end_c c (trim_end_c c s) = trim_end_c c s"
  using last_trim_end_c [of c s] by (intro trim_end_c_id) auto

lemma trim_end_c_Cons_neq [simp]: "x \<noteq> c \<Longrightarrow> trim_end_c c (x # xs) = x # trim_end_c c xs"
proof (induction xs rule: rev_induct)
  case Nil
  then show ?case using trim_end_c_snoc [of c "[]" x] by simp
next
  case (snoc y ys)
  then show ?case using trim_end_c_snoc [of c "x # ys" y] by simp
qed

lemma hd_trim_end_c: "s \<noteq> [] \<Longrightarrow> hd s \<noteq> c \<Longrightarrow> trim_end_c c s \<noteq> [] \<and> hd (trim_end_c c s) \<noteq> c"
  by (cases s) auto

lemma trim_c_ends:
  assumes "trim_c c s \<noteq> []"
  shows "hd (trim_c c s) \<noteq> c" and "last (trim_c c s) \<noteq> c"
proof -
  have ne: "trim_start_c c s \<noteq> []" using assms by (auto simp: trim_c_def)
  from hd_trim_end_c [OF ne hd_trim_start_c [OF ne]] show "hd (trim_c c s) \<noteq> c"
    by (simp add: trim_c_def)
  from assms show "last (trim_c c s) \<noteq> c" by (simp add: trim_c_def last_trim_end_c)
qed

lemma trim_c_id: "s = [] \<or> hd s \<noteq> c \<and> last s \<noteq> c \<Longrightarrow> trim_c c s = s"
  by (auto simp: trim_c_def trim_start_c_id trim_end_c_id)

lemma trim_c_idem [simp]: "trim_c c (trim_c c s) = trim_c c s"
  using trim_c_ends [of c s] by (intro trim_c_id) auto

lemma trim_c_Cons_same [simp]: "trim_c c (c # s) = trim_c c s"
  by (simp add: trim_c_def)

lemma set_trim_c: "set (trim_c c s) \<subseteq> set s"
  by (auto simp: trim_c_def trim_end_c_def trim_start_c_def dest!: set_dropWhileD)

section \<open>Splitting and joining at one character\<close>

text \<open>\<open>str::split(c)\<close>: never empty, one more piece than there are separators.\<close>

fun split_c :: "'a \<Rightarrow> 'a list \<Rightarrow> 'a list list" where
  "split_c c [] = [[]]"
| "split_c c (x # xs) =
     (if x = c then [] # split_c c xs
      else (case split_c c xs of [] \<Rightarrow> [[x]] | y # ys \<Rightarrow> (x # y) # ys))"

text \<open>\<open>[..].join(c)\<close>.\<close>

fun join_c :: "'a \<Rightarrow> 'a list list \<Rightarrow> 'a list" where
  "join_c c [] = []"
| "join_c c [x] = x"
| "join_c c (x # y # ys) = x @ c # join_c c (y # ys)"

text \<open>\<open>str::split_once(c)\<close> and \<open>str::rsplit_once(c)\<close>.\<close>

fun split_once_c :: "'a \<Rightarrow> 'a list \<Rightarrow> ('a list \<times> 'a list) option" where
  "split_once_c c [] = None"
| "split_once_c c (x # xs) =
     (if x = c then Some ([], xs)
      else map_option (\<lambda>(a, b). (x # a, b)) (split_once_c c xs))"

definition rsplit_once_c :: "'a \<Rightarrow> 'a list \<Rightarrow> ('a list \<times> 'a list) option" where
  "rsplit_once_c c s = map_option (\<lambda>(b, a). (rev a, rev b)) (split_once_c c (rev s))"

text \<open>\<open>str::split_once(pat)\<close> for a pattern of several characters.\<close>

fun split_once_str :: "'a list \<Rightarrow> 'a list \<Rightarrow> ('a list \<times> 'a list) option" where
  "split_once_str p s =
     (case strip_prefix p s of
        Some r \<Rightarrow> Some ([], r)
      | None \<Rightarrow>
          (case s of [] \<Rightarrow> None
           | x # xs \<Rightarrow> map_option (\<lambda>(a, b). (x # a, b)) (split_once_str p xs)))"

declare split_once_str.simps [simp del]

definition contains_str :: "'a list \<Rightarrow> 'a list \<Rightarrow> bool" where
  "contains_str s p \<longleftrightarrow> split_once_str p s \<noteq> None"

lemma split_c_neq_Nil [simp]: "split_c c s \<noteq> []"
  by (cases s) (auto split: list.splits)

lemma split_c_no_sep: "c \<notin> set s \<Longrightarrow> split_c c s = [s]"
  by (induction s) auto

lemma split_c_append: "c \<notin> set a \<Longrightarrow> split_c c (a @ c # b) = a # split_c c b"
  by (induction a) auto

lemma split_c_parts: "x \<in> set (split_c c s) \<Longrightarrow> c \<notin> set x"
  by (induction s arbitrary: x) (auto split: if_splits list.splits)

lemma join_c_Cons: "ys \<noteq> [] \<Longrightarrow> join_c c (x # ys) = x @ c # join_c c ys"
  by (cases ys) auto

lemma join_split_c [simp]: "join_c c (split_c c s) = s"
proof (induction s)
  case (Cons x xs)
  obtain y ys where y: "split_c c xs = y # ys" by (cases "split_c c xs") auto
  show ?case using Cons by (cases ys) (auto simp: y)
qed simp

lemma split_join_c:
  "xs \<noteq> [] \<Longrightarrow> (\<And>x. x \<in> set xs \<Longrightarrow> c \<notin> set x) \<Longrightarrow> split_c c (join_c c xs) = xs"
  by (induction c xs rule: join_c.induct) (auto simp: split_c_no_sep split_c_append)

lemma set_join_c: "set (join_c c xs) \<subseteq> insert c (\<Union> (set ` set xs))"
  by (induction c xs rule: join_c.induct) auto

lemma split_once_c_Some_iff [str_simps]:
  "split_once_c c s = Some (a, b) \<longleftrightarrow> s = a @ c # b \<and> c \<notin> set a"
proof (induction s arbitrary: a)
  case (Cons x xs)
  show ?case by (cases a) (auto simp: Cons)
qed simp

lemma split_once_c_None_iff [str_simps]: "split_once_c c s = None \<longleftrightarrow> c \<notin> set s"
  by (induction s) auto

lemma rsplit_once_c_Some_iff [str_simps]:
  "rsplit_once_c c s = Some (a, b) \<longleftrightarrow> s = a @ c # b \<and> c \<notin> set b"
proof -
  have "rsplit_once_c c s = Some (a, b) \<longleftrightarrow> split_once_c c (rev s) = Some (rev b, rev a)"
    by (auto simp: rsplit_once_c_def)
  also have "\<dots> \<longleftrightarrow> rev s = rev b @ c # rev a \<and> c \<notin> set (rev b)"
    by (rule split_once_c_Some_iff)
  also have "\<dots> \<longleftrightarrow> s = a @ c # b \<and> c \<notin> set b"
    by (metis append.assoc append_Cons append_Nil rev_append rev_rev_ident rev_singleton_conv
        rev.simps(2) set_rev)
  finally show ?thesis .
qed

lemma rsplit_once_c_None_iff [str_simps]: "rsplit_once_c c s = None \<longleftrightarrow> c \<notin> set s"
  by (simp add: rsplit_once_c_def split_once_c_None_iff)

lemma split_once_str_Some: "split_once_str p s = Some (a, b) \<Longrightarrow> s = a @ p @ b"
proof (induction p s arbitrary: a rule: split_once_str.induct)
  case (1 p s)
  show ?case
  proof (cases "strip_prefix p s")
    case None
    with "1.prems" obtain x xs a' where "s = x # xs" "split_once_str p xs = Some (a', b)" "a = x # a'"
      by (subst (asm) split_once_str.simps) (auto split: list.splits)
    with None "1.IH" show ?thesis by simp
  next
    case (Some r)
    with "1.prems" show ?thesis
      by (subst (asm) split_once_str.simps) (auto simp: strip_prefix_Some_iff)
  qed
qed

lemma split_once_str_Cons:
  "split_once_str p (x # xs) =
     (case strip_prefix p (x # xs) of
        Some r \<Rightarrow> Some ([], r)
      | None \<Rightarrow> map_option (\<lambda>(a, b). (x # a, b)) (split_once_str p xs))"
  by (subst split_once_str.simps) (simp split: option.split)

lemma split_once_str_first: "p \<noteq> [] \<Longrightarrow> hd p \<notin> set a \<Longrightarrow> split_once_str p (a @ p @ b) = Some (a, b)"
proof (induction a)
  case Nil
  then show ?case by (subst split_once_str.simps) simp
next
  case (Cons x a)
  then have "strip_prefix p (x # a @ p @ b) = None"
    by (cases p) (auto simp: strip_prefix_None_iff)
  with Cons show ?case by (simp add: split_once_str_Cons)
qed

lemma split_c_two_iff: "split_c c s = [a, b] \<longleftrightarrow> s = a @ c # b \<and> c \<notin> set a \<and> c \<notin> set b"
proof
  assume l: "split_c c s = [a, b]"
  then have "join_c c [a, b] = s" using join_split_c [of c s] by simp
  moreover have "c \<notin> set a" "c \<notin> set b" using split_c_parts [of _ c s] l by auto
  ultimately show "s = a @ c # b \<and> c \<notin> set a \<and> c \<notin> set b" by simp
qed (auto simp: split_c_append split_c_no_sep)

text \<open>Trimming the separator only removes empty pieces.\<close>

lemma split_c_snoc_sep: "split_c c (s @ [c]) = split_c c s @ [[]]"
  by (induction s) (auto split: list.splits)

lemma filter_split_c_trim_start:
  "filter (\<lambda>x. x \<noteq> []) (split_c c (trim_start_c c s)) = filter (\<lambda>x. x \<noteq> []) (split_c c s)"
  by (induction s) auto

lemma filter_split_c_trim_end:
  "filter (\<lambda>x. x \<noteq> []) (split_c c (trim_end_c c s)) = filter (\<lambda>x. x \<noteq> []) (split_c c s)"
  by (induction s rule: rev_induct) (auto simp: split_c_snoc_sep)

lemma filter_split_c_trim:
  "filter (\<lambda>x. x \<noteq> []) (split_c c (trim_c c s)) = filter (\<lambda>x. x \<noteq> []) (split_c c s)"
  by (simp add: trim_c_def filter_split_c_trim_end filter_split_c_trim_start)

section \<open>ASCII classes and case\<close>

definition is_ascii_digit :: "char \<Rightarrow> bool" where
  "is_ascii_digit c \<longleftrightarrow> CHR ''0'' \<le> c \<and> c \<le> CHR ''9''"

definition is_ascii_lower :: "char \<Rightarrow> bool" where
  "is_ascii_lower c \<longleftrightarrow> CHR ''a'' \<le> c \<and> c \<le> CHR ''z''"

definition is_ascii_upper :: "char \<Rightarrow> bool" where
  "is_ascii_upper c \<longleftrightarrow> CHR ''A'' \<le> c \<and> c \<le> CHR ''Z''"

definition is_ascii_alnum :: "char \<Rightarrow> bool" where
  "is_ascii_alnum c \<longleftrightarrow> is_ascii_digit c \<or> is_ascii_lower c \<or> is_ascii_upper c"

definition ascii_lower :: "char \<Rightarrow> char" where
  "ascii_lower c = (if is_ascii_upper c then char_of (of_char c + 32 :: nat) else c)"

definition to_ascii_lower :: "string \<Rightarrow> string" where
  "to_ascii_lower s = map ascii_lower s"

definition eq_ignore_ascii_case :: "string \<Rightarrow> string \<Rightarrow> bool" where
  "eq_ignore_ascii_case a b \<longleftrightarrow> to_ascii_lower a = to_ascii_lower b"

lemma eq_ignore_ascii_case_refl [simp]: "eq_ignore_ascii_case a a"
  by (simp add: eq_ignore_ascii_case_def)

lemma eq_ignore_ascii_case_length: "eq_ignore_ascii_case a b \<Longrightarrow> length a = length b"
  unfolding eq_ignore_ascii_case_def to_ascii_lower_def by (metis length_map)

section \<open>White space\<close>

text \<open>
  \<open>str::trim\<close> removes characters with the Unicode property White\_Space; these are
  their UTF-8 encodings.
\<close>

definition white_space :: "string list" where
  "white_space =
     [[CHR 0x09], [CHR 0x0A], [CHR 0x0B], [CHR 0x0C], [CHR 0x0D], [CHR 0x20],
      [CHR 0xC2, CHR 0x85], [CHR 0xC2, CHR 0xA0], [CHR 0xE1, CHR 0x9A, CHR 0x80],
      [CHR 0xE2, CHR 0x80, CHR 0x80], [CHR 0xE2, CHR 0x80, CHR 0x81], [CHR 0xE2, CHR 0x80, CHR 0x82],
      [CHR 0xE2, CHR 0x80, CHR 0x83], [CHR 0xE2, CHR 0x80, CHR 0x84], [CHR 0xE2, CHR 0x80, CHR 0x85],
      [CHR 0xE2, CHR 0x80, CHR 0x86], [CHR 0xE2, CHR 0x80, CHR 0x87], [CHR 0xE2, CHR 0x80, CHR 0x88],
      [CHR 0xE2, CHR 0x80, CHR 0x89], [CHR 0xE2, CHR 0x80, CHR 0x8A], [CHR 0xE2, CHR 0x80, CHR 0xA8],
      [CHR 0xE2, CHR 0x80, CHR 0xA9], [CHR 0xE2, CHR 0x80, CHR 0xAF], [CHR 0xE2, CHR 0x81, CHR 0x9F],
      [CHR 0xE3, CHR 0x80, CHR 0x80]]"

fun strip_first :: "'a list list \<Rightarrow> 'a list \<Rightarrow> 'a list option" where
  "strip_first [] s = None"
| "strip_first (p # ps) s = (case strip_prefix p s of Some r \<Rightarrow> Some r | None \<Rightarrow> strip_first ps s)"

function trim_pats :: "'a list list \<Rightarrow> 'a list \<Rightarrow> 'a list" where
  "trim_pats ps s =
     (case strip_first ps s of
        Some r \<Rightarrow> if length r < length s then trim_pats ps r else s
      | None \<Rightarrow> s)"
  by pat_completeness auto
termination
  by (relation "measure (\<lambda>(ps, s). length s)") auto

declare trim_pats.simps [simp del]

definition trim_start :: "string \<Rightarrow> string" where
  "trim_start s = trim_pats white_space s"

definition trim_end :: "string \<Rightarrow> string" where
  "trim_end s = rev (trim_pats (map rev white_space) (rev s))"

definition trim :: "string \<Rightarrow> string" where
  "trim s = trim_end (trim_start s)"

text \<open>
  \<open>str::split_whitespace\<close> on header text, whose only white space is a tab or a space
  (\<open>HeaderValue::to_str\<close> succeeds on visible ASCII and tabs only).
\<close>

definition is_ascii_space :: "char \<Rightarrow> bool" where
  "is_ascii_space c \<longleftrightarrow> c = CHR 0x20 \<or> c = CHR 0x09"

fun words_acc :: "string \<Rightarrow> string \<Rightarrow> string list" where
  "words_acc w [] = (if w = [] then [] else [w])"
| "words_acc w (c # cs) =
     (if is_ascii_space c then (if w = [] then words_acc [] cs else w # words_acc [] cs)
      else words_acc (w @ [c]) cs)"

definition split_whitespace :: "string \<Rightarrow> string list" where
  "split_whitespace s = words_acc [] s"

section \<open>UTF-8\<close>

text \<open>\<open>String::from_utf8\<close>: the byte sequences that are well-formed UTF-8.\<close>

definition byte_in :: "nat \<Rightarrow> nat \<Rightarrow> char \<Rightarrow> bool" where
  "byte_in lo hi c \<longleftrightarrow> lo \<le> of_char c \<and> of_char c \<le> hi"

abbreviation (input) cont_byte :: "char \<Rightarrow> bool" where
  "cont_byte \<equiv> byte_in 0x80 0xBF"

fun utf8_valid :: "string \<Rightarrow> bool" where
  "utf8_valid [] = True"
| "utf8_valid (a # xs) =
     (if byte_in 0 0x7F a then utf8_valid xs
      else case xs of [] \<Rightarrow> False
      | b # ys \<Rightarrow>
        if byte_in 0xC2 0xDF a then cont_byte b \<and> utf8_valid ys
        else case ys of [] \<Rightarrow> False
        | c # zs \<Rightarrow>
          if byte_in 0xE0 0xE0 a then byte_in 0xA0 0xBF b \<and> cont_byte c \<and> utf8_valid zs
          else if byte_in 0xED 0xED a then byte_in 0x80 0x9F b \<and> cont_byte c \<and> utf8_valid zs
          else if byte_in 0xE1 0xEF a then cont_byte b \<and> cont_byte c \<and> utf8_valid zs
          else case zs of [] \<Rightarrow> False
          | d # ws \<Rightarrow>
            (if byte_in 0xF0 0xF0 a then byte_in 0x90 0xBF b
             else if byte_in 0xF4 0xF4 a then byte_in 0x80 0x8F b
             else byte_in 0xF1 0xF3 a \<and> cont_byte b) \<and> cont_byte c \<and> cont_byte d \<and> utf8_valid ws)"

section \<open>Lexical normalisation of path segments\<close>

text \<open>
  The segment loop of \<open>posixpath.normpath\<close> as both path modules write it: empty and \<open>.\<close>
  segments are dropped, \<open>..\<close> pops (and is dropped at the top).
\<close>

fun norm_segs :: "string list \<Rightarrow> string list \<Rightarrow> string list" where
  "norm_segs out [] = out"
| "norm_segs out (seg # segs) =
     (if seg = [] \<or> seg = ''.'' then norm_segs out segs
      else if seg = ''..'' then norm_segs (butlast out) segs
      else norm_segs (out @ [seg]) segs)"

lemma norm_segs_filter: "norm_segs out (filter (\<lambda>s. s \<noteq> []) segs) = norm_segs out segs"
  by (induction out segs rule: norm_segs.induct) auto

lemma norm_segs_subset: "x \<in> set (norm_segs out segs) \<Longrightarrow> x \<in> set out \<or> x \<in> set segs"
  by (induction out segs rule: norm_segs.induct) (auto split: if_splits dest: in_set_butlastD)

definition plain_segment :: "string \<Rightarrow> bool" where
  "plain_segment seg \<longleftrightarrow> seg \<noteq> [] \<and> seg \<noteq> ''.'' \<and> seg \<noteq> ''..''"

lemma norm_segs_clean: "list_all plain_segment out \<Longrightarrow> list_all plain_segment (norm_segs out segs)"
proof (induction out segs rule: norm_segs.induct)
  case (2 out seg segs)
  have "list_all plain_segment (butlast out)"
    using "2.prems" by (auto simp: list_all_iff dest: in_set_butlastD)
  with 2 show ?case by (simp add: plain_segment_def [of seg])
qed simp

lemma norm_segs_id: "list_all plain_segment segs \<Longrightarrow> norm_segs out segs = out @ segs"
  by (induction out segs rule: norm_segs.induct) (simp_all add: plain_segment_def)

section \<open>Decimal numbers\<close>

definition digit_val :: "char \<Rightarrow> nat" where
  "digit_val c = of_char c - 48"

definition digits_val :: "string \<Rightarrow> nat" where
  "digits_val s = foldl (\<lambda>a c. 10 * a + digit_val c) 0 s"

text \<open>
  \<open>str::parse\<close> for the unsigned and signed integer types: an optional sign (\<open>-\<close> only
  where the type is signed), at least one ASCII digit, and a value in range.
\<close>

definition parse_digits :: "string \<Rightarrow> nat option" where
  "parse_digits s = (if s \<noteq> [] \<and> list_all is_ascii_digit s then Some (digits_val s) else None)"

definition parse_u64 :: "string \<Rightarrow> nat option" where
  "parse_u64 s =
     (case parse_digits (case strip_prefix ''+'' s of Some r \<Rightarrow> r | None \<Rightarrow> s) of
        Some n \<Rightarrow> if n < 2 ^ 64 then Some n else None
      | None \<Rightarrow> None)"

definition parse_i64 :: "string \<Rightarrow> int option" where
  "parse_i64 s =
     (case strip_prefix ''-'' s of
        Some r \<Rightarrow>
          (case parse_digits r of
             Some n \<Rightarrow> if int n \<le> 2 ^ 63 then Some (- int n) else None
           | None \<Rightarrow> None)
      | None \<Rightarrow>
          (case parse_digits (case strip_prefix ''+'' s of Some r \<Rightarrow> r | None \<Rightarrow> s) of
             Some n \<Rightarrow> if int n < 2 ^ 63 then Some (int n) else None
           | None \<Rightarrow> None))"

lemma parse_u64_bound: "parse_u64 s = Some n \<Longrightarrow> n < 2 ^ 64"
  by (auto simp: parse_u64_def split: option.splits if_splits)

text \<open>\<open>to_string\<close> of an unsigned number, and its round trip through \<open>parse\<close>.\<close>

fun show_nat :: "nat \<Rightarrow> string" where
  "show_nat n =
     (if n < 10 then [char_of (48 + n)] else show_nat (n div 10) @ [char_of (48 + n mod 10)])"

declare show_nat.simps [simp del]

lemma digit_char:
  assumes "d < 10"
  shows "is_ascii_digit (char_of (48 + d))" and "digit_val (char_of (48 + d)) = d"
proof -
  have "of_char (char_of (48 + d) :: char) = (48 + d :: nat)"
    using assms by simp
  with assms show "is_ascii_digit (char_of (48 + d))" "digit_val (char_of (48 + d)) = d"
    by (simp_all add: is_ascii_digit_def less_eq_char_def digit_val_def)
qed

lemma digits_val_snoc: "digits_val (s @ [c]) = 10 * digits_val s + digit_val c"
  by (simp add: digits_val_def)

lemma show_nat_digits: "list_all is_ascii_digit (show_nat n) \<and> show_nat n \<noteq> [] \<and> digits_val (show_nat n) = n"
proof (induction n rule: show_nat.induct)
  case (1 n)
  show ?case
  proof (cases "n < 10")
    case True
    then show ?thesis by (simp add: show_nat.simps [of n] digit_char digits_val_def)
  next
    case False
    with 1 show ?thesis
      by (subst (1 2 3) show_nat.simps) (simp add: digits_val_snoc digit_char)
  qed
qed

lemma parse_show_digits [simp]: "parse_digits (show_nat n) = Some n"
  by (simp add: parse_digits_def show_nat_digits)

lemma show_nat_set: "c \<in> set (show_nat n) \<Longrightarrow> is_ascii_digit c"
  using show_nat_digits [of n] by (auto simp: list_all_iff)

lemma strip_prefix_hd: "s = [] \<or> hd s \<noteq> p \<Longrightarrow> strip_prefix (p # ps) s = None"
  by (cases s) auto

lemma show_nat_hd: "is_ascii_digit (hd (show_nat n))"
  using show_nat_set [of "hd (show_nat n)" n] show_nat_digits [of n] by (meson hd_in_set)

lemma parse_show_u64: "n < 2 ^ 64 \<Longrightarrow> parse_u64 (show_nat n) = Some n"
proof -
  assume n: "n < 2 ^ 64"
  have "hd (show_nat n) \<noteq> CHR ''+''"
    using show_nat_hd [of n] by (auto simp: is_ascii_digit_def less_eq_char_def)
  with n show ?thesis by (simp add: parse_u64_def strip_prefix_hd)
qed

lemma show_nat_inj: "show_nat m = show_nat n \<Longrightarrow> m = n"
  by (metis show_nat_digits)

text \<open>Text whose ends are not white space is left alone by \<open>trim\<close>.\<close>

definition solid :: "char \<Rightarrow> bool" where
  "solid c \<longleftrightarrow> 0x20 < (of_char c :: nat) \<and> (of_char c :: nat) < 0x80"

lemma strip_first_None: "(\<forall>p\<in>set ps. p \<noteq> [] \<and> (s = [] \<or> hd p \<noteq> hd s)) \<Longrightarrow> strip_first ps s = None"
proof (induction ps)
  case (Cons p ps)
  then obtain x xs where p: "p = x # xs" by (cases p) simp_all
  with Cons.prems have "s = [] \<or> hd s \<noteq> x" by force
  then have "strip_prefix p s = None" by (simp only: p strip_prefix_hd)
  with Cons show ?case by simp
qed simp

lemma white_space_solid: "p \<in> set white_space \<Longrightarrow> p \<noteq> [] \<and> \<not> solid (hd p) \<and> \<not> solid (last p)"
  unfolding white_space_def solid_def by auto

lemma trim_start_solid: "s = [] \<or> solid (hd s) \<Longrightarrow> trim_start s = s"
proof -
  assume s: "s = [] \<or> solid (hd s)"
  have "strip_first white_space s = None"
    by (rule strip_first_None) (use s white_space_solid in metis)
  then show ?thesis by (simp add: trim_start_def trim_pats.simps)
qed

lemma trim_end_solid: "s = [] \<or> solid (last s) \<Longrightarrow> trim_end s = s"
proof -
  assume s: "s = [] \<or> solid (last s)"
  have "strip_first (map rev white_space) (rev s) = None"
    by (rule strip_first_None) (use s white_space_solid in \<open>force simp: hd_rev\<close>)
  then show ?thesis by (simp add: trim_end_def trim_pats.simps)
qed

lemma trim_solid: "s = [] \<or> solid (hd s) \<and> solid (last s) \<Longrightarrow> trim s = s"
  by (auto simp: trim_def trim_start_solid trim_end_solid)

lemma solid_digit: "is_ascii_digit c \<Longrightarrow> solid c"
  by (simp add: is_ascii_digit_def solid_def less_eq_char_def)

lemma trim_show_nat [simp]: "trim (show_nat n) = show_nat n"
  by (rule trim_solid) (metis last_in_set show_nat_hd show_nat_set solid_digit)

definition trim_matches :: "('a \<Rightarrow> bool) \<Rightarrow> 'a list \<Rightarrow> 'a list" where
  "trim_matches P s = rev (dropWhile P (rev (dropWhile P s)))"

lemma trim_matches_id: "s = [] \<or> \<not> P (hd s) \<and> \<not> P (last s) \<Longrightarrow> trim_matches P s = s"
proof (cases "s = []")
  case False
  assume "s = [] \<or> \<not> P (hd s) \<and> \<not> P (last s)"
  with False have "\<not> P (hd s)" "\<not> P (hd (rev s))" by (auto simp: hd_rev)
  then have "dropWhile P s = s" "dropWhile P (rev s) = rev s"
    using False by (simp_all add: dropWhile_eq_self_iff)
  then show ?thesis by (simp add: trim_matches_def)
qed (simp add: trim_matches_def)

section \<open>Hash maps as association lists\<close>

lemma set_update_cases: "x \<in> set (AList.update k v al) \<Longrightarrow> x = (k, v) \<or> x \<in> set al"
  by (induction al) (auto split: if_splits)

lemma length_update: "length (AList.update k v al) = length al + (if map_of al k = None then 1 else 0)"
  by (induction al) auto

section \<open>Interfaces shared by the components\<close>

text \<open>
  A machine: a component whose operations are labelled by a type of operations and whose
  state keeps an invariant. Interpreted for every stateful component; what is proved once
  here is that the invariant holds after any sequence of operations, in any order.
\<close>

locale machine =
  fixes step :: "'s \<Rightarrow> 'op \<Rightarrow> 's"
    and inv :: "'s \<Rightarrow> bool"
  assumes step_inv: "inv s \<Longrightarrow> inv (step s x)"
begin

lemma run_inv: "inv s \<Longrightarrow> inv (foldl step s xs)"
  by (induction xs arbitrary: s) (auto intro: step_inv)

lemma run_prefix_inv: "inv s \<Longrightarrow> inv (foldl step s (take n xs))"
  by (rule run_inv)

end

end
