(* ===== verification/Web_Guards.thy ===== *)
theory Web_Guards
  imports Rust_Prelude "HOL-Library.Word"
begin

text \<open>
  The guards of \<open>bunko-server/src/http\<close> in front of the handlers: \<open>csrf.rs\<close> (who may change state
  from a browser), the decision of \<open>cors.rs\<close> with \<open>CorsConfig\<close> of \<open>bunko-core/src/config.rs\<close>, and
  \<open>client_ip.rs\<close> (whose address a request counts for). Headers are the lines of the request in
  order, their names in lower case; \<open>vis\<close> is \<open>HeaderValue::to_str\<close> succeeding on a value.
\<close>

section \<open>Header lines\<close>

type_synonym header_lines = "(string \<times> string) list"

text \<open>\<open>HeaderMap::get\<close>: the first line of that name.\<close>

definition first_line :: "header_lines \<Rightarrow> string \<Rightarrow> string option" where
  "first_line hs name = map_of hs name"

definition text_line :: "(string \<Rightarrow> bool) \<Rightarrow> header_lines \<Rightarrow> string \<Rightarrow> string option" where
  "text_line vis hs name =
     (case first_line hs name of Some v \<Rightarrow> if vis v then Some v else None | None \<Rightarrow> None)"

section \<open>Origins\<close>

record cors_config =
  cors_enabled :: bool
  allowed_origins :: "string list"
  allow_credentials :: bool

definition matches_pattern :: "string \<Rightarrow> string \<Rightarrow> bool" where
  "matches_pattern origin pattern =
     (if CHR ''*'' \<notin> set pattern then origin = pattern
      else
        (case Option.bind (strip_suffix '':*'' pattern) (\<lambda>prefix. Option.bind (strip_prefix prefix origin) (strip_prefix '':'')) of
           Some port \<Rightarrow> port \<noteq> [] \<and> list_all is_ascii_digit port
         | None \<Rightarrow> False))"

definition is_origin_allowed :: "cors_config \<Rightarrow> string \<Rightarrow> bool" where
  "is_origin_allowed c origin \<longleftrightarrow> cors_enabled c \<and> list_ex (matches_pattern origin) (allowed_origins c)"

definition origin_authority :: "string \<Rightarrow> string option" where
  "origin_authority origin =
     (case split_once_str ''://'' origin of
        None \<Rightarrow> None
      | Some (scheme, rest) \<Rightarrow>
          let authority = to_ascii_lower (hd (split_c CHR ''/'' rest)) in
          if authority = [] then None
          else
            let s = to_ascii_lower scheme;
                default = (if s = ''http'' then '':80'' else if s = ''https'' then '':443'' else [])
            in Some (case strip_suffix default authority of
                       Some bare \<Rightarrow> if default \<noteq> [] then bare else authority
                     | None \<Rightarrow> authority))"

definition pushed_host :: "string \<Rightarrow> string list" where
  "pushed_host v =
     (let v = to_ascii_lower (trim v);
          v = (case strip_suffix '':80'' v of
                 Some b \<Rightarrow> b
               | None \<Rightarrow> (case strip_suffix '':443'' v of Some b \<Rightarrow> b | None \<Rightarrow> v))
      in if v \<noteq> [] then [v] else [])"

definition request_hosts :: "(string \<Rightarrow> bool) \<Rightarrow> header_lines \<Rightarrow> string list" where
  "request_hosts vis hs =
     (case text_line vis hs ''host'' of Some h \<Rightarrow> pushed_host h | None \<Rightarrow> []) @
     (case text_line vis hs ''x-forwarded-host'' of
        Some v \<Rightarrow> pushed_host (hd (split_c CHR '','' v)) | None \<Rightarrow> [])"

definition split_port :: "string \<Rightarrow> string \<times> string option" where
  "split_port authority =
     (case rsplit_once_c CHR '':'' authority of
        Some (host, port) \<Rightarrow>
          if port \<noteq> [] \<and> list_all is_ascii_digit port \<and> (CHR '':'' \<notin> set host \<or> ends_with host '']'')
          then (host, Some port) else (authority, None)
      | None \<Rightarrow> (authority, None))"

definition same_authority :: "string \<Rightarrow> string \<Rightarrow> bool" where
  "same_authority origin host =
     (if origin = host then True
      else
        let o_host = fst (split_port origin) in
        (case split_port host of (h, None) \<Rightarrow> h = o_host | _ \<Rightarrow> False))"

section \<open>Cross-site requests\<close>

type_synonym refusal = "nat \<times> string"

definition not_json :: string where
  "not_json = ''Content-Type must be application/json''"

definition cross_origin :: string where
  "cross_origin = ''Cross-origin request refused''"

definition has_body :: "(string \<Rightarrow> bool) \<Rightarrow> header_lines \<Rightarrow> bool" where
  "has_body vis hs =
     (if first_line hs ''transfer-encoding'' \<noteq> None then True
      else
        (case Option.bind (text_line vis hs ''content-length'') (\<lambda>v. parse_u64 (trim v)) of
           Some n \<Rightarrow> n > 0 | None \<Rightarrow> False))"

definition is_json :: "(string \<Rightarrow> bool) \<Rightarrow> header_lines \<Rightarrow> bool" where
  "is_json vis hs =
     (case text_line vis hs ''content-type'' of
        Some v \<Rightarrow> eq_ignore_ascii_case (trim (hd (split_c CHR '';'' v))) ''application/json''
      | None \<Rightarrow> False)"

definition require_json :: "(string \<Rightarrow> bool) \<Rightarrow> header_lines \<Rightarrow> refusal option" where
  "require_json vis hs = (if has_body vis hs \<and> \<not> is_json vis hs then Some (415, not_json) else None)"

definition check_origin :: "(string \<Rightarrow> bool) \<Rightarrow> cors_config \<Rightarrow> header_lines \<Rightarrow> refusal option" where
  "check_origin vis cors hs =
     (case first_line hs ''origin'' of
        None \<Rightarrow> None
      | Some origin \<Rightarrow>
          if \<not> vis origin then Some (403, cross_origin)
          else if (case origin_authority origin of
                     Some a \<Rightarrow> list_ex (same_authority a) (request_hosts vis hs) | None \<Rightarrow> False) then None
          else if is_origin_allowed cors origin then None
          else Some (403, cross_origin))"

definition csrf_check :: "(string \<Rightarrow> bool) \<Rightarrow> cors_config \<Rightarrow> string \<Rightarrow> header_lines \<Rightarrow> refusal option" where
  "csrf_check vis cors m hs =
     (if m \<notin> {''POST'', ''PUT'', ''PATCH'', ''DELETE''} then None
      else (case check_origin vis cors hs of Some r \<Rightarrow> Some r | None \<Rightarrow> require_json vis hs))"

section \<open>What CORS grants\<close>

definition is_dav_path :: "string \<Rightarrow> bool" where
  "is_dav_path path \<longleftrightarrow>
     path \<in> {'''', ''/'', ''/mokuro-reader'', ''/inbox''} \<or>
     starts_with path ''/mokuro-reader/'' \<or> starts_with path ''/inbox/''"

text \<open>
  The header lines the middleware adds, and whether it answers itself: \<open>Inl\<close> a preflight's whole
  answer, \<open>Inr\<close> what is added to the handler's. The lists of names are constants of the source.
\<close>

definition put_origin :: "string \<Rightarrow> bool \<Rightarrow> header_lines" where
  "put_origin origin credentials =
     [(''access-control-allow-origin'', origin)] @
     (if credentials then [(''access-control-allow-credentials'', ''true'')] else []) @
     [(''vary'', ''Origin'')]"

definition cors ::
  "(string \<Rightarrow> bool) \<Rightarrow> string \<Rightarrow> string \<Rightarrow> string \<Rightarrow> cors_config \<Rightarrow> string \<Rightarrow> string \<Rightarrow> header_lines \<Rightarrow>
   (nat \<times> header_lines) + header_lines" where
  "cors vis expose_headers allow_methods allow_headers cfg m path hs =
     (let origin = text_line vis hs ''origin'';
          allowed = (case origin of Some o' \<Rightarrow> if is_origin_allowed cfg o' then Some o' else None | None \<Rightarrow> None)
      in
      if \<not> cors_enabled cfg then Inr []
      else if m = ''OPTIONS'' \<and> first_line hs ''origin'' \<noteq> None then
        let dav = is_dav_path path;
            private = (case text_line vis hs ''access-control-request-private-network'' of
                         Some v \<Rightarrow> eq_ignore_ascii_case v ''true'' | None \<Rightarrow> False)
        in Inl (204,
             (case allowed of
                Some o' \<Rightarrow>
                  put_origin o' (allow_credentials cfg) @
                  [(''access-control-allow-methods'', allow_methods), (''access-control-allow-headers'', allow_headers),
                   (''access-control-max-age'', ''3600'')] @
                  (if private then [(''access-control-allow-private-network'', ''true'')] else []) @
                  (if dav then [(''access-control-expose-headers'', expose_headers)] else [])
              | None \<Rightarrow> []) @
             (if dav then [(''x-mokuro-put'', ''verified'')] else []))
      else
        Inr (case allowed of
               Some o' \<Rightarrow> put_origin o' (allow_credentials cfg) @ [(''access-control-expose-headers'', expose_headers)]
             | None \<Rightarrow> []))"

section \<open>Addresses\<close>

datatype ip = V4 "32 word" | V6 "128 word"

definition canonical :: "ip \<Rightarrow> ip" where
  "canonical a =
     (case a of
        V6 w \<Rightarrow> if drop_bit 32 w = 0xFFFF then V4 (ucast w) else V6 w
      | V4 w \<Rightarrow> V4 w)"

definition is_loopback :: "ip \<Rightarrow> bool" where
  "is_loopback a = (case a of V4 w \<Rightarrow> drop_bit 24 w = 127 | V6 w \<Rightarrow> w = 1)"

text \<open>A configured network is what it contains; parsing and printing addresses are parameters.\<close>

type_synonym proxies = "(ip \<Rightarrow> bool) list"

definition proxies_new :: "(string \<Rightarrow> (ip \<Rightarrow> bool) option) \<Rightarrow> (string \<Rightarrow> ip option) \<Rightarrow> string list \<Rightarrow> proxies" where
  "proxies_new parse_net parse_ip names =
     List.map_filter
       (\<lambda>s. case parse_net s of Some n \<Rightarrow> Some n | None \<Rightarrow> map_option (\<lambda>a b. b = a) (parse_ip s)) names"

definition is_proxy_peer :: "proxies \<Rightarrow> ip \<Rightarrow> bool" where
  "is_proxy_peer nets peer =
     (let peer = canonical peer in is_loopback peer \<or> list_ex (\<lambda>n. n peer) nets)"

definition proxy_header :: "(string \<Rightarrow> bool) \<Rightarrow> header_lines \<Rightarrow> string \<Rightarrow> string option" where
  "proxy_header vis hs name =
     (case text_line vis hs name of
        Some v \<Rightarrow> if trim v \<noteq> [] then Some (trim v) else None | None \<Rightarrow> None)"

definition rightmost :: "string \<Rightarrow> string option" where
  "rightmost xff =
     (let parts = filter (\<lambda>s. s \<noteq> []) (map trim (split_c CHR '','' xff)) in
      if parts = [] then None else Some (last parts))"

definition client_ip ::
  "(string \<Rightarrow> bool) \<Rightarrow> (string \<Rightarrow> ip option) \<Rightarrow> proxies \<Rightarrow> ip \<Rightarrow> header_lines \<Rightarrow> ip" where
  "client_ip vis parse_ip nets peer hs =
     (if \<not> is_proxy_peer nets peer then canonical peer
      else
        (case Option.bind (proxy_header vis hs ''x-real-ip'') parse_ip of
           Some a \<Rightarrow> canonical a
         | None \<Rightarrow>
             (case Option.bind (proxy_header vis hs ''x-forwarded-for'') (\<lambda>xff. Option.bind (rightmost xff) parse_ip) of
                Some a \<Rightarrow> canonical a
              | None \<Rightarrow> canonical peer)))"

definition client_ip_text ::
  "(string \<Rightarrow> bool) \<Rightarrow> (ip \<Rightarrow> string) \<Rightarrow> proxies \<Rightarrow> ip \<Rightarrow> header_lines \<Rightarrow> string" where
  "client_ip_text vis show_ip nets peer hs =
     (let own = show_ip (canonical peer) in
      if is_proxy_peer nets peer then
        (case proxy_header vis hs ''x-real-ip'' of
           Some r \<Rightarrow> r
         | None \<Rightarrow>
             (case Option.bind (proxy_header vis hs ''x-forwarded-for'') rightmost of
                Some l \<Rightarrow> l | None \<Rightarrow> own))
      else own)"

definition is_loopback_text :: "(string \<Rightarrow> ip option) \<Rightarrow> string \<Rightarrow> bool" where
  "is_loopback_text parse_ip text =
     (case parse_ip (trim text) of Some a \<Rightarrow> is_loopback (canonical a) | None \<Rightarrow> False)"

section \<open>Lemmas\<close>

lemma ascii_lower_colon: "ascii_lower x = CHR '':'' \<Longrightarrow> x = CHR '':''"
proof (rule ccontr)
  assume x: "ascii_lower x = CHR '':''" "x \<noteq> CHR '':''"
  then have up: "is_ascii_upper x" by (auto simp: ascii_lower_def split: if_splits)
  with x have "char_of (of_char x + 32 :: nat) = CHR '':''" by (simp add: ascii_lower_def)
  then have "(of_char (char_of (of_char x + 32 :: nat)) :: nat) = of_char CHR '':''" by simp
  moreover have "(of_char x :: nat) < 256" by simp
  ultimately have "((of_char x + 32) mod 256 :: nat) = 58" by simp
  with up show False by (auto simp: is_ascii_upper_def less_eq_char_def)
qed

lemma no_colon_lower: "CHR '':'' \<notin> set s \<Longrightarrow> CHR '':'' \<notin> set (to_ascii_lower s)"
  by (auto simp: to_ascii_lower_def dest: ascii_lower_colon [OF sym])

lemma digit_not_upper: "is_ascii_digit c \<Longrightarrow> \<not> is_ascii_upper c"
  by (auto simp: is_ascii_digit_def is_ascii_upper_def less_eq_char_def)

lemma digits_lower: "list_all is_ascii_digit p \<Longrightarrow> to_ascii_lower p = p"
  by (induction p) (auto simp: to_ascii_lower_def ascii_lower_def digit_not_upper)

lemma split_port_plain: "CHR '':'' \<notin> set n \<Longrightarrow> split_port n = (n, None)"
  by (simp add: split_port_def rsplit_once_c_None_iff [THEN iffD2])

lemma split_port_port:
  assumes "CHR '':'' \<notin> set n" "p \<noteq> []" "list_all is_ascii_digit p"
  shows "split_port (n @ CHR '':'' # p) = (n, Some p)"
proof -
  have "CHR '':'' \<notin> set p" using assms(3) by (auto simp: list_all_iff is_ascii_digit_def)
  then have "rsplit_once_c CHR '':'' (n @ CHR '':'' # p) = Some (n, p)" by (simp add: rsplit_once_c_Some_iff)
  with assms show ?thesis by (simp add: split_port_def)
qed

lemma same_authority_name: "same_authority a h \<Longrightarrow> fst (split_port a) = fst (split_port h)"
  by (auto simp: same_authority_def Let_def split: if_splits prod.splits option.splits)

lemma strip_port:
  assumes "CHR '':'' \<notin> set p" "CHR '':'' \<notin> set d"
  shows "strip_suffix (CHR '':'' # d) (n @ CHR '':'' # p) = (if p = d then Some n else None)"
proof (cases "strip_suffix (CHR '':'' # d) (n @ CHR '':'' # p)")
  case None
  then have "p \<noteq> d" by (metis option.distinct(1) strip_suffix_Some_iff)
  with None show ?thesis by simp
next
  case (Some r)
  then have "n @ CHR '':'' # p = r @ CHR '':'' # d" by (simp add: strip_suffix_Some_iff)
  then have "rsplit_once_c CHR '':'' (n @ CHR '':'' # p) = Some (r, d)" using assms(2) by (simp add: rsplit_once_c_Some_iff)
  moreover have "rsplit_once_c CHR '':'' (n @ CHR '':'' # p) = Some (n, p)" using assms(1) by (simp add: rsplit_once_c_Some_iff)
  ultimately show ?thesis using Some by simp
qed

lemma strip_port_none: "CHR '':'' \<notin> set n \<Longrightarrow> strip_suffix (CHR '':'' # d) n = None"
  by (cases "strip_suffix (CHR '':'' # d) n") (auto simp: strip_suffix_Some_iff)

text \<open>The authority of an origin and the pushed host are the lower-case host without a default port.\<close>

lemma own_host_matches:
  assumes h: "h = n @ (case port of Some p \<Rightarrow> CHR '':'' # p | None \<Rightarrow> [])"
    and n: "n \<noteq> []" "CHR '':'' \<notin> set n" "CHR ''/'' \<notin> set h"
    and p: "\<And>p. port = Some p \<Longrightarrow> p \<noteq> [] \<and> list_all is_ascii_digit p"
    and "trim h = h" "scheme = ''http'' \<or> scheme = ''https''"
  shows "\<exists>a host. origin_authority (scheme @ ''://'' @ h) = Some a \<and> pushed_host h = [host] \<and> same_authority a host"
proof -
  let ?n = "to_ascii_lower n"
  let ?d = "if scheme = ''http'' then ''80'' else ''443''"
  have split: "split_once_str ''://'' (scheme @ ''://'' @ h) = Some (scheme, h)"
    using assms(7) by (intro split_once_str_first) auto
  have sl: "to_ascii_lower scheme = scheme"
    using assms(7) by (auto simp: to_ascii_lower_def ascii_lower_def is_ascii_upper_def)
  have hd: "hd (split_c CHR ''/'' h) = h" using n(3) by (simp add: split_c_no_sep)
  have ln: "?n \<noteq> []" "CHR '':'' \<notin> set ?n" using n no_colon_lower by (auto simp: to_ascii_lower_def)
  have col: "to_ascii_lower (CHR '':'' # p) = CHR '':'' # to_ascii_lower p" for p
    by (simp add: to_ascii_lower_def ascii_lower_def is_ascii_upper_def)
  have app: "to_ascii_lower (x @ y) = to_ascii_lower x @ to_ascii_lower y" for x y by (simp add: to_ascii_lower_def)
  have auth: "origin_authority (scheme @ ''://'' @ h) =
      (if to_ascii_lower h = [] then None
       else Some (case strip_suffix (CHR '':'' # ?d) (to_ascii_lower h) of Some b \<Rightarrow> b | None \<Rightarrow> to_ascii_lower h))"
    unfolding origin_authority_def split option.case prod.case hd sl Let_def
    using assms(7) by (elim disjE) (simp_all split: option.split)
  show ?thesis
  proof (cases port)
    case None
    then have L: "to_ascii_lower h = ?n" by (simp add: h)
    have "pushed_host h = [?n]" using ln strip_port_none [OF ln(2)] by (simp add: pushed_host_def assms(6) L)
    moreover have "origin_authority (scheme @ ''://'' @ h) = Some ?n"
      unfolding auth L using ln strip_port_none [OF ln(2)] by simp
    ultimately show ?thesis by (simp add: same_authority_def)
  next
    case (Some p')
    note p' = p [OF Some]
    then have L: "to_ascii_lower h = ?n @ CHR '':'' # p'" using Some by (simp add: h app col digits_lower)
    have np: "CHR '':'' \<notin> set p'" using p' by (auto simp: list_all_iff is_ascii_digit_def)
    have st: "strip_suffix (CHR '':'' # d) (to_ascii_lower h) = (if p' = d then Some ?n else None)" if "CHR '':'' \<notin> set d" for d
      unfolding L by (rule strip_port [OF np that])
    have host: "pushed_host h = [if p' = ''80'' \<or> p' = ''443'' then ?n else to_ascii_lower h]"
      using ln st [of "''80''"] st [of "''443''"] by (auto simp: pushed_host_def assms(6) L Let_def)
    have au: "origin_authority (scheme @ ''://'' @ h) = Some (if p' = ?d then ?n else to_ascii_lower h)"
      unfolding auth using st [of ?d] by (simp add: L)
    have "same_authority (to_ascii_lower h) ?n"
      using split_port_plain [OF ln(2)] split_port_port [OF ln(2), of p'] p' by (simp add: same_authority_def L)
    with host au show ?thesis by (auto simp: same_authority_def)
  qed
qed

lemma split_c_snoc_part: "c \<notin> set b \<Longrightarrow> split_c c (a @ c # b) = split_c c a @ [b]"
proof (induction a)
  case (Cons x a)
  then show ?case by (cases "split_c c a") auto
qed (simp add: split_c_no_sep)

lemma rightmost_last: "CHR '','' \<notin> set b \<Longrightarrow> trim b \<noteq> [] \<Longrightarrow> rightmost (a @ CHR '','' # b) = Some (trim b)"
  by (simp add: rightmost_def split_c_snoc_part Let_def)

text \<open>CORS names an origin in an answer only when the configuration allows it.\<close>

lemma granted_origins_allowed:
  assumes "cors vis e ms hd' cfg m path hs = Inl (st, ls) \<or> cors vis e ms hd' cfg m path hs = Inr ls"
    and "(''access-control-allow-origin'', org) \<in> set ls"
  shows "is_origin_allowed cfg org \<and> text_line vis hs ''origin'' = Some org \<and>
    ((''access-control-allow-credentials'', ''true'') \<in> set ls \<longrightarrow> allow_credentials cfg)"
  using assms
  by (cases "text_line vis hs ''origin''")
    (auto simp: cors_def Let_def put_origin_def split: if_splits)

section \<open>Properties\<close>

text \<open>
  C18: a request that changes state is refused when a page of another site could have sent it: its
  \<open>Origin\<close> is neither allowed nor of a host the request is addressed to, or it has a body of a type
  (or of no type) a form can send.
\<close>

theorem cross_site_refused:
  assumes "m \<in> {''POST'', ''PUT'', ''PATCH'', ''DELETE''}"
    and "first_line hs ''origin'' = Some org \<and> \<not> is_origin_allowed cfg org \<and>
           list_all (\<lambda>h. \<forall>a. origin_authority org = Some a \<longrightarrow> fst (split_port a) \<noteq> fst (split_port h)) (request_hosts vis hs)
         \<or> has_body vis hs \<and>
           (case text_line vis hs ''content-type'' of
              None \<Rightarrow> True
            | Some v \<Rightarrow> to_ascii_lower (trim (hd (split_c CHR '';'' v))) \<in>
                {''text/plain'', ''multipart/form-data'', ''application/x-www-form-urlencoded''})"
  shows "csrf_check vis cfg m hs \<noteq> None"
  using assms(2)
proof
  assume o: "first_line hs ''origin'' = Some org \<and> \<not> is_origin_allowed cfg org \<and>
    list_all (\<lambda>h. \<forall>a. origin_authority org = Some a \<longrightarrow> fst (split_port a) \<noteq> fst (split_port h)) (request_hosts vis hs)"
  have "\<not> list_ex (same_authority a) (request_hosts vis hs)" if "origin_authority org = Some a" for a
  proof
    assume "list_ex (same_authority a) (request_hosts vis hs)"
    then obtain h where "h \<in> set (request_hosts vis hs)" "same_authority a h" by (auto simp: list_ex_iff)
    with o that same_authority_name show False by (auto simp: list_all_iff)
  qed
  with o have "check_origin vis cfg hs = Some (403, cross_origin)"
    by (auto simp: check_origin_def split: option.split)
  with assms(1) show ?thesis by (auto simp: csrf_check_def)
next
  assume b: "has_body vis hs \<and> (case text_line vis hs ''content-type'' of
              None \<Rightarrow> True
            | Some v \<Rightarrow> to_ascii_lower (trim (hd (split_c CHR '';'' v))) \<in>
                {''text/plain'', ''multipart/form-data'', ''application/x-www-form-urlencoded''})"
  have low: "to_ascii_lower ''application/json'' \<notin>
      {''text/plain'', ''multipart/form-data'', ''application/x-www-form-urlencoded''}" by code_simp
  have "\<not> is_json vis hs"
  proof (cases "text_line vis hs ''content-type''")
    case (Some v)
    show ?thesis
    proof
      assume "is_json vis hs"
      with Some have "to_ascii_lower (trim (hd (split_c CHR '';'' v))) = to_ascii_lower ''application/json''"
        by (simp add: is_json_def eq_ignore_ascii_case_def)
      with b Some low show False by simp
    qed
  qed (simp add: is_json_def)
  with b have "require_json vis hs = Some (415, not_json)" by (simp add: require_json_def)
  with assms(1) show ?thesis by (auto simp: csrf_check_def split: option.split)
qed

theorem cross_site_refused_witness:
  "csrf_check (\<lambda>_. True) \<lparr>cors_enabled = True, allowed_origins = [''http://localhost:*''], allow_credentials = True\<rparr> ''DELETE''
     [(''host'', ''manga.example:8443''), (''origin'', ''https://manga.example.evil'')] \<noteq> None \<and>
   csrf_check (\<lambda>_. True) \<lparr>cors_enabled = True, allowed_origins = [''http://localhost:*''], allow_credentials = True\<rparr> ''POST''
     [(''transfer-encoding'', ''chunked''), (''content-type'', ''Text/Plain; charset=utf-8'')] \<noteq> None"
proof -
  let ?c = "\<lparr>cors_enabled = True, allowed_origins = [''http://localhost:*''], allow_credentials = True\<rparr>"
  let ?a = "[(''host'', ''manga.example:8443''), (''origin'', ''https://manga.example.evil'')]"
  let ?b = "[(''transfer-encoding'', ''chunked''), (''content-type'', ''Text/Plain; charset=utf-8'')]"
  have a: "first_line ?a ''origin'' = Some ''https://manga.example.evil''" "\<not> is_origin_allowed ?c ''https://manga.example.evil''"
    "request_hosts (\<lambda>_. True) ?a = [''manga.example:8443'']"
    "origin_authority ''https://manga.example.evil'' = Some ''manga.example.evil''"
    "fst (split_port ''manga.example.evil'') \<noteq> fst (split_port ''manga.example:8443'')"
    "has_body (\<lambda>_. True) ?b" "text_line (\<lambda>_. True) ?b ''content-type'' = Some ''Text/Plain; charset=utf-8''"
    "to_ascii_lower (trim (hd (split_c CHR '';'' ''Text/Plain; charset=utf-8''))) = ''text/plain''" by code_simp+
  have "csrf_check (\<lambda>_. True) ?c ''DELETE'' ?a \<noteq> None"
    by (rule cross_site_refused [where org = "''https://manga.example.evil''"]) (use a(1-5) in simp_all)
  moreover have "csrf_check (\<lambda>_. True) ?c ''POST'' ?b \<noteq> None"
    by (rule cross_site_refused) (use a(6-8) in simp_all)
  ultimately show ?thesis by simp
qed

text \<open>
  C20: the server's own pages are never refused: a request whose \<open>Origin\<close> is the scheme with the
  \<open>Host\<close> it is sent to, with any port and any case, and whose body is JSON, passes.
\<close>

theorem own_pages_pass:
  assumes "h = n @ (case port of Some p \<Rightarrow> CHR '':'' # p | None \<Rightarrow> [])"
    and "n \<noteq> []" "CHR '':'' \<notin> set n" "CHR ''/'' \<notin> set h" "port \<noteq> Some []"
    and "case port of Some p \<Rightarrow> list_all is_ascii_digit p | None \<Rightarrow> True"
    and "trim h = h" "scheme = ''http'' \<or> scheme = ''https''"
    and "first_line hs ''host'' = Some h" "first_line hs ''origin'' = Some (scheme @ ''://'' @ h)"
    and "vis h" "vis (scheme @ ''://'' @ h)" "has_body vis hs \<longrightarrow> is_json vis hs"
  shows "csrf_check vis cfg m hs = None"
proof -
  have "\<exists>a host. origin_authority (scheme @ ''://'' @ h) = Some a \<and> pushed_host h = [host] \<and> same_authority a host"
    by (rule own_host_matches [OF assms(1-4) _ assms(7,8)]) (use assms(5,6) in auto)
  then obtain a host where "origin_authority (scheme @ ''://'' @ h) = Some a" "pushed_host h = [host]" "same_authority a host"
    by blast
  with assms(9-12) have "check_origin vis cfg hs = None"
    by (simp add: check_origin_def request_hosts_def text_line_def)
  with assms(13) show ?thesis by (auto simp: csrf_check_def require_json_def)
qed

theorem own_pages_pass_witness:
  "csrf_check (\<lambda>_. True) \<lparr>cors_enabled = False, allowed_origins = [], allow_credentials = False\<rparr> ''POST''
     [(''host'', ''Library.example:443''), (''origin'', ''http://Library.example:443'')] = None"
  by (rule own_pages_pass [where n = "''Library.example''" and port = "Some ''443''" and scheme = "''http''"
        and h = "''Library.example:443''"]) code_simp+

text \<open>
  C19: whose word decides the address a request counts for (the key of the failed-login limiter,
  the address in the log). A peer that is no trusted proxy is its own address whatever headers it
  sends. Behind a trusted proxy that sets \<open>X-Real-IP\<close>, as those of \<open>deploy/\<close> do, that line alone decides,
  whatever the client put into \<open>X-Forwarded-For\<close> or any other header. Behind one that sends no
  \<open>X-Real-IP\<close>, not even the client's, and appends to the first line of \<open>X-Forwarded-For\<close>, only what it
  appended counts. (A trusted proxy that lets the client's own \<open>X-Real-IP\<close> through is in the second
  case, and hands the client the choice: \<open>passed_real_ip\<close>.)
\<close>

theorem forged_addresses_ignored:
  shows "(\<not> is_proxy_peer nets peer \<longrightarrow>
      client_ip_text vis show_ip nets peer hs = show_ip (canonical peer) \<and>
      client_ip vis parse_ip nets peer hs = canonical peer) \<and>
    (is_proxy_peer nets peer \<and> first_line hs ''x-real-ip'' = Some real \<and> vis real \<and> trim real \<noteq> [] \<longrightarrow>
      client_ip_text vis show_ip nets peer hs = trim real \<and>
      (\<forall>a. parse_ip (trim real) = Some a \<longrightarrow> client_ip vis parse_ip nets peer hs = canonical a)) \<and>
    (is_proxy_peer nets peer \<and> first_line hs ''x-real-ip'' = None \<and>
     first_line hs ''x-forwarded-for'' = Some (forged @ CHR '','' # addr) \<and> vis (forged @ CHR '','' # addr) \<and>
     trim (forged @ CHR '','' # addr) = forged @ CHR '','' # addr \<and> CHR '','' \<notin> set addr \<and> trim addr \<noteq> [] \<longrightarrow>
      client_ip_text vis show_ip nets peer hs = trim addr \<and>
      (\<forall>a. parse_ip (trim addr) = Some a \<longrightarrow> client_ip vis parse_ip nets peer hs = canonical a))"
  by (auto simp: client_ip_text_def client_ip_def proxy_header_def text_line_def rightmost_last split: option.split)

theorem forged_addresses_ignored_witness:
  "client_ip_text (\<lambda>_. True) (\<lambda>_. ''203.0.113.5'') [] (V4 0xCB007105) [(''x-real-ip'', ''1.2.3.4'')] = ''203.0.113.5'' \<and>
   client_ip_text (\<lambda>_. True) (\<lambda>_. ''127.0.0.1'') [] (V6 0xFFFF7F000001)
     [(''x-forwarded-for'', ''9.9.9.9''), (''x-real-ip'', ''5.6.7.8'')] = ''5.6.7.8'' \<and>
   client_ip_text (\<lambda>_. True) (\<lambda>_. ''127.0.0.1'') [] (V6 0xFFFF7F000001) [(''x-forwarded-for'', ''9.9.9.9, 5.6.7.8'')] = ''5.6.7.8''"
proof -
  let ?hs = "[(''x-forwarded-for'', ''9.9.9.9, 5.6.7.8'')]"
  let ?set = "[(''x-forwarded-for'', ''9.9.9.9''), (''x-real-ip'', ''5.6.7.8'')]"
  have f: "\<not> is_proxy_peer [] (V4 0xCB007105)" "is_proxy_peer [] (V6 0xFFFF7F000001)"
    "trim (''9.9.9.9'' @ CHR '','' # '' 5.6.7.8'') = ''9.9.9.9'' @ CHR '','' # '' 5.6.7.8''"
    "CHR '','' \<notin> set '' 5.6.7.8''" "trim '' 5.6.7.8'' = ''5.6.7.8''" "trim ''5.6.7.8'' = ''5.6.7.8''" by code_simp+
  have "first_line ?hs ''x-real-ip'' = None" "first_line ?hs ''x-forwarded-for'' = Some (''9.9.9.9'' @ CHR '','' # '' 5.6.7.8'')"
    by (simp_all add: first_line_def)
  with f(2-5) forged_addresses_ignored [of "[]" "V6 0xFFFF7F000001" "\<lambda>_. True" "\<lambda>_. ''127.0.0.1''" ?hs "\<lambda>_. None"
      "[]" "''9.9.9.9''" "'' 5.6.7.8''"]
  have "client_ip_text (\<lambda>_. True) (\<lambda>_. ''127.0.0.1'') [] (V6 0xFFFF7F000001) ?hs = ''5.6.7.8''" by auto
  moreover have "first_line ?set ''x-real-ip'' = Some ''5.6.7.8''" by (simp add: first_line_def)
  with f(2,6) forged_addresses_ignored [of "[]" "V6 0xFFFF7F000001" "\<lambda>_. True" "\<lambda>_. ''127.0.0.1''" ?set "\<lambda>_. None" "''5.6.7.8''"]
  have "client_ip_text (\<lambda>_. True) (\<lambda>_. ''127.0.0.1'') [] (V6 0xFFFF7F000001) ?set = ''5.6.7.8''" by auto
  moreover from f(1) forged_addresses_ignored [of "[]" "V4 0xCB007105" "\<lambda>_. True" "\<lambda>_. ''203.0.113.5''" "[(''x-real-ip'', ''1.2.3.4'')]"]
  have "client_ip_text (\<lambda>_. True) (\<lambda>_. ''203.0.113.5'') [] (V4 0xCB007105) [(''x-real-ip'', ''1.2.3.4'')] = ''203.0.113.5''" by blast
  ultimately show ?thesis by blast
qed

text \<open>
  The last line of a request that has the header twice does not count: \<open>HeaderMap::get\<close> gives the
  first, which is the client's when the proxy adds a line of its own instead of appending to it.
\<close>

lemma forged_first_line:
  assumes "is_proxy_peer nets peer" "vis forged" "trim forged = forged" "CHR '','' \<notin> set forged" "forged \<noteq> []"
  shows "client_ip_text vis show_ip nets peer [(''x-forwarded-for'', forged), (''x-forwarded-for'', real)] = forged"
  using assms
  by (simp add: client_ip_text_def proxy_header_def text_line_def first_line_def rightmost_def split_c_no_sep)

text \<open>
  A line \<open>X-Real-IP\<close> that the client sent and the proxy neither set nor dropped wins over what the
  proxy says in \<open>X-Forwarded-For\<close>.
\<close>

lemma passed_real_ip:
  assumes "is_proxy_peer nets peer" "vis chosen" "trim chosen = chosen" "chosen \<noteq> []"
  shows "client_ip_text vis show_ip nets peer [(''x-real-ip'', chosen), (''x-forwarded-for'', real)] = chosen"
  using assms by (simp add: client_ip_text_def proxy_header_def text_line_def first_line_def)

end
