(* ===== verification/Guard_Protocol.thy ===== *)
theory Guard_Protocol
  imports Rust_Prelude "HOL-Library.Multiset"
begin

text \<open>
  The interface between the DAV operations, which take a guard before they touch the disk
  and drop it when they end, and the lock tables that hand guards out. The operations run
  concurrently; every call of \<open>acquire\<close> and every drop is atomic (the table's mutex), so an
  execution is a sequence of these two kinds of events, each naming the operation it
  belongs to.
\<close>

datatype 'req guard_event = Acquire nat 'req | Release nat

type_synonym ('st, 'g) guard_state = "'st \<times> (nat \<times> 'g) list"

fun guard_step ::
  "('st \<Rightarrow> 'req \<Rightarrow> ('st \<times> 'g) option) \<Rightarrow> ('st \<Rightarrow> 'g \<Rightarrow> 'st) \<Rightarrow>
   ('st, 'g) guard_state \<Rightarrow> 'req guard_event \<Rightarrow> ('st, 'g) guard_state" where
  "guard_step acquire release (st, act) (Acquire i r) =
     (if list_ex (\<lambda>a. fst a = i) act then (st, act)
      else
        (case acquire st r of
           None \<Rightarrow> (st, act)
         | Some (st', g) \<Rightarrow> (st', (i, g) # act)))"
| "guard_step acquire release (st, act) (Release i) =
     (case find (\<lambda>a. fst a = i) act of
        None \<Rightarrow> (st, act)
      | Some a \<Rightarrow> (release st (snd a), remove1 a act))"

definition guard_run ::
  "('st \<Rightarrow> 'req \<Rightarrow> ('st \<times> 'g) option) \<Rightarrow> ('st \<Rightarrow> 'g \<Rightarrow> 'st) \<Rightarrow> 'st \<Rightarrow>
   'req guard_event list \<Rightarrow> ('st, 'g) guard_state" where
  "guard_run acquire release st es = foldl (guard_step acquire release) (st, []) es"

text \<open>
  What a lock table promises: \<open>rep st G\<close> says that the table state \<open>st\<close> stands for the
  multiset \<open>G\<close> of outstanding guards.
\<close>

locale guard_table =
  fixes acquire :: "'st \<Rightarrow> 'req \<Rightarrow> ('st \<times> 'g) option"
    and release :: "'st \<Rightarrow> 'g \<Rightarrow> 'st"
    and clash :: "'g \<Rightarrow> 'g \<Rightarrow> bool"
    and rep :: "'st \<Rightarrow> 'g multiset \<Rightarrow> bool"
  assumes acquire_rep: "rep st G \<Longrightarrow> acquire st r = Some (st', g) \<Longrightarrow> rep st' (add_mset g G)"
    and acquire_free: "rep st G \<Longrightarrow> acquire st r = Some (st', g) \<Longrightarrow> h \<in># G \<Longrightarrow> \<not> clash g h"
    and release_rep: "rep st G \<Longrightarrow> g \<in># G \<Longrightarrow> rep (release st g) (G - {#g#})"
begin

definition exclusive :: "('st, 'g) guard_state \<Rightarrow> bool" where
  "exclusive s \<longleftrightarrow>
     rep (fst s) (mset (map snd (snd s))) \<and>
     sorted_wrt (\<lambda>a b. \<not> clash (snd a) (snd b)) (snd s)"

lemma sorted_wrt_remove1: "sorted_wrt P xs \<Longrightarrow> sorted_wrt P (remove1 x xs)"
proof (induction xs)
  case (Cons y ys)
  then show ?case using set_remove1_subset [of x ys] by auto
qed simp

lemma mset_map_remove1:
  "x \<in> set xs \<Longrightarrow> image_mset f (mset xs - {#x#}) = image_mset f (mset xs) - {#f x#}"
  by (simp add: image_mset_Diff)

lemma guard_step_exclusive: "exclusive s \<Longrightarrow> exclusive (guard_step acquire release s e)"
proof (cases s; cases e)
  fix st act i r
  assume ex: "exclusive s" and s: "s = (st, act)" and e: "e = Acquire i r"
  show ?thesis
  proof (cases "list_ex (\<lambda>a. fst a = i) act \<or> acquire st r = None")
    case True
    with ex s e show ?thesis by auto
  next
    case False
    then obtain st' g where acq: "acquire st r = Some (st', g)" and i: "\<not> list_ex (\<lambda>a. fst a = i) act"
      by auto
    from ex s have rep: "rep st (mset (map snd act))" and sw: "sorted_wrt (\<lambda>a b. \<not> clash (snd a) (snd b)) act"
      by (auto simp: exclusive_def)
    from acquire_free [OF rep acq] have "\<forall>b\<in>set act. \<not> clash g (snd b)" by auto
    with acquire_rep [OF rep acq] sw s e acq i show ?thesis by (simp add: exclusive_def)
  qed
next
  fix st act i
  assume ex: "exclusive s" and s: "s = (st, act)" and e: "e = Release i"
  show ?thesis
  proof (cases "find (\<lambda>a. fst a = i) act")
    case None
    with ex s e show ?thesis by simp
  next
    case (Some a)
    then have "a \<in> set act" by (auto simp: find_Some_iff)
    with ex s e Some release_rep [of st "mset (map snd act)" "snd a"] show ?thesis
      by (simp add: exclusive_def sorted_wrt_remove1 mset_map_remove1)
  qed
qed

sublocale run: machine "guard_step acquire release" exclusive
  by unfold_locales (rule guard_step_exclusive)

lemma guard_run_exclusive: "rep st {#} \<Longrightarrow> exclusive (guard_run acquire release st es)"
  unfolding guard_run_def by (rule run.run_inv) (simp add: exclusive_def)

text \<open>Two operations in progress at once hold guards that do not clash.\<close>

lemma guards_exclude:
  assumes "rep st {#}" and "guard_run acquire release st es = (st', act)"
    and "m < n" and "n < length act"
  shows "\<not> clash (snd (act ! m)) (snd (act ! n))"
  using guard_run_exclusive [OF assms(1), of es] assms(2-4)
  by (auto simp: exclusive_def sorted_wrt_iff_nth_less)

text \<open>Nothing leaks: when no operation is in progress the table stands for no guard.\<close>

lemma guards_released:
  assumes "rep st {#}" and "guard_run acquire release st es = (st', [])"
  shows "rep st' {#}"
  using guard_run_exclusive [OF assms(1), of es] assms(2) by (simp add: exclusive_def)

end

end
