(* ===== verification/Reader_Tree.thy ===== *)
theory Reader_Tree
  imports Rust_Prelude
begin

text \<open>
  \<open>bunko-core/src/reader_tree.rs\<close>: which names under \<open>/mokuro-reader\<close> belong to one account,
  what shape a path of the reading history may have, and where an account's tree lives.
  A file-system path is the list of its components below the root.
\<close>

type_synonym fs_path = "string list"

definition reader_root :: string where
  "reader_root = ''mokuro-reader''"

definition per_user_files :: "string list" where
  "per_user_files = [''volume-data.json'', ''profiles.json'', ''goals.json'', ''positions.json'']"

definition history_dir :: string where
  "history_dir = ''history''"

definition per_user_dirs :: "string list" where
  "per_user_dirs = [history_dir]"

definition history_max_file_bytes :: nat where
  "history_max_file_bytes = 16 * 2 ^ 20"

definition history_max_total_bytes :: nat where
  "history_max_total_bytes = 256 * 2 ^ 20"

section \<open>Classification of a path below the reader root\<close>

datatype per_user_path = PFile string | PDir string | PInDir string string

fun per_user_in_dirs :: "string list \<Rightarrow> string \<Rightarrow> per_user_path option" where
  "per_user_in_dirs [] rel = None"
| "per_user_in_dirs (dir # dirs) rel =
     (if rel = dir then Some (PDir dir)
      else
        (case Option.bind (strip_prefix dir rel) (strip_prefix ''/'') of
           Some rest \<Rightarrow>
             (let rest = trim_start_c CHR ''/'' rest in
              Some (if rest = [] then PDir dir else PInDir dir rest))
         | None \<Rightarrow> per_user_in_dirs dirs rel))"

definition per_user :: "string \<Rightarrow> per_user_path option" where
  "per_user rel0 =
     (let rel = trim_c CHR ''/'' rel0 in
      case find (\<lambda>n. n = rel) per_user_files of
        Some name \<Rightarrow> Some (PFile name)
      | None \<Rightarrow> per_user_in_dirs per_user_dirs rel)"

definition is_per_user_rel :: "string \<Rightarrow> bool" where
  "is_per_user_rel rel \<longleftrightarrow> per_user rel \<noteq> None"

definition is_history_rel :: "string \<Rightarrow> bool" where
  "is_history_rel rel =
     (case per_user rel of
        Some (PDir d) \<Rightarrow> d = history_dir
      | Some (PInDir d _) \<Rightarrow> d = history_dir
      | _ \<Rightarrow> False)"

definition is_per_user_root_name :: "string \<Rightarrow> bool" where
  "is_per_user_root_name name \<longleftrightarrow> List.member per_user_files name \<or> List.member per_user_dirs name"

definition folds_to_per_user_root_name :: "string \<Rightarrow> bool" where
  "folds_to_per_user_root_name name =
     list_ex (\<lambda>n. eq_ignore_ascii_case n name) (per_user_files @ per_user_dirs)"

section \<open>The shape of the reading history\<close>

datatype history_shape = Collection | File | Invalid

definition is_history_char :: "char \<Rightarrow> bool" where
  "is_history_char c \<longleftrightarrow> is_ascii_alnum c \<or> c = CHR ''.'' \<or> c = CHR ''_'' \<or> c = CHR ''-''"

definition is_history_segment :: "string \<Rightarrow> bool" where
  "is_history_segment s =
     (case s of
        [] \<Rightarrow> False
      | c # cs \<Rightarrow> length s \<le> 128 \<and> is_ascii_alnum c \<and> list_all is_history_char cs)"

definition history_shape :: "string list \<Rightarrow> history_shape" where
  "history_shape segs =
     (if \<not> list_all is_history_segment segs then Invalid
      else if length segs \<le> 1 then Collection
      else if length segs = 2 then File
      else Invalid)"

definition history_shape_of_rel :: "string \<Rightarrow> history_shape option" where
  "history_shape_of_rel rel =
     (case per_user rel of
        Some (PDir d) \<Rightarrow> if d = history_dir then Some Collection else None
      | Some (PInDir d rest) \<Rightarrow>
          if d = history_dir then Some (history_shape (split_c CHR ''/'' rest)) else None
      | _ \<Rightarrow> None)"

definition advertised :: "string list" where
  "advertised = per_user_files @ map (\<lambda>d. d @ ''/'') per_user_dirs"

section \<open>Whose tree\<close>

record caller =
  caller_username :: string
  owns_cloud_root :: bool

definition safe_username :: "string \<Rightarrow> bool" where
  "safe_username name \<longleftrightarrow>
     name \<noteq> [] \<and> name \<noteq> ''.'' \<and> name \<noteq> ''..'' \<and>
     \<not> list_ex (\<lambda>c. c = CHR ''/'' \<or> c = CHR 0x5C \<or> c = CHR 0x00) name"

definition user_base :: "fs_path \<Rightarrow> fs_path \<Rightarrow> caller \<Rightarrow> fs_path option" where
  "user_base library users c =
     (if owns_cloud_root c then Some library
      else if safe_username (caller_username c) then Some (users @ [caller_username c])
      else None)"

section \<open>Lemmas\<close>

lemma per_user_files_plain: "f \<in> set per_user_files \<Longrightarrow> CHR ''/'' \<notin> set f \<and> f \<noteq> [] \<and> f \<noteq> history_dir"
  by (auto simp: per_user_files_def history_dir_def)

lemma find_eq_Some: "find (\<lambda>n. n = x) xs = Some y \<longleftrightarrow> y = x \<and> x \<in> set xs"
  by (induction xs) auto

lemma find_eq_None: "find (\<lambda>n. n = x) xs = None \<longleftrightarrow> x \<notin> set xs"
  by (induction xs) auto

text \<open>The classification, stated over the trimmed path.\<close>

lemma per_user_cases:
  "per_user rel0 =
     (let rel = trim_c CHR ''/'' rel0 in
      if rel \<in> set per_user_files then Some (PFile rel)
      else if rel = history_dir then Some (PDir history_dir)
      else (case strip_prefix (history_dir @ ''/'') rel of
              Some rest \<Rightarrow> Some (PInDir history_dir (trim_start_c CHR ''/'' rest))
            | None \<Rightarrow> None))"
proof -
  let ?rel = "trim_c CHR ''/'' rel0"
  have ne: "trim_start_c CHR ''/'' rest \<noteq> []" if "?rel = history_dir @ CHR ''/'' # rest" for rest
  proof
    assume "trim_start_c CHR ''/'' rest = []"
    then have "set rest \<subseteq> {CHR ''/''}" by (rule trim_start_c_eq_Nil)
    then have "last ?rel = CHR ''/''" using that by (cases rest rule: rev_cases) auto
    moreover have "?rel \<noteq> []" using that by simp
    ultimately show False using trim_c_ends(2) [of "CHR ''/''" rel0] by simp
  qed
  show ?thesis
  proof (cases "?rel \<in> set per_user_files")
    case True
    then show ?thesis
      by (auto simp: per_user_def Let_def find_eq_Some find_eq_None split: option.splits)
  next
    case False
    then have none: "find (\<lambda>n. n = ?rel) per_user_files = None"
      by (simp add: find_eq_None)
    then show ?thesis
      using False ne
      by (auto simp: per_user_def per_user_dirs_def Let_def strip_prefix_append_pat
          strip_prefix_Some_iff split: option.splits Option.bind_splits)
  qed
qed

lemma per_user_trim: "per_user (trim_c CHR ''/'' rel) = per_user rel"
  by (simp add: per_user_cases)

lemma is_per_user_rel_trim [simp]: "is_per_user_rel (trim_c CHR ''/'' rel) = is_per_user_rel rel"
  by (simp add: is_per_user_rel_def per_user_trim)

lemma is_history_rel_trim [simp]: "is_history_rel (trim_c CHR ''/'' rel) = is_history_rel rel"
  by (simp add: is_history_rel_def per_user_trim)

lemma history_rel_per_user: "is_history_rel rel \<Longrightarrow> is_per_user_rel rel"
  by (auto simp: is_history_rel_def is_per_user_rel_def split: option.splits)

lemma is_history_rel_iff:
  "is_history_rel rel \<longleftrightarrow>
     trim_c CHR ''/'' rel = history_dir \<or>
     (\<exists>r. trim_c CHR ''/'' rel = history_dir @ CHR ''/'' # r)"
proof -
  have "history_dir \<notin> set per_user_files"
    "\<And>r. history_dir @ CHR ''/'' # r \<notin> set per_user_files"
    using per_user_files_plain by force+
  then show ?thesis
    by (auto simp: is_history_rel_def per_user_cases Let_def strip_prefix_append_pat
        strip_prefix_Some_iff split: option.splits Option.bind_splits)
qed

lemma per_user_Nil [simp]: "\<not> is_per_user_rel []"
  by (auto simp: is_per_user_rel_def per_user_cases per_user_files_def history_dir_def)

lemma is_history_segment_chars:
  "is_history_segment s \<Longrightarrow> s \<noteq> [] \<and> length s \<le> 128 \<and> list_all is_history_char s"
  by (cases s) (auto simp: is_history_segment_def is_history_char_def)

lemma is_history_char_not_slash: "is_history_char c \<Longrightarrow> c \<noteq> CHR ''/'' \<and> c \<noteq> CHR 0x5C \<and> c \<noteq> CHR 0x00"
  by (auto simp: is_history_char_def is_ascii_alnum_def is_ascii_digit_def is_ascii_lower_def
      is_ascii_upper_def)

lemma is_history_segment_safe:
  assumes "is_history_segment s"
  shows "safe_username s"
proof -
  from assms have all: "list_all is_history_char s" and ne: "s \<noteq> []"
    by (simp_all add: is_history_segment_chars)
  from all have "\<forall>c\<in>set s. c \<noteq> CHR ''/'' \<and> c \<noteq> CHR 0x5C \<and> c \<noteq> CHR 0x00"
    by (auto simp: list_all_iff dest: is_history_char_not_slash)
  moreover have "s \<noteq> ''.''" "s \<noteq> ''..''"
    using assms by (auto simp: is_history_segment_def is_ascii_alnum_def is_ascii_digit_def
        is_ascii_lower_def is_ascii_upper_def)
  ultimately show ?thesis using ne by (auto simp: safe_username_def list_ex_iff)
qed

lemma history_shape_valid_iff:
  "history_shape segs \<noteq> Invalid \<longleftrightarrow> list_all is_history_segment segs \<and> length segs \<le> 2"
  by (auto simp: history_shape_def)

lemma user_base_distinct:
  "user_base library users c = Some p \<Longrightarrow> user_base library users d = Some q \<Longrightarrow>
   \<not> owns_cloud_root c \<Longrightarrow> \<not> owns_cloud_root d \<Longrightarrow>
   caller_username c \<noteq> caller_username d \<Longrightarrow> \<not> starts_with p q \<and> \<not> starts_with q p"
  by (auto simp: user_base_def starts_with_iff split: if_splits)

section \<open>Properties\<close>

lemma filter_split_slashes:
  "filter (\<lambda>x. x \<noteq> []) (split_c c (trim_start_c c s)) = filter (\<lambda>x. x \<noteq> []) (split_c c s)"
  by (rule filter_split_c_trim_start)

text \<open>
  A path the history rules accept for a PUT consists of exactly three components,
  \<open>history\<close>, a device and a file, and the last two are plain names of at most 128 bytes:
  no separator, no NUL, not \<open>.\<close> and not \<open>..\<close>, so it cannot leave the account's tree.
\<close>

theorem history_file_contained:
  assumes "history_shape_of_rel rel = Some File"
  shows "\<exists>device file. filter (\<lambda>s. s \<noteq> []) (split_c CHR ''/'' rel) = [history_dir, device, file] \<and>
    safe_username device \<and> safe_username file \<and> length device \<le> 128 \<and> length file \<le> 128"
proof -
  let ?rel = "trim_c CHR ''/'' rel"
  from assms obtain d rest where per: "per_user rel = Some (PInDir d rest)"
    and shape: "history_shape (split_c CHR ''/'' rest) = File"
    by (auto simp: history_shape_of_rel_def split: option.splits per_user_path.splits if_splits)
  from per obtain r where rel: "?rel = history_dir @ CHR ''/'' # r" and rest: "rest = trim_start_c CHR ''/'' r"
    by (auto simp: per_user_cases Let_def strip_prefix_Some_iff split: if_splits option.splits)
  from shape have seg: "list_all is_history_segment (split_c CHR ''/'' rest)"
    and len: "length (split_c CHR ''/'' rest) = 2"
    by (auto simp: history_shape_def split: if_splits)
  from len obtain device fname where two: "split_c CHR ''/'' rest = [device, fname]"
    by (auto simp: length_Suc_conv numeral_2_eq_2)
  with seg have segs: "is_history_segment device" "is_history_segment fname" by simp_all
  have "filter (\<lambda>s. s \<noteq> []) (split_c CHR ''/'' rel) = filter (\<lambda>s. s \<noteq> []) (split_c CHR ''/'' ?rel)"
    by (simp add: filter_split_c_trim)
  also have "\<dots> = filter (\<lambda>s. s \<noteq> []) (history_dir # split_c CHR ''/'' r)"
    using split_c_append [of "CHR ''/''" history_dir r] by (simp add: rel history_dir_def)
  also have "\<dots> = history_dir # filter (\<lambda>s. s \<noteq> []) (split_c CHR ''/'' rest)"
    by (simp add: rest filter_split_slashes history_dir_def)
  also have "\<dots> = [history_dir, device, fname]"
    using segs by (auto simp: two is_history_segment_chars)
  finally show ?thesis
    using segs by (auto simp: is_history_segment_safe dest: is_history_segment_chars)
qed

theorem history_file_contained_witness:
  "history_shape_of_rel ''/history//d1/x.events'' = Some File \<and>
   (\<exists>device file. filter (\<lambda>s. s \<noteq> []) (split_c CHR ''/'' ''/history//d1/x.events'') = [history_dir, device, file] \<and>
    safe_username device \<and> safe_username file \<and> length device \<le> 128 \<and> length file \<le> 128)"
proof -
  have h: "history_shape_of_rel ''/history//d1/x.events'' = Some File" by code_simp
  show ?thesis using h by (intro conjI history_file_contained)
qed

text \<open>
  The trees of two accounts that do not own a cloud root are different directories,
  neither inside the other.
\<close>

theorem user_trees_disjoint:
  assumes "user_base library users c = Some p" and "user_base library users d = Some q"
    and "\<not> owns_cloud_root c" and "\<not> owns_cloud_root d"
    and "caller_username c \<noteq> caller_username d"
  shows "\<not> starts_with p q \<and> \<not> starts_with q p"
  using assms by (rule user_base_distinct)

theorem user_trees_disjoint_witness:
  "user_base [''lib''] [''users''] \<lparr>caller_username = ''ann'', owns_cloud_root = False\<rparr> = Some [''users'', ''ann''] \<and>
   \<not> starts_with [''users'', ''ann''] [''users'', ''bob''] \<and> \<not> starts_with [''users'', ''bob''] [''users'', ''ann'']"
proof -
  let ?a = "\<lparr>caller_username = ''ann'', owns_cloud_root = False\<rparr>"
  let ?b = "\<lparr>caller_username = ''bob'', owns_cloud_root = False\<rparr>"
  have a: "user_base [''lib''] [''users''] ?a = Some [''users'', ''ann'']" by code_simp
  have b: "user_base [''lib''] [''users''] ?b = Some [''users'', ''bob'']" by code_simp
  have "\<not> owns_cloud_root ?a" "\<not> owns_cloud_root ?b" "caller_username ?a \<noteq> caller_username ?b" by simp_all
  from user_trees_disjoint [OF a b this] a show ?thesis by simp
qed

end
