(* ===== verification/Write_Locks.thy ===== *)
theory Write_Locks
  imports Guard_Protocol Reader_Tree
begin

text \<open>
  \<open>bunko-dav/src/write_locks.rs\<close>: the per-path write locks. A key is the list of the path's
  components, each folded by \<open>str::to_lowercase\<close> (the parameter \<open>lower\<close>: the results below
  do not depend on which folding it is). The held keys are the vector behind the mutex.
\<close>

type_synonym lock_key = "string list"

definition key_of :: "(string \<Rightarrow> string) \<Rightarrow> fs_path \<Rightarrow> lock_key" where
  "key_of lower path = map lower path"

definition key_conflicts :: "lock_key \<Rightarrow> lock_key \<Rightarrow> bool" where
  "key_conflicts a b = (let n = min (length a) (length b) in take n a = take n b)"

fun keys_free :: "lock_key list \<Rightarrow> lock_key list \<Rightarrow> lock_key list \<Rightarrow> bool" where
  "keys_free held earlier [] = True"
| "keys_free held earlier (key # keys) =
     (if list_ex (\<lambda>h. key_conflicts h key) held then False
      else if list_ex (\<lambda>k. key_conflicts k key) earlier then False
      else keys_free held (earlier @ [key]) keys)"

definition try_lock_all ::
  "(string \<Rightarrow> string) \<Rightarrow> lock_key list \<Rightarrow> fs_path list \<Rightarrow> (lock_key list \<times> lock_key list) option" where
  "try_lock_all lower held paths =
     (let keys = remdups_adj (sort (map (key_of lower) paths)) in
      if keys_free held [] keys then Some (held @ keys, keys) else None)"

definition try_lock ::
  "(string \<Rightarrow> string) \<Rightarrow> lock_key list \<Rightarrow> fs_path \<Rightarrow> (lock_key list \<times> lock_key list) option" where
  "try_lock lower held path = try_lock_all lower held [path]"

fun position_of :: "'a \<Rightarrow> 'a list \<Rightarrow> nat option" where
  "position_of x [] = None"
| "position_of x (y # ys) = (if y = x then Some 0 else map_option Suc (position_of x ys))"

text \<open>\<open>Vec::swap_remove\<close>: the last element takes the removed one's place.\<close>

definition swap_remove :: "'a list \<Rightarrow> nat \<Rightarrow> 'a list" where
  "swap_remove xs i = butlast (xs[i := last xs])"

fun drop_guard :: "lock_key list \<Rightarrow> lock_key list \<Rightarrow> lock_key list" where
  "drop_guard held [] = held"
| "drop_guard held (key # keys) =
     drop_guard (case position_of key held of Some pos \<Rightarrow> swap_remove held pos | None \<Rightarrow> held) keys"

section \<open>Lemmas\<close>

lemma key_conflicts_iff: "key_conflicts a b \<longleftrightarrow> starts_with a b \<or> starts_with b a"
proof (cases "length a \<le> length b")
  case True
  then have "key_conflicts a b \<longleftrightarrow> take (length a) b = a"
    by (auto simp: key_conflicts_def min_def)
  also have "\<dots> \<longleftrightarrow> starts_with b a"
    by (metis append_eq_conv_conj starts_with_iff)
  also have "\<dots> \<longleftrightarrow> starts_with a b \<or> starts_with b a"
    using True by (auto simp: starts_with_iff)
  finally show ?thesis .
next
  case False
  then have "key_conflicts a b \<longleftrightarrow> take (length b) a = b"
    by (auto simp: key_conflicts_def min_def)
  also have "\<dots> \<longleftrightarrow> starts_with a b"
    by (metis append_eq_conv_conj starts_with_iff)
  also have "\<dots> \<longleftrightarrow> starts_with a b \<or> starts_with b a"
    using False by (auto simp: starts_with_iff)
  finally show ?thesis .
qed

lemma key_conflicts_refl [simp]: "key_conflicts a a"
  by (simp add: key_conflicts_iff)

lemma key_conflicts_sym: "key_conflicts a b \<longleftrightarrow> key_conflicts b a"
  by (auto simp: key_conflicts_iff)

lemma keys_free_iff:
  "keys_free held earlier keys \<longleftrightarrow>
     (\<forall>h\<in>set held. \<forall>k\<in>set keys. \<not> key_conflicts h k) \<and>
     (\<forall>b\<in>set earlier. \<forall>k\<in>set keys. \<not> key_conflicts b k) \<and>
     sorted_wrt (\<lambda>a b. \<not> key_conflicts a b) keys"
  by (induction held earlier keys rule: keys_free.induct) (auto simp: list_ex_iff)

lemma position_of_None_iff: "position_of x xs = None \<longleftrightarrow> x \<notin> set xs"
  by (induction xs) auto

lemma position_of_Some: "position_of x xs = Some i \<Longrightarrow> i < length xs \<and> xs ! i = x"
  by (induction xs arbitrary: i) (auto split: if_splits)

lemma mset_swap_remove:
  assumes "i < length xs"
  shows "mset (swap_remove xs i) = mset xs - {#xs ! i#}"
proof -
  from assms have ne: "xs \<noteq> []" by auto
  let ?ys = "xs[i := last xs]"
  have lst: "last ?ys = last xs"
    using assms ne by (simp add: last_conv_nth nth_list_update)
  have "mset ?ys = add_mset (last xs) (mset xs - {#xs ! i#})"
    using assms by (simp add: mset_update)
  moreover have "mset ?ys = add_mset (last ?ys) (mset (butlast ?ys))"
    using ne by (metis append_butlast_last_id list_update_nonempty mset_append mset_single_iff_right
        add_mset_add_single mset.simps)
  ultimately show ?thesis by (simp add: swap_remove_def lst)
qed

lemma mset_drop_guard: "mset (drop_guard held keys) = mset held - mset keys"
proof (induction held keys rule: drop_guard.induct)
  case (2 held key keys)
  have "mset (case position_of key held of Some pos \<Rightarrow> swap_remove held pos | None \<Rightarrow> held)
      = mset held - {#key#}"
    by (auto simp: position_of_None_iff diff_single_trivial mset_swap_remove
        dest!: position_of_Some split: option.split)
  with 2 show ?case by simp
qed simp

text \<open>Guards clash when a key of one conflicts with a key of the other.\<close>

definition guards_clash :: "lock_key list \<Rightarrow> lock_key list \<Rightarrow> bool" where
  "guards_clash g h \<longleftrightarrow> list_ex (\<lambda>a. list_ex (\<lambda>b. key_conflicts a b) h) g"

definition held_by :: "lock_key list \<Rightarrow> lock_key list multiset \<Rightarrow> bool" where
  "held_by held G \<longleftrightarrow> mset held = (\<Sum>g\<in>#G. mset g)"

lemma held_by_mem: "held_by held G \<Longrightarrow> g \<in># G \<Longrightarrow> set g \<subseteq> set held"
proof -
  assume "held_by held G" "g \<in># G"
  then have "mset g \<subseteq># mset held"
    by (metis held_by_def mset_subset_eq_add_left multi_member_split sum_mset.insert image_mset_add_mset)
  then show ?thesis by (metis set_mset_mono set_mset_mset)
qed

interpretation wl: guard_table "try_lock_all lower" drop_guard guards_clash held_by
  for lower :: "string \<Rightarrow> string"
proof
  fix st st' :: "lock_key list" and G r g
  assume rep: "held_by st G" and acq: "try_lock_all lower st r = Some (st', g)"
  then have st': "st' = st @ g" and free: "keys_free st [] g"
    by (auto simp: try_lock_all_def Let_def split: if_splits)
  show "held_by st' (add_mset g G)"
    using rep by (simp add: st' held_by_def)
  fix h
  assume "h \<in># G"
  with rep have "set h \<subseteq> set st" by (rule held_by_mem)
  with free show "\<not> guards_clash g h"
    unfolding keys_free_iff guards_clash_def list_ex_iff using key_conflicts_sym by blast
next
  fix st :: "lock_key list" and G g
  assume rep: "held_by st G" and g: "g \<in># G"
  then show "held_by (drop_guard st g) (G - {#g#})"
    by (auto simp: held_by_def mset_drop_guard dest!: multi_member_split)
qed

section \<open>Properties\<close>

abbreviation write_run ::
  "(string \<Rightarrow> string) \<Rightarrow> fs_path list guard_event list \<Rightarrow> (lock_key list, lock_key list) guard_state" where
  "write_run lower es \<equiv> guard_run (try_lock_all lower) drop_guard [] es"

text \<open>
  C13: However the write operations of the DAV layer interleave, two operations in progress
  at the same time never hold conflicting paths (equal, or one an ancestor of the other,
  case folded): their disk effects cannot overlap.
\<close>

theorem writes_exclusive:
  assumes "guard_run (try_lock_all lower) drop_guard [] es = (held, act)"
    and "m < n" and "n < length act"
    and "k \<in> set (snd (act ! m))" and "k' \<in> set (snd (act ! n))"
  shows "\<not> key_conflicts k k'"
proof -
  have "held_by [] {#}" by (simp add: held_by_def)
  from wl.guards_exclude [OF this assms(1-3)] assms(4,5) show ?thesis
    by (auto simp: guards_clash_def list_ex_iff)
qed

theorem writes_exclusive_witness:
  "\<not> key_conflicts [''/'', ''lib'', ''b''] [''/'', ''lib'', ''a'']"
proof -
  let ?es = "[Acquire 0 [[''/'', ''lib'', ''a'']], Acquire 1 [[''/'', ''lib'', ''a'', ''v'']],
              Acquire 2 [[''/'', ''lib'', ''b'']]]"
  have r: "guard_run (try_lock_all id) drop_guard [] ?es =
      ([[''/'', ''lib'', ''a''], [''/'', ''lib'', ''b'']],
       [(2, [[''/'', ''lib'', ''b'']]), (0, [[''/'', ''lib'', ''a'']])])"
    by code_simp
  show ?thesis by (rule writes_exclusive [OF r, of 0 1]) simp_all
qed

text \<open>
  No lock leaks: whatever operations ran and in whatever order they ended, once none is
  in progress the table is empty again (every guard's drop takes back exactly its keys).
\<close>

theorem writes_no_leak:
  assumes "guard_run (try_lock_all lower) drop_guard [] es = (held, [])"
  shows "held = []"
proof -
  have "held_by [] {#}" by (simp add: held_by_def)
  from wl.guards_released [OF this assms] show ?thesis by (simp add: held_by_def)
qed

theorem writes_no_leak_witness:
  "fst (guard_run (try_lock_all id) drop_guard []
     [Acquire 0 [[''b''], [''a'']], Acquire 1 [[''c'']], Release 0, Release 1]) = []"
proof -
  have r: "guard_run (try_lock_all id) drop_guard []
     [Acquire 0 [[''b''], [''a'']], Acquire 1 [[''c'']], Release 0, Release 1] = ([], [])"
    by code_simp
  from writes_no_leak [OF r] r show ?thesis by simp
qed

end
