(* ===== verification/Dav_Locks.thy ===== *)
theory Dav_Locks
  imports Rust_Prelude
begin

text \<open>
  \<open>bunko-dav/src/locks.rs\<close>: the in-memory WebDAV lock table. The hash map from tokens to
  locks is the list of its values in some iteration order (the token is a field of the
  lock); \<open>check_write_exact\<close> shows that the answers do not depend on that order. Instants
  and expiries are nanoseconds since an arbitrary origin; \<open>now\<close> is the clock reading of the
  call and \<open>token\<close> the fresh random token \<open>acquire\<close> draws. Every operation runs under the
  table's mutex, so it is one function on the table. (\<open>Instant + Duration\<close> panics beyond
  the clock's range, about 584 years; timeouts come from \<open>parse_timeout\<close>, at most ten.)
\<close>

definition default_timeout_secs :: int where
  "default_timeout_secs = 604800"

definition max_finite_timeout :: int where
  "max_finite_timeout = 10 * 365 * 24 * 3600"

definition max_locks :: nat where
  "max_locks = 10000"

datatype scope = Exclusive | Shared

record lock =
  token :: string
  lkey :: string
  root_href :: string
  lscope :: scope
  infinite_depth :: bool
  owner_xml :: string
  timeout :: int
  expires :: "nat option"
  principal :: string

type_synonym lock_table = "lock list"

datatype acquire_error = Conflict "string list" | TooMany

definition secs :: "int \<Rightarrow> nat" where
  "secs n = nat n * 1000000000"

definition lock_expired :: "nat \<Rightarrow> lock \<Rightarrow> bool" where
  "lock_expired now l = (case expires l of Some at \<Rightarrow> at \<le> now | None \<Rightarrow> False)"

fun parse_timeout_parts :: "string list \<Rightarrow> int" where
  "parse_timeout_parts [] = default_timeout_secs"
| "parse_timeout_parts (part # parts) =
     (let part = trim part in
      if eq_ignore_ascii_case part ''infinite'' then -1
      else
        (case (case strip_prefix ''Second-'' part of
                 Some n \<Rightarrow> Some n
               | None \<Rightarrow> strip_prefix ''second-'' part) of
           None \<Rightarrow> parse_timeout_parts parts
         | Some n \<Rightarrow>
             (case parse_i64 (trim n) of
                None \<Rightarrow> parse_timeout_parts parts
              | Some n \<Rightarrow> if n > max_finite_timeout then -1 else n)))"

definition parse_timeout :: "string option \<Rightarrow> int" where
  "parse_timeout value =
     (case value of
        None \<Rightarrow> default_timeout_secs
      | Some value \<Rightarrow> parse_timeout_parts (split_c CHR '','' value))"

definition is_child :: "string \<Rightarrow> string \<Rightarrow> bool" where
  "is_child parent child =
     (if parent = ''/'' then child \<noteq> ''/''
      else
        (case strip_prefix parent child of
           Some (c # _) \<Rightarrow> c = CHR ''/'' \<or> c = CHR 0x00
         | _ \<Rightarrow> False))"

definition purge :: "nat \<Rightarrow> lock_table \<Rightarrow> lock_table" where
  "purge now tbl = filter (\<lambda>l. \<not> lock_expired now l) tbl"

definition locks_on :: "nat \<Rightarrow> string \<Rightarrow> lock_table \<Rightarrow> lock list \<times> lock_table" where
  "locks_on now key tbl =
     (let tbl = purge now tbl in
      (sort_key token (filter (\<lambda>l. lkey l = key) tbl), tbl))"

text \<open>Does \<open>l\<close> protect \<open>key\<close>: set on it, or a depth-infinity lock of an ancestor?\<close>

definition covers :: "lock \<Rightarrow> string \<Rightarrow> bool" where
  "covers l key \<longleftrightarrow> lkey l = key \<or> (infinite_depth l \<and> is_child (lkey l) key)"

definition indirect_tokens :: "nat \<Rightarrow> string \<Rightarrow> string \<Rightarrow> lock_table \<Rightarrow> string list \<times> lock_table" where
  "indirect_tokens now key who tbl =
     (let tbl = purge now tbl in
      (map token (filter (\<lambda>l. principal l = who \<and> covers l key) tbl), tbl))"

definition sorted_hrefs :: "string list \<Rightarrow> string list" where
  "sorted_hrefs hrefs = remdups_adj (sort hrefs)"

definition write_conflicts :: "string \<Rightarrow> bool \<Rightarrow> string list \<Rightarrow> string \<Rightarrow> lock \<Rightarrow> bool" where
  "write_conflicts key deep tokens who l =
     (let direct = (lkey l = key);
          via_parent = (infinite_depth l \<and> is_child (lkey l) key);
          below = (deep \<and> is_child key (lkey l))
      in if \<not> (direct \<or> via_parent \<or> below) then False
         else if (direct \<or> via_parent) \<and> principal l = who \<and> List.member tokens (token l) then False
         else True)"

definition check_write ::
  "nat \<Rightarrow> string \<Rightarrow> bool \<Rightarrow> string list \<Rightarrow> string \<Rightarrow> lock_table \<Rightarrow> (string list + unit) \<times> lock_table" where
  "check_write now key deep tokens who tbl =
     (let tbl = purge now tbl;
          conflicts = map root_href (filter (write_conflicts key deep tokens who) tbl)
      in (if conflicts = [] then Inr () else Inl (sorted_hrefs conflicts), tbl))"

definition acquire_conflicts :: "string \<Rightarrow> scope \<Rightarrow> bool \<Rightarrow> lock \<Rightarrow> bool" where
  "acquire_conflicts key sc dp l =
     (let direct = (lkey l = key);
          via_parent = (infinite_depth l \<and> is_child (lkey l) key);
          below = (dp \<and> is_child key (lkey l))
      in if direct \<or> via_parent then \<not> (lscope l = Shared \<and> sc = Shared)
         else below)"

definition expiry :: "nat \<Rightarrow> int \<Rightarrow> nat option" where
  "expiry now t = (if t \<ge> 0 then Some (now + secs t) else None)"

text \<open>\<open>HashMap::insert\<close> of a lock under its token.\<close>

definition insert_lock :: "lock \<Rightarrow> lock_table \<Rightarrow> lock_table" where
  "insert_lock l tbl = l # filter (\<lambda>m. token m \<noteq> token l) tbl"

definition acquire ::
  "nat \<Rightarrow> string \<Rightarrow> string \<Rightarrow> string \<Rightarrow> scope \<Rightarrow> bool \<Rightarrow> string \<Rightarrow> int \<Rightarrow> string \<Rightarrow> lock_table \<Rightarrow>
   (acquire_error + lock) \<times> lock_table" where
  "acquire now tok key href sc dp owner tmo who tbl =
     (let tbl = purge now tbl in
      if max_locks \<le> length tbl then (Inl TooMany, tbl)
      else
        let conflicts = map root_href (filter (acquire_conflicts key sc dp) tbl) in
        if conflicts \<noteq> [] then (Inl (Conflict (sorted_hrefs conflicts)), tbl)
        else
          let l = \<lparr>token = tok, lkey = key, root_href = href, lscope = sc, infinite_depth = dp,
                   owner_xml = owner, timeout = tmo, expires = expiry now tmo, principal = who\<rparr>
          in (Inr l, insert_lock l tbl))"

definition refresh :: "nat \<Rightarrow> string \<Rightarrow> int \<Rightarrow> lock_table \<Rightarrow> lock option \<times> lock_table" where
  "refresh now tok tmo tbl =
     (let tbl = purge now tbl;
          tbl' = map (\<lambda>l. if token l = tok then l\<lparr>timeout := tmo, expires := expiry now tmo\<rparr> else l) tbl
      in (find (\<lambda>l. token l = tok) tbl', tbl'))"

definition get_lock :: "nat \<Rightarrow> string \<Rightarrow> lock_table \<Rightarrow> lock option \<times> lock_table" where
  "get_lock now tok tbl =
     (let tbl = purge now tbl in (find (\<lambda>l. token l = tok) tbl, tbl))"

definition is_locked_by_token :: "nat \<Rightarrow> string \<Rightarrow> string \<Rightarrow> lock_table \<Rightarrow> bool \<times> lock_table" where
  "is_locked_by_token now key tok tbl =
     (case get_lock now tok tbl of
        (Some l, tbl') \<Rightarrow> (lkey l = key \<or> is_child (lkey l) key, tbl')
      | (None, tbl') \<Rightarrow> (False, tbl'))"

definition release_lock :: "string \<Rightarrow> lock_table \<Rightarrow> lock_table" where
  "release_lock tok tbl = filter (\<lambda>l. token l \<noteq> tok) tbl"

definition remove_tree :: "string \<Rightarrow> lock_table \<Rightarrow> lock_table" where
  "remove_tree key tbl = filter (\<lambda>l. \<not> (lkey l = key \<or> is_child key (lkey l))) tbl"

section \<open>The table as a machine\<close>

datatype lock_op =
    OpAcquire nat string string string scope bool string int string
  | OpRefresh nat string int
  | OpRelease string
  | OpRemoveTree string
  | OpRead nat

fun lock_step :: "lock_table \<Rightarrow> lock_op \<Rightarrow> lock_table" where
  "lock_step tbl (OpAcquire now tok key href sc dp owner tmo who) =
     snd (acquire now tok key href sc dp owner tmo who tbl)"
| "lock_step tbl (OpRefresh now tok tmo) = snd (refresh now tok tmo tbl)"
| "lock_step tbl (OpRelease tok) = release_lock tok tbl"
| "lock_step tbl (OpRemoveTree key) = remove_tree key tbl"
| "lock_step tbl (OpRead now) = purge now tbl"

text \<open>
  The invariant: one lock per token, at most \<^const>\<open>max_locks\<close> of them, and two locks that
  protect a common resource (the same key, or one an infinite lock of the other's ancestor)
  are both shared.
\<close>

definition compatible :: "lock \<Rightarrow> lock \<Rightarrow> bool" where
  "compatible a b \<longleftrightarrow>
     covers a (lkey b) \<or> covers b (lkey a) \<longrightarrow> lscope a = Shared \<and> lscope b = Shared"

definition locks_inv :: "lock_table \<Rightarrow> bool" where
  "locks_inv tbl \<longleftrightarrow>
     distinct (map token tbl) \<and> length tbl \<le> max_locks \<and>
     (\<forall>a\<in>set tbl. \<forall>b\<in>set tbl. a \<noteq> b \<longrightarrow> compatible a b)"

section \<open>Lemmas\<close>

lemma set_purge [simp]: "set (purge now tbl) = {l \<in> set tbl. \<not> lock_expired now l}"
  by (simp add: purge_def)

lemma distinct_remdups_adj_sorted: "sorted xs \<Longrightarrow> distinct (remdups_adj xs)"
  for xs :: "'a::linorder list"
  by (induction xs rule: remdups_adj.induct) auto

lemma sorted_hrefs_eq: "sorted_hrefs xs = sorted_list_of_set (set xs)"
  by (rule sorted_distinct_set_unique)
    (simp_all add: sorted_hrefs_def distinct_remdups_adj_sorted)

lemma locks_inv_filter [inv_intros]: "locks_inv tbl \<Longrightarrow> locks_inv (filter P tbl)"
  by (auto simp: locks_inv_def distinct_map_filter intro: le_trans [OF length_filter_le])

lemma locks_inv_purge [inv_intros]: "locks_inv tbl \<Longrightarrow> locks_inv (purge now tbl)"
  by (simp add: purge_def locks_inv_filter)

lemma compatible_sym: "compatible a b \<longleftrightarrow> compatible b a"
  by (auto simp: compatible_def)

lemma write_conflicts_iff:
  "write_conflicts key deep tokens who l \<longleftrightarrow>
     (if covers l key then \<not> (principal l = who \<and> token l \<in> set tokens)
      else deep \<and> is_child key (lkey l))"
  by (simp add: write_conflicts_def covers_def Let_def)

lemma check_write_fst:
  "fst (check_write now key deep tokens who tbl) =
     (let bad = {l \<in> set tbl. \<not> lock_expired now l \<and> write_conflicts key deep tokens who l}
      in if bad = {} then Inr () else Inl (sorted_list_of_set (root_href ` bad)))"
proof -
  let ?bad = "{l \<in> set tbl. \<not> lock_expired now l \<and> write_conflicts key deep tokens who l}"
  let ?cs = "map root_href (filter (write_conflicts key deep tokens who) (purge now tbl))"
  have set: "set ?cs = root_href ` ?bad"
    by (simp add: conj_assoc)
  then have "?cs = [] \<longleftrightarrow> ?bad = {}"
    unfolding set_empty [symmetric] set by simp
  with set show ?thesis
    unfolding check_write_def Let_def by (simp add: sorted_hrefs_eq)
qed

lemma acquire_conflicts_compatible:
  assumes "\<not> acquire_conflicts key sc dp l" and "lkey m = key" and "lscope m = sc" and "infinite_depth m = dp"
  shows "compatible m l"
  using assms by (auto simp: acquire_conflicts_def compatible_def covers_def Let_def split: if_splits)

lemma acquire_inv:
  assumes "locks_inv tbl"
  shows "locks_inv (snd (acquire now tok key href sc dp owner tmo who tbl))"
proof -
  let ?t = "purge now tbl"
  let ?l = "\<lparr>token = tok, lkey = key, root_href = href, lscope = sc, infinite_depth = dp,
     owner_xml = owner, timeout = tmo, expires = expiry now tmo, principal = who\<rparr>"
  have inv: "locks_inv ?t" by (rule locks_inv_purge [OF assms])
  show ?thesis
  proof (cases "max_locks \<le> length ?t \<or> filter (acquire_conflicts key sc dp) ?t \<noteq> []")
    case True
    with inv show ?thesis by (auto simp: acquire_def Let_def)
  next
    case False
    then have len: "length ?t < max_locks" and free: "\<forall>l\<in>set ?t. \<not> acquire_conflicts key sc dp l"
      by (auto simp: filter_empty_conv)
    let ?rest = "filter (\<lambda>m. token m \<noteq> tok) ?t"
    have rest: "locks_inv ?rest" by (rule locks_inv_filter [OF inv])
    have "length ?rest < max_locks" using len by (rule le_less_trans [OF length_filter_le])
    moreover have "compatible ?l b" if "b \<in> set ?rest" for b
      using free that by (intro acquire_conflicts_compatible [of key sc dp]) auto
    ultimately have "locks_inv (?l # ?rest)"
      using rest by (auto simp: locks_inv_def compatible_sym)
    with False show ?thesis by (auto simp: acquire_def Let_def insert_lock_def)
  qed
qed

lemma compatible_cong:
  "lkey a = lkey a' \<Longrightarrow> lscope a = lscope a' \<Longrightarrow> infinite_depth a = infinite_depth a' \<Longrightarrow>
   lkey b = lkey b' \<Longrightarrow> lscope b = lscope b' \<Longrightarrow> infinite_depth b = infinite_depth b' \<Longrightarrow>
   compatible a b = compatible a' b'"
  by (simp add: compatible_def covers_def)

lemma locks_inv_update:
  assumes "locks_inv tbl"
    and same: "\<And>l. token (f l) = token l \<and> lkey (f l) = lkey l \<and> lscope (f l) = lscope l \<and>
      infinite_depth (f l) = infinite_depth l"
  shows "locks_inv (map f tbl)"
proof -
  have "map token (map f tbl) = map token tbl" using same by simp
  moreover have "compatible (f a) (f b)"
    if "a \<in> set tbl" "b \<in> set tbl" "f a \<noteq> f b" for a b
  proof -
    have "a \<noteq> b" using that(3) by auto
    with assms(1) that(1,2) have "compatible a b" by (simp add: locks_inv_def)
    moreover have "compatible (f a) (f b) = compatible a b"
      by (rule compatible_cong) (simp_all add: same)
    ultimately show ?thesis by simp
  qed
  ultimately show ?thesis
    using assms(1) by (auto simp: locks_inv_def simp del: map_map)
qed

lemma refresh_inv: "locks_inv tbl \<Longrightarrow> locks_inv (snd (refresh now tok tmo tbl))"
  unfolding refresh_def Let_def snd_conv
  by (rule locks_inv_update) (simp_all add: locks_inv_purge)

interpretation dl: machine lock_step locks_inv
proof
  fix tbl op
  assume "locks_inv tbl"
  then show "locks_inv (lock_step tbl op)"
    by (cases op) (auto simp: acquire_inv refresh_inv release_lock_def remove_tree_def
        intro: inv_intros)
qed

lemma parse_timeout_parts_bound: "parse_timeout_parts parts \<le> max_finite_timeout"
  by (induction parts rule: parse_timeout_parts.induct)
    (auto simp: default_timeout_secs_def max_finite_timeout_def Let_def split: option.splits)

text \<open>Two locks that protect one resource: one of them is at or above the other's root.\<close>

lemma is_child_iff:
  "is_child p k \<longleftrightarrow>
     (if p = ''/'' then k \<noteq> ''/'' else \<exists>c r. k = p @ c # r \<and> (c = CHR ''/'' \<or> c = CHR 0x00))"
  by (auto simp: is_child_def strip_prefix_Some_iff split: option.splits list.splits)

lemma is_child_chain:
  assumes "is_child p k" and "is_child q k"
  shows "p = q \<or> is_child p q \<or> is_child q p"
proof (cases "p = ''/'' \<or> q = ''/''")
  case True
  then show ?thesis by (auto simp: is_child_def)
next
  case False
  with assms(1) obtain c r where p: "k = p @ c # r" "c = CHR ''/'' \<or> c = CHR 0x00"
    by (auto simp: is_child_iff)
  from False assms(2) obtain d s where q: "k = q @ d # s" "d = CHR ''/'' \<or> d = CHR 0x00"
    by (auto simp: is_child_iff)
  from p(1) q(1) have "p @ c # r = q @ d # s" by simp
  then consider "p = q" | t where "q = p @ c # t" | t where "p = q @ d # t"
    by (auto simp: append_eq_append_conv2 append_eq_Cons_conv Cons_eq_append_conv)
  then show ?thesis
    using False p(2) q(2) by cases (auto simp: is_child_iff)
qed

lemma covers_chain: "covers a k \<Longrightarrow> covers b k \<Longrightarrow> covers a (lkey b) \<or> covers b (lkey a)"
  using is_child_chain [of "lkey a" k "lkey b"] by (auto simp: covers_def)

lemma check_write_ok_iff:
  "fst (check_write now key deep tokens who tbl) = Inr () \<longleftrightarrow>
     (\<forall>l\<in>set tbl. \<not> lock_expired now l \<longrightarrow>
        (if covers l key then principal l = who \<and> token l \<in> set tokens
         else \<not> (deep \<and> is_child key (lkey l))))"
  unfolding check_write_fst Let_def by (auto simp: write_conflicts_iff split: if_splits)

lemma acquire_Inr:
  assumes "acquire now tok key href sc dp owner tmo who tbl = (Inr l, tbl')"
  shows "tbl' = insert_lock l (purge now tbl)" and "token l = tok" and "lkey l = key"
    and "lscope l = sc" and "infinite_depth l = dp" and "principal l = who" and "expires l = expiry now tmo"
    and "\<forall>m\<in>set (purge now tbl). \<not> acquire_conflicts key sc dp m"
  using assms by (auto simp: acquire_def Let_def filter_empty_conv split: if_splits)

section \<open>Properties\<close>

text \<open>
  C12: After any sequence of lock operations there is at most one lock per token and at most
  \<^const>\<open>max_locks\<close> locks, and two different locks that protect one resource, each set on
  it or of infinite depth on an ancestor, are both shared.
\<close>

theorem locks_exclusive:
  "let tbl = foldl lock_step [] ops in
     distinct (map token tbl) \<and> length tbl \<le> max_locks \<and>
     (\<forall>a b key. a \<in> set tbl \<and> b \<in> set tbl \<and> a \<noteq> b \<and> covers a key \<and> covers b key \<longrightarrow>
        lscope a = Shared \<and> lscope b = Shared)"
proof -
  have "locks_inv (foldl lock_step [] ops)"
    by (rule dl.run_inv) (simp add: locks_inv_def)
  then show ?thesis
    using covers_chain unfolding locks_inv_def compatible_def Let_def by blast
qed

definition demo_shared :: "string \<Rightarrow> string \<Rightarrow> lock" where
  "demo_shared tok who = \<lparr>token = tok, lkey = ''/a'', root_href = ''/a'', lscope = Shared,
     infinite_depth = True, owner_xml = [], timeout = -1, expires = None, principal = who\<rparr>"

theorem locks_exclusive_witness:
  "lscope (demo_shared ''t1'' ''al'') = Shared"
proof -
  let ?ops = "[OpAcquire 0 ''t1'' ''/a'' ''/a'' Shared True [] (-1) ''al'',
               OpAcquire 5 ''t2'' ''/a'' ''/a'' Shared True [] (-1) ''bo'']"
  have tbl: "foldl lock_step [] ?ops = [demo_shared ''t2'' ''bo'', demo_shared ''t1'' ''al'']"
    by (simp add: acquire_def insert_lock_def purge_def max_locks_def demo_shared_def expiry_def
        lock_expired_def acquire_conflicts_def Let_def)
  show ?thesis
    using locks_exclusive [of ?ops]
    unfolding tbl Let_def by (auto simp: covers_def is_child_def demo_shared_def)
qed

text \<open>
  C33: A write is permitted exactly when, for every live lock, the writer is its principal and
  submitted its token if the lock protects the path, and the lock is not below the path if
  the write is a deep one; a refusal lists the roots of exactly the offending locks, in
  order and once each.
\<close>

theorem check_write_exact:
  "check_write now key deep tokens who tbl =
     (let bad = {l \<in> set tbl. \<not> lock_expired now l \<and>
                   (if covers l key then \<not> (principal l = who \<and> token l \<in> set tokens)
                    else deep \<and> is_child key (lkey l))}
      in (if bad = {} then Inr () else Inl (sorted_list_of_set (root_href ` bad)), purge now tbl))"
  using check_write_fst [of now key deep tokens who tbl]
  unfolding write_conflicts_iff Let_def
  by (simp add: prod_eq_iff) (simp add: check_write_def Let_def)

text \<open>
  A lock that was granted protects its resource, and with infinite depth everything
  below: until it expires no one else, and not even its owner without the token, may write
  there, and a second lock that protects the path is refused unless both are shared.
\<close>

theorem acquire_protects:
  assumes "acquire now tok key href sc dp owner tmo who tbl = (Inr l, tbl')"
    and "covers l k" and "\<not> lock_expired later l"
  shows "(fst (check_write later k deep tokens who' tbl') = Inr () \<longrightarrow> who' = who \<and> tok \<in> set tokens) \<and>
         (\<forall>l'. fst (acquire later tok' k href' sc' dp' owner' tmo' who' tbl') = Inr l' \<longrightarrow>
           sc = Shared \<and> sc' = Shared)"
proof -
  note acq = acquire_Inr [OF assms(1)]
  have l: "l \<in> set tbl'" by (simp add: acq(1) insert_lock_def)
  have "\<not> acquire_conflicts k sc' dp' l"
    if "fst (acquire later tok' k href' sc' dp' owner' tmo' who' tbl') = Inr l'" for l'
    using that acquire_Inr(8) [of later tok' k href' sc' dp' owner' tmo' who' tbl'] l assms(3)
    by (metis (mono_tags, lifting) mem_Collect_eq prod.collapse set_purge)
  with l assms(2,3) acq show ?thesis
    by (auto simp: check_write_ok_iff acquire_conflicts_def covers_def Let_def split: if_splits)
qed

theorem acquire_protects_witness:
  "fst (check_write 7 ''/a/b'' False [''t1''] ''bo'' [demo_shared ''t1'' ''al'']) \<noteq> Inr ()"
proof -
  have "acquire 0 ''t1'' ''/a'' ''/a'' Shared True [] (-1) ''al'' [] =
      (Inr (demo_shared ''t1'' ''al''), [demo_shared ''t1'' ''al''])"
    by (simp add: acquire_def insert_lock_def purge_def max_locks_def demo_shared_def expiry_def Let_def)
  from acquire_protects [OF this, of "''/a/b''" 7 False "[''t1'']" "''bo''"] show ?thesis
    by (auto simp: demo_shared_def covers_def is_child_def lock_expired_def purge_def max_locks_def)
qed

text \<open>
  The \<open>Timeout\<close> header never yields more than ten years: a lock acquired or refreshed
  with it expires within them or is an infinite lock.
\<close>

theorem parse_timeout_bounded:
  "parse_timeout value \<le> max_finite_timeout \<and>
   (case expiry now (parse_timeout value) of
      None \<Rightarrow> parse_timeout value < 0
    | Some at \<Rightarrow> now \<le> at \<and> at \<le> now + secs max_finite_timeout)"
proof -
  have "parse_timeout value \<le> max_finite_timeout"
    using parse_timeout_parts_bound
    by (simp add: parse_timeout_def split: option.splits)
      (simp add: default_timeout_secs_def max_finite_timeout_def)
  then show ?thesis
    by (auto simp: expiry_def secs_def nat_mono)
qed

end
