(* ===== verification/Dav_Xml.thy ===== *)
theory Dav_Xml
  imports Rust_Prelude
begin

text \<open>
  \<open>bunko-dav/src/xml.rs\<close>: the element tree of DAV request bodies and the escaping of the
  response writers. The tokenizer is the \<open>quick-xml\<close> crate; the model starts from the
  sequence of events it reports, an error of the crate being the event \<open>EvFail\<close>, and ends
  at the event \<open>EvEof\<close>. Namespace resolution and entity decoding are the crate's too.
\<close>

definition dav_ns :: string where
  "dav_ns = ''DAV:''"

datatype element = Element (ns: "string option") (loc: string) (children: "element list") (etext: string)

definition is_elem :: "element \<Rightarrow> string \<Rightarrow> string \<Rightarrow> bool" where
  "is_elem el n l \<longleftrightarrow> ns el = Some n \<and> loc el = l"

definition is_dav :: "element \<Rightarrow> string \<Rightarrow> bool" where
  "is_dav el l = is_elem el dav_ns l"

definition clark :: "element \<Rightarrow> string" where
  "clark el = ''{'' @ (case ns el of Some n \<Rightarrow> n | None \<Rightarrow> []) @ ''}'' @ loc el"

fun escape_char :: "char \<Rightarrow> string" where
  "escape_char c =
     (if c = CHR ''&'' then ''&amp;''
      else if c = CHR ''<'' then ''&lt;''
      else if c = CHR ''>'' then ''&gt;''
      else [c])"

definition escape_text :: "string \<Rightarrow> string" where
  "escape_text s = concat (map escape_char s)"

definition escape_attr :: "string \<Rightarrow> string" where
  "escape_attr s = concat (map (\<lambda>c. if c = CHR 0x22 then ''&quot;'' else [c]) (escape_text s))"

fun to_xml :: "element \<Rightarrow> string" where
  "to_xml (Element n l cs tx) =
     ''<'' @ l @ '' xmlns='' @ [CHR 0x22] @
     escape_attr (case n of Some n \<Rightarrow> n | None \<Rightarrow> []) @ [CHR 0x22] @
     (if cs = [] \<and> tx = [] then ''/>''
      else ''>'' @ escape_text tx @ concat (map to_xml cs) @ ''</'' @ l @ ''>'')"

definition prop_open_tag :: "string option \<Rightarrow> string \<Rightarrow> bool \<Rightarrow> string" where
  "prop_open_tag n l closed =
     (let e = (if closed then '' />'' else ''>'') in
      case n of
        Some n \<Rightarrow>
          if n = dav_ns then ''<D:'' @ l @ e
          else ''<ns0:'' @ l @ '' xmlns:ns0='' @ [CHR 0x22] @ escape_attr n @ [CHR 0x22] @ e
      | None \<Rightarrow> ''<'' @ l @ e)"

definition prop_close_tag :: "string option \<Rightarrow> string \<Rightarrow> string" where
  "prop_close_tag n l =
     (case n of
        Some n \<Rightarrow> if n = dav_ns then ''</D:'' @ l @ ''>'' else ''</ns0:'' @ l @ ''>''
      | None \<Rightarrow> ''</'' @ l @ ''>'')"

section \<open>Building the tree\<close>

text \<open>
  What \<open>read_resolved_event_into\<close> reports: a start or empty tag with its namespace (\<open>None\<close>:
  unbound; an undeclared prefix is \<open>NsUnknown\<close>) and local name as bytes, an end tag, text
  with its unescaped form (\<open>None\<close> when \<open>unescape\<close> fails), character data, and what is
  ignored.
\<close>

datatype resolved = NsBound string | NsUnbound | NsUnknown

datatype event =
    EvStart resolved string
  | EvEmpty resolved string
  | EvEnd
  | EvText "string option"
  | EvCData string
  | EvOther
  | EvFail
  | EvEof

definition element_of :: "resolved \<Rightarrow> string \<Rightarrow> element option" where
  "element_of r l =
     (case r of
        NsBound n \<Rightarrow> if utf8_valid n \<and> utf8_valid l then Some (Element (Some n) l [] []) else None
      | NsUnbound \<Rightarrow> if utf8_valid l then Some (Element None l [] []) else None
      | NsUnknown \<Rightarrow> None)"

definition add_child :: "element \<Rightarrow> element \<Rightarrow> element" where
  "add_child p el = Element (ns p) (loc p) (children p @ [el]) (etext p)"

definition add_text :: "element \<Rightarrow> string \<Rightarrow> element" where
  "add_text p t = Element (ns p) (loc p) (children p) (etext p @ t)"

text \<open>The stack has its top first.\<close>

definition attach :: "element list \<Rightarrow> element option \<Rightarrow> element \<Rightarrow> (element list \<times> element option) option" where
  "attach stack root el =
     (case stack of
        p # rest \<Rightarrow> Some (add_child p el # rest, root)
      | [] \<Rightarrow> (case root of None \<Rightarrow> Some ([], Some el) | Some _ \<Rightarrow> None))"

fun parse_events :: "element list \<Rightarrow> element option \<Rightarrow> event list \<Rightarrow> element option" where
  "parse_events stack root [] = (if stack \<noteq> [] then None else root)"
| "parse_events stack root (ev # evs) =
     (case ev of
        EvStart r l \<Rightarrow>
          (case element_of r l of None \<Rightarrow> None | Some el \<Rightarrow> parse_events (el # stack) root evs)
      | EvEmpty r l \<Rightarrow>
          (case element_of r l of
             None \<Rightarrow> None
           | Some el \<Rightarrow>
               (case attach stack root el of
                  None \<Rightarrow> None
                | Some (stack', root') \<Rightarrow> parse_events stack' root' evs))
      | EvEnd \<Rightarrow>
          (case stack of
             [] \<Rightarrow> None
           | el # rest \<Rightarrow>
               (case attach rest root el of
                  None \<Rightarrow> None
                | Some (stack', root') \<Rightarrow> parse_events stack' root' evs))
      | EvText t \<Rightarrow>
          (case t of
             None \<Rightarrow> None
           | Some t \<Rightarrow>
               (case stack of
                  p # rest \<Rightarrow> parse_events (add_text p t # rest) root evs
                | [] \<Rightarrow> if trim t \<noteq> [] then None else parse_events [] root evs))
      | EvCData t \<Rightarrow>
          if \<not> utf8_valid t then None
          else
            (case stack of
               p # rest \<Rightarrow> parse_events (add_text p t # rest) root evs
             | [] \<Rightarrow> parse_events [] root evs)
      | EvOther \<Rightarrow> parse_events stack root evs
      | EvFail \<Rightarrow> None
      | EvEof \<Rightarrow> if stack \<noteq> [] then None else root)"

definition xml_parse :: "event list \<Rightarrow> element option" where
  "xml_parse evs = parse_events [] None evs"

section \<open>The events of a document\<close>

text \<open>The events a document of one element gives: its tag, its text, its children.\<close>

fun events_of :: "element \<Rightarrow> event list" where
  "events_of (Element n l cs tx) =
     EvStart (case n of Some n \<Rightarrow> NsBound n | None \<Rightarrow> NsUnbound) l #
     (if tx = [] then [] else [EvText (Some tx)]) @ concat (map events_of cs) @ [EvEnd]"

fun utf8_element :: "element \<Rightarrow> bool" where
  "utf8_element (Element n l cs tx) \<longleftrightarrow>
     (case n of Some n \<Rightarrow> utf8_valid n | None \<Rightarrow> True) \<and> utf8_valid l \<and> list_all utf8_element cs"

lemma parse_events_children:
  assumes "\<And>c stack root evs. c \<in> set rest \<Longrightarrow>
      parse_events stack root (events_of c @ evs) =
        (case attach stack root c of
           None \<Rightarrow> None | Some (stack', root') \<Rightarrow> parse_events stack' root' evs)"
  shows "parse_events (Element n l pre tx # stack) root (concat (map events_of rest) @ evs) =
         parse_events (Element n l (pre @ rest) tx # stack) root evs"
  using assms
  by (induction rest arbitrary: pre) (simp_all add: attach_def add_child_def)

lemma element_of_head:
  "utf8_element (Element n l cs tx) \<Longrightarrow>
     element_of (case n of Some n \<Rightarrow> NsBound n | None \<Rightarrow> NsUnbound) l = Some (Element n l [] [])"
  by (auto simp: element_of_def split: option.splits)

lemma parse_events_element:
  "utf8_element el \<Longrightarrow>
   parse_events stack root (events_of el @ evs) =
     (case attach stack root el of
        None \<Rightarrow> None | Some (stack', root') \<Rightarrow> parse_events stack' root' evs)"
proof (induction el arbitrary: stack root evs)
  case (Element n l cs tx)
  have "parse_events (Element n l [] tx # stack) root (concat (map events_of cs) @ EvEnd # evs) =
      parse_events (Element n l ([] @ cs) tx # stack) root (EvEnd # evs)"
    by (rule parse_events_children, rule Element.IH) (use Element.prems in \<open>auto simp: list_all_iff\<close>)
  with element_of_head [OF Element.prems] show ?case
    by (cases "tx = []") (simp_all add: add_text_def)
qed

lemma parse_events_open:
  assumes "utf8_element el"
  shows "parse_events stack root
           (EvStart (case ns el of Some n \<Rightarrow> NsBound n | None \<Rightarrow> NsUnbound) (loc el) #
            (if etext el = [] then [] else [EvText (Some (etext el))]) @
            concat (map events_of (children el)) @ evs) = parse_events (el # stack) root evs"
proof (cases el)
  case (Element n l cs tx)
  have "parse_events (Element n l [] tx # stack) root (concat (map events_of cs) @ evs) =
      parse_events (Element n l ([] @ cs) tx # stack) root evs"
    by (rule parse_events_children, rule parse_events_element)
      (use assms in \<open>auto simp: list_all_iff Element\<close>)
  with element_of_head [of n l cs tx] assms show ?thesis
    by (cases "tx = []") (simp_all add: add_text_def Element)
qed

lemma escape_text_Cons: "escape_text (c # s) = escape_char c @ escape_text s"
  by (simp add: escape_text_def)

lemma escape_text_safe: "c \<in> set (escape_text s) \<Longrightarrow> c \<noteq> CHR ''<'' \<and> c \<noteq> CHR ''>''"
  by (induction s) (auto simp: escape_text_Cons escape_text_def split: if_splits)

section \<open>Properties\<close>

text \<open>
  Parsing the events of a document gives back exactly the element the document spells,
  with its namespace, children in order and text; a second root element, an unclosed one or
  text outside the root is refused.
\<close>

theorem xml_parse_document:
  assumes "utf8_element el" and "utf8_element el'" and "trim t \<noteq> []"
  shows "xml_parse (events_of el @ [EvEof]) = Some el \<and>
         xml_parse (events_of el @ events_of el' @ [EvEof]) = None \<and>
         xml_parse (events_of el @ [EvText (Some t), EvEof]) = None \<and>
         xml_parse (butlast (events_of el) @ [EvEof]) = None"
proof (intro conjI)
  show "xml_parse (butlast (events_of el) @ [EvEof]) = None"
  proof (cases el)
    case (Element n l cs tx)
    have "butlast (events_of el) = EvStart (case ns el of Some n \<Rightarrow> NsBound n | None \<Rightarrow> NsUnbound) (loc el) #
        (if etext el = [] then [] else [EvText (Some (etext el))]) @ concat (map events_of (children el))"
      by (simp add: Element butlast_append)
    with parse_events_open [OF assms(1), of "[]" None "[EvEof]"] show ?thesis
      by (simp add: xml_parse_def)
  qed
qed (simp_all add: xml_parse_def parse_events_element assms attach_def)

definition demo_element :: element where
  "demo_element = Element (Some dav_ns) ''lockinfo''
     [Element (Some dav_ns) ''lockscope'' [Element (Some dav_ns) ''exclusive'' [] []] [],
      Element None ''owner'' [] ''a & b''] []"

theorem xml_parse_document_witness:
  "xml_parse (events_of demo_element @ [EvEof]) = Some demo_element \<and>
   xml_parse (events_of demo_element @ events_of demo_element @ [EvEof]) = None"
proof -
  have u: "utf8_element demo_element" by code_simp
  have t: "trim ''x'' \<noteq> []" by (subst trim_solid) (simp_all add: solid_def)
  from xml_parse_document [OF u u t] show ?thesis by simp
qed

end
