(* ===== verification/Auth_Paths.thy ===== *)
theory Auth_Paths
  imports Reader_Tree
begin

text \<open>
  \<open>bunko-server/src/auth/paths.rs\<close>: the path predicates the authorisation table is written
  in. Paths are percent-decoded UTF-8; the decoder of the \<open>percent-encoding\<close> crate is the
  parameter \<open>pct_decode\<close>.
\<close>

definition normalized :: "string \<Rightarrow> string" where
  "normalized path = CHR ''/'' # trim_c CHR ''/'' path"

definition reader_relative :: "string \<Rightarrow> string option" where
  "reader_relative path = strip_prefix ''/mokuro-reader/'' (normalized path)"

definition is_progress_path :: "string \<Rightarrow> bool" where
  "is_progress_path path =
     (case reader_relative path of Some r \<Rightarrow> is_per_user_rel r | None \<Rightarrow> False)"

definition is_history_path :: "string \<Rightarrow> bool" where
  "is_history_path path =
     (case reader_relative path of Some r \<Rightarrow> is_history_rel r | None \<Rightarrow> False)"

definition is_library_path :: "string \<Rightarrow> bool" where
  "is_library_path path =
     (case reader_relative path of
        Some r \<Rightarrow> trim_c CHR ''/'' r \<noteq> [] \<and> \<not> is_per_user_rel r
      | None \<Rightarrow> False)"

definition is_inbox_path :: "string \<Rightarrow> bool" where
  "is_inbox_path path \<longleftrightarrow> path = ''/inbox'' \<or> starts_with path ''/inbox/''"

definition is_admin_path :: "string \<Rightarrow> bool" where
  "is_admin_path path \<longleftrightarrow> starts_with path ''/_admin''"

definition is_processor_path :: "string \<Rightarrow> bool" where
  "is_processor_path path \<longleftrightarrow> path = ''/_processor'' \<or> starts_with path ''/_processor/''"

definition is_invites_admin_api_path :: "string \<Rightarrow> bool" where
  "is_invites_admin_api_path path \<longleftrightarrow>
     path = ''/_admin/api/invites'' \<or> starts_with path ''/_admin/api/invites/''"

definition posix_normpath :: "string \<Rightarrow> string" where
  "posix_normpath path = CHR ''/'' # join_c CHR ''/'' (norm_segs [] (split_c CHR ''/'' path))"

definition library_relative_normalized :: "string \<Rightarrow> string option" where
  "library_relative_normalized path =
     (case strip_prefix ''/mokuro-reader/'' (posix_normpath (CHR ''/'' # trim_c CHR ''/'' path)) of
        None \<Rightarrow> None
      | Some rel \<Rightarrow> if rel = [] \<or> is_per_user_rel rel then None else Some rel)"

definition is_catalog_file_path :: "string \<Rightarrow> bool" where
  "is_catalog_file_path path =
     (case library_relative_normalized path of
        Some r \<Rightarrow> eq_ignore_ascii_case r ''catalog.json''
      | None \<Rightarrow> False)"

definition series_title_from_series_file_path :: "string \<Rightarrow> string option" where
  "series_title_from_series_file_path path =
     (case library_relative_normalized path of
        None \<Rightarrow> None
      | Some rel \<Rightarrow>
          (case rsplit_once_c CHR ''/'' rel of
             None \<Rightarrow> None
           | Some (head, tail) \<Rightarrow>
               if \<not> eq_ignore_ascii_case tail ''series.json'' \<or> List.member head CHR ''/'' \<or> trim head = []
               then None else Some head))"

definition is_series_file_path :: "string \<Rightarrow> bool" where
  "is_series_file_path path \<longleftrightarrow> series_title_from_series_file_path path \<noteq> None"

definition is_compiled_metadata_path :: "string \<Rightarrow> bool" where
  "is_compiled_metadata_path path \<longleftrightarrow> is_catalog_file_path path \<or> is_series_file_path path"

definition destination_path :: "(string \<Rightarrow> string) \<Rightarrow> string \<Rightarrow> string option" where
  "destination_path pct_decode header =
     (let decoded = pct_decode header in
      if \<not> utf8_valid decoded then None
      else
        let path =
              (case split_once_str ''://'' decoded of
                 Some (_, rest) \<Rightarrow> dropWhile (\<lambda>c. c \<noteq> CHR ''/'') rest
               | None \<Rightarrow> decoded);
            path = takeWhile (\<lambda>c. c \<noteq> CHR ''?'' \<and> c \<noteq> CHR ''#'') path
        in if path = [] then None else Some path)"

section \<open>Lemmas\<close>

lemma reader_relative_Some_iff:
  "reader_relative path = Some r \<longleftrightarrow> trim_c CHR ''/'' path = ''mokuro-reader/'' @ r"
  by (simp add: reader_relative_def normalized_def strip_prefix_Some_iff)

text \<open>What is left of a normalised path below the reader root does not end in a slash.\<close>

lemma reader_relative_trimmed:
  assumes "reader_relative path = Some r"
  shows "r \<noteq> [] \<and> last r \<noteq> CHR ''/''"
proof -
  from assms have eq: "trim_c CHR ''/'' path = ''mokuro-reader/'' @ r"
    by (simp add: reader_relative_Some_iff)
  then have "last (''mokuro-reader/'' @ r) \<noteq> CHR ''/''"
    using trim_c_ends(2) [of "CHR ''/''" path] by simp
  then show ?thesis by (cases "r = []") auto
qed

lemma trim_c_last_neq: "r \<noteq> [] \<Longrightarrow> last r \<noteq> c \<Longrightarrow> trim_c c r \<noteq> []"
proof
  assume r: "r \<noteq> []" "last r \<noteq> c" and "trim_c c r = []"
  then have "trim_start_c c r = []"
    using hd_trim_end_c [of "trim_start_c c r" c] hd_trim_start_c [of c r]
    by (auto simp: trim_c_def)
  then have "set r \<subseteq> {c}" by (rule trim_start_c_eq_Nil)
  with r last_in_set [of r] show False by blast
qed

lemma is_library_path_iff:
  "is_library_path path \<longleftrightarrow> (\<exists>r. reader_relative path = Some r \<and> \<not> is_per_user_rel r)"
  using reader_relative_trimmed [of path] trim_c_last_neq
  by (fastforce simp: is_library_path_def split: option.splits)

lemma progress_not_library: "is_progress_path path \<Longrightarrow> \<not> is_library_path path"
  by (auto simp: is_progress_path_def is_library_path_def split: option.splits)

lemma history_is_progress: "is_history_path path \<Longrightarrow> is_progress_path path"
  by (auto simp: is_progress_path_def is_history_path_def history_rel_per_user split: option.splits)

lemma normalized_idem [simp]: "normalized (normalized path) = normalized path"
  by (simp add: normalized_def)

lemma reader_relative_normalized [simp]: "reader_relative (normalized path) = reader_relative path"
  by (simp add: reader_relative_def)

lemma posix_normpath_trim:
  "posix_normpath (CHR ''/'' # trim_c CHR ''/'' path) = posix_normpath path"
proof -
  have "norm_segs [] (split_c CHR ''/'' (trim_c CHR ''/'' path)) = norm_segs [] (split_c CHR ''/'' path)"
    by (metis filter_split_c_trim norm_segs_filter)
  then show ?thesis by (simp add: posix_normpath_def)
qed

text \<open>Normalisation is idempotent.\<close>

lemma posix_normpath_idem [simp]: "posix_normpath (posix_normpath path) = posix_normpath path"
proof -
  let ?segs = "norm_segs [] (split_c CHR ''/'' path)"
  have clean: "list_all plain_segment ?segs"
    by (rule norm_segs_clean) simp
  have nosep: "\<And>x. x \<in> set ?segs \<Longrightarrow> CHR ''/'' \<notin> set x"
    by (auto dest!: norm_segs_subset split_c_parts)
  have "norm_segs [] (split_c CHR ''/'' (join_c CHR ''/'' ?segs)) = ?segs"
  proof (cases "?segs = []")
    case False
    then have "split_c CHR ''/'' (join_c CHR ''/'' ?segs) = ?segs"
      using nosep by (rule split_join_c)
    with clean norm_segs_id [of ?segs "[]"] show ?thesis by simp
  qed simp
  then show ?thesis by (simp add: posix_normpath_def)
qed

end
