(* ===== verification/Dav_Paths.thy ===== *)
theory Dav_Paths
  imports Auth_Paths
begin

text \<open>
  \<open>bunko-dav/src/paths.rs\<close>: decoding, classification and physical resolution of virtual DAV
  paths. Percent-decoding and -encoding are the \<open>percent-encoding\<close> crate's, a parameter
  where they are used. The file system is a parameter too: \<open>fs p\<close> is what
  \<open>symlink_metadata\<close> says of the path \<open>p\<close>, given as its components below the root.
\<close>

section \<open>Classification\<close>

definition is_per_user_name :: "string \<Rightarrow> bool" where
  "is_per_user_name name \<longleftrightarrow> List.member per_user_files name"

definition decode_request_path :: "(string \<Rightarrow> string) \<Rightarrow> string \<Rightarrow> string option" where
  "decode_request_path pct_decode raw =
     (let bytes = pct_decode raw in
      if List.member bytes CHR 0x00 then None
      else if utf8_valid bytes then Some bytes else None)"

definition normalize :: "string \<Rightarrow> string" where
  "normalize path = CHR ''/'' # trim_c CHR ''/'' path"

datatype dav_target =
    TRoot | TReaderRoot | TProgress string | TLibrary string | TInbox | TOther

datatype path_class = CRoot | CReaderRoot | CProgress | CLibrary | CInbox | CUnknown

definition classify :: "string \<Rightarrow> dav_target" where
  "classify path =
     (let norm = normalize path; reader = CHR ''/'' # reader_root in
      if norm = ''/'' then TRoot
      else if norm = reader then TReaderRoot
      else
        (case strip_prefix (reader @ ''/'') norm of
           Some rel \<Rightarrow>
             if is_per_user_rel rel then TProgress (trim_c CHR ''/'' rel) else TLibrary rel
         | None \<Rightarrow>
             if norm = ''/inbox'' \<or> starts_with norm ''/inbox/'' then TInbox else TOther))"

definition dav_is_history_path :: "string \<Rightarrow> bool" where
  "dav_is_history_path path =
     (case classify path of TProgress rel \<Rightarrow> is_history_rel rel | _ \<Rightarrow> False)"

definition class_of :: "string \<Rightarrow> path_class" where
  "class_of path =
     (case classify path of
        TRoot \<Rightarrow> CRoot
      | TReaderRoot \<Rightarrow> CReaderRoot
      | TProgress _ \<Rightarrow> CProgress
      | TLibrary _ \<Rightarrow> CLibrary
      | TInbox \<Rightarrow> CInbox
      | TOther \<Rightarrow> CUnknown)"

section \<open>URI helpers\<close>

definition uri_parent :: "string \<Rightarrow> string option" where
  "uri_parent path =
     (if trim path = [] \<or> trim path = ''/'' then None
      else map_option (\<lambda>(a, b). a @ ''/'') (rsplit_once_c CHR ''/'' (trim_end_c CHR ''/'' path)))"

definition uri_name :: "string \<Rightarrow> string" where
  "uri_name path = last (split_c CHR ''/'' (trim_c CHR ''/'' path))"

definition join_uri :: "string \<Rightarrow> string \<Rightarrow> string" where
  "join_uri base name = trim_end_c CHR ''/'' base @ ''/'' @ trim_start_c CHR ''/'' name"

definition is_equal_or_child :: "string \<Rightarrow> string \<Rightarrow> bool" where
  "is_equal_or_child parent child =
     starts_with (trim_end_c CHR ''/'' child @ ''/'') (trim_end_c CHR ''/'' parent @ ''/'')"

definition py_suffix :: "string \<Rightarrow> string" where
  "py_suffix name =
     (case rsplit_once_c CHR ''.'' name of
        Some (a, b) \<Rightarrow> if a \<noteq> [] \<and> b \<noteq> [] then CHR ''.'' # b else []
      | None \<Rightarrow> [])"

definition py_stem :: "string \<Rightarrow> string" where
  "py_stem name = take (length name - length (py_suffix name)) name"

definition lexical_normpath :: "string \<Rightarrow> string" where
  "lexical_normpath path = CHR ''/'' # join_c CHR ''/'' (norm_segs [] (split_c CHR ''/'' path))"

definition dav_is_compiled_metadata_path :: "string \<Rightarrow> bool" where
  "dav_is_compiled_metadata_path path =
     (case strip_prefix (CHR ''/'' # reader_root @ ''/'') (lexical_normpath path) of
        None \<Rightarrow> False
      | Some rel \<Rightarrow>
          if rel = [] \<or> is_per_user_rel rel then False
          else if eq_ignore_ascii_case rel ''catalog.json'' then True
          else
            (case split_c CHR ''/'' rel of
               [a, b] \<Rightarrow> trim a \<noteq> [] \<and> eq_ignore_ascii_case b ''series.json''
             | _ \<Rightarrow> False))"

definition is_staging_name :: "string \<Rightarrow> bool" where
  "is_staging_name name \<longleftrightarrow>
     starts_with name ''.'' \<and> ends_with name ''.tmp'' \<and> contains_str name ''.upload-''"

section \<open>Physical resolution\<close>

text \<open>
  What \<open>symlink_metadata\<close> reports: an error, a symbolic link (whose target \<open>read_link\<close> may
  fail to give: \<open>None\<close>), or anything else. A link target is absolute or relative and a
  list of components as \<open>Path::components\<close> yields them.
\<close>

datatype link_comp = CurDir | ParentDir | Normal string

record link_target =
  link_absolute :: bool
  link_comps :: "link_comp list"

datatype fs_entry = NoMeta | Symlink "link_target option" | Present

type_synonym file_system = "fs_path \<Rightarrow> fs_entry"

fun link_front :: "link_comp list \<Rightarrow> string list" where
  "link_front [] = []"
| "link_front (CurDir # cs) = link_front cs"
| "link_front (ParentDir # cs) = ''..'' # link_front cs"
| "link_front (Normal n # cs) = n # link_front cs"

text \<open>The loop of \<open>resolve_under\<close>: the path so far, the components still to push, the number
  of links followed and whether components are still probed.\<close>

function resolve_loop ::
  "file_system \<Rightarrow> fs_path \<Rightarrow> string list \<Rightarrow> nat \<Rightarrow> bool \<Rightarrow> fs_path option" where
  "resolve_loop fs cur [] links probing = Some cur"
| "resolve_loop fs cur (seg # pending) links probing =
     (if seg = [] \<or> seg = ''.'' then resolve_loop fs cur pending links probing
      else if seg = ''..'' then
        (if \<not> probing then None else resolve_loop fs (butlast cur) pending links probing)
      else
        let cur' = cur @ [seg] in
        if \<not> probing then resolve_loop fs cur' pending links probing
        else
          (case fs cur' of
             Symlink target \<Rightarrow>
               if 40 < Suc links then None
               else
                 (case target of
                    None \<Rightarrow> None
                  | Some t \<Rightarrow>
                      resolve_loop fs (if link_absolute t then [] else cur)
                        (link_front (link_comps t) @ pending) (Suc links) probing)
           | Present \<Rightarrow> resolve_loop fs cur' pending links probing
           | NoMeta \<Rightarrow> resolve_loop fs cur' pending links False))"
  by pat_completeness auto
termination
  by (relation "measures [\<lambda>(fs, cur, pending, links, probing). 40 - links,
                          \<lambda>(fs, cur, pending, links, probing). length pending]") auto

definition resolve_under :: "file_system \<Rightarrow> fs_path \<Rightarrow> string \<Rightarrow> fs_path option" where
  "resolve_under fs base rel =
     (case resolve_loop fs base (split_c CHR ''/'' rel) 0 True of
        Some cur \<Rightarrow> if starts_with cur base then Some cur else None
      | None \<Rightarrow> None)"

definition relative_posix :: "fs_path \<Rightarrow> fs_path \<Rightarrow> string option" where
  "relative_posix path base = map_option (join_c CHR ''/'') (strip_prefix base path)"

section \<open>Lemmas: classification\<close>

lemma normalize_eq_normalized: "normalize = normalized"
  by (auto simp: normalize_def normalized_def)

lemma reader_prefix: "CHR ''/'' # reader_root @ ''/'' = ''/mokuro-reader/''"
  by (simp add: reader_root_def)

lemma classify_cases:
  "classify path =
     (case reader_relative path of
        Some rel \<Rightarrow> if is_per_user_rel rel then TProgress (trim_c CHR ''/'' rel) else TLibrary rel
      | None \<Rightarrow>
          if normalized path = ''/'' then TRoot
          else if normalized path = ''/mokuro-reader'' then TReaderRoot
          else if normalized path = ''/inbox'' \<or> starts_with (normalized path) ''/inbox/'' then TInbox
          else TOther)"
proof -
  have "reader_relative path = None" if "normalized path = ''/'' \<or> normalized path = ''/mokuro-reader''"
    using that by (auto simp: reader_relative_def)
  then show ?thesis
    by (auto simp: classify_def Let_def normalize_eq_normalized reader_root_def reader_relative_def
        split: option.splits)
qed

lemma classify_progress_iff:
  "classify path = TProgress r \<longleftrightarrow>
     (\<exists>rel. reader_relative path = Some rel \<and> is_per_user_rel rel \<and> r = trim_c CHR ''/'' rel)"
  by (auto simp: classify_cases split: option.splits)

lemma classify_library_iff:
  "classify path = TLibrary r \<longleftrightarrow> reader_relative path = Some r \<and> \<not> is_per_user_rel r"
  by (auto simp: classify_cases split: option.splits)

lemma lexical_eq_posix: "lexical_normpath = posix_normpath"
  by (auto simp: lexical_normpath_def posix_normpath_def)

section \<open>Lemmas: physical resolution\<close>

text \<open>A path none of whose non-empty prefixes is a symbolic link.\<close>

definition link_free :: "file_system \<Rightarrow> fs_path \<Rightarrow> bool" where
  "link_free fs p \<longleftrightarrow> (\<forall>n. 0 < n \<and> n \<le> length p \<longrightarrow> (\<forall>t. fs (take n p) \<noteq> Symlink t))"

text \<open>Below a path that \<open>symlink_metadata\<close> cannot read, it can read nothing.\<close>

definition closed_below :: "file_system \<Rightarrow> bool" where
  "closed_below fs \<longleftrightarrow> (\<forall>p x. fs p = NoMeta \<longrightarrow> fs (p @ [x]) = NoMeta)"

lemma link_free_Nil [simp]: "link_free fs []"
  by (auto simp: link_free_def)

lemma closed_belowD: "closed_below fs \<Longrightarrow> fs p = NoMeta \<Longrightarrow> fs (p @ [x]) = NoMeta"
  unfolding closed_below_def by blast

lemma link_free_snoc:
  "link_free fs (p @ [x]) \<longleftrightarrow> link_free fs p \<and> (\<forall>t. fs (p @ [x]) \<noteq> Symlink t)" (is "?l = ?r")
proof
  assume l: ?l
  have "fs (take n p) \<noteq> Symlink t" if "0 < n" "n \<le> length p" for n t
    using l that by (auto simp: link_free_def dest: spec [of _ n])
  moreover have "fs (p @ [x]) \<noteq> Symlink t" for t
    using l by (auto simp: link_free_def dest: spec [of _ "Suc (length p)"])
  ultimately show ?r by (simp add: link_free_def)
next
  assume r: ?r
  have "fs (take n (p @ [x])) \<noteq> Symlink t" if "0 < n" "n \<le> length (p @ [x])" for n t
    using r that by (cases "n = Suc (length p)") (simp_all add: link_free_def)
  then show ?l by (simp add: link_free_def)
qed

lemma link_free_butlast: "link_free fs p \<Longrightarrow> link_free fs (butlast p)"
  by (cases p rule: rev_cases) (auto simp: link_free_snoc)

lemma link_free_append: "link_free fs (p @ q) \<Longrightarrow> link_free fs p"
proof (induction q rule: rev_induct)
  case (snoc x q)
  then show ?case using link_free_snoc [of fs "p @ q" x] by simp
qed simp

lemma link_free_step:
  "link_free fs cur \<Longrightarrow> fs (cur @ [x]) = Present \<or> fs (cur @ [x]) = NoMeta \<Longrightarrow> link_free fs (cur @ [x])"
  by (auto simp: link_free_snoc)

lemma resolve_loop_link_free:
  "resolve_loop fs cur pending links probing = Some p \<Longrightarrow> link_free fs cur \<Longrightarrow>
    (\<not> probing \<Longrightarrow> fs cur = NoMeta) \<Longrightarrow> closed_below fs \<Longrightarrow> link_free fs p"
proof (induction fs cur pending links probing rule: resolve_loop.induct)
  case (2 fs cur seg pending links probing)
  show ?case
  proof (cases "seg = [] \<or> seg = ''.''")
    case True
    with 2 show ?thesis by simp
  next
    case ne: False
    show ?thesis
    proof (cases "seg = ''..''")
      case True
      with ne 2 show ?thesis by (auto split: if_splits intro: link_free_butlast)
    next
      case False
      show ?thesis
      proof (cases probing)
        case True
        with ne False 2 show ?thesis
          by (auto simp: Let_def intro: link_free_step split: fs_entry.splits option.splits if_splits)
      next
        case np: False
        then have "fs (cur @ [seg]) = NoMeta"
          using "2.prems"(3,4) by (simp add: closed_belowD)
        with np ne False 2 show ?thesis
          by (auto simp: Let_def intro: link_free_step)
      qed
    qed
  qed
qed simp

text \<open>A relative path of plain components that meets no link is only appended.\<close>

lemma resolve_loop_plain:
  "list_all (\<lambda>s. s \<noteq> ''..'') pending \<Longrightarrow>
    link_free fs (cur @ filter (\<lambda>s. s \<noteq> [] \<and> s \<noteq> ''.'') pending) \<Longrightarrow>
    resolve_loop fs cur pending links probing = Some (cur @ filter (\<lambda>s. s \<noteq> [] \<and> s \<noteq> ''.'') pending)"
proof (induction fs cur pending links probing rule: resolve_loop.induct)
  case (2 fs cur seg pending links probing)
  show ?case
  proof (cases "seg = [] \<or> seg = ''.''")
    case False
    then have "link_free fs ((cur @ [seg]) @ filter (\<lambda>s. s \<noteq> [] \<and> s \<noteq> ''.'') pending)"
      using "2.prems"(2) by simp
    then have "link_free fs (cur @ [seg])" by (rule link_free_append)
    then have nolink: "\<And>t. fs (cur @ [seg]) \<noteq> Symlink t" by (simp add: link_free_snoc)
    with False 2 show ?thesis
      by (cases "fs (cur @ [seg])") (auto simp: Let_def)
  qed (use 2 in auto)
qed simp

section \<open>Properties\<close>

text \<open>
  The authorisation layer and the DAV layer classify every path alike: what DAV serves
  as the library is a library path for the authorisation table, what it serves from the
  account's own tree is a progress path, and likewise for the reading history.
\<close>

theorem dav_auth_classify_agree:
  "((\<exists>r. classify path = TLibrary r) \<longleftrightarrow> is_library_path path) \<and>
   ((\<exists>r. classify path = TProgress r) \<longleftrightarrow> is_progress_path path) \<and>
   (dav_is_history_path path \<longleftrightarrow> is_history_path path)"
proof (intro conjI)
  show "(\<exists>r. classify path = TLibrary r) \<longleftrightarrow> is_library_path path"
    by (auto simp: classify_library_iff is_library_path_iff)
  show "(\<exists>r. classify path = TProgress r) \<longleftrightarrow> is_progress_path path"
    by (auto simp: classify_progress_iff is_progress_path_def split: option.splits)
  show "dav_is_history_path path \<longleftrightarrow> is_history_path path"
    by (auto simp: dav_is_history_path_def classify_cases is_history_path_def
        dest: history_rel_per_user split: option.splits)
qed

text \<open>
  The two independent implementations of "is this a file the server compiles" (the
  authorisation layer's and the DAV layer's) decide every path alike.
\<close>

theorem compiled_metadata_agree:
  "dav_is_compiled_metadata_path path \<longleftrightarrow> is_compiled_metadata_path path"
proof -
  have rel: "library_relative_normalized path =
      (case strip_prefix ''/mokuro-reader/'' (posix_normpath path) of
         None \<Rightarrow> None
       | Some rel \<Rightarrow> if rel = [] \<or> is_per_user_rel rel then None else Some rel)"
    by (simp add: library_relative_normalized_def posix_normpath_trim)
  have two: "(case split_c CHR ''/'' rel of
        [a, b] \<Rightarrow> trim a \<noteq> [] \<and> eq_ignore_ascii_case b ''series.json'' | _ \<Rightarrow> False) \<longleftrightarrow>
      (\<exists>a b. rsplit_once_c CHR ''/'' rel = Some (a, b) \<and> CHR ''/'' \<notin> set a \<and> trim a \<noteq> [] \<and>
        eq_ignore_ascii_case b ''series.json'')" for rel
  proof -
    have "(case split_c CHR ''/'' rel of
        [a, b] \<Rightarrow> trim a \<noteq> [] \<and> eq_ignore_ascii_case b ''series.json'' | _ \<Rightarrow> False) \<longleftrightarrow>
      (\<exists>a b. split_c CHR ''/'' rel = [a, b] \<and> trim a \<noteq> [] \<and> eq_ignore_ascii_case b ''series.json'')"
      by (auto split: list.splits)
    then show ?thesis by (auto simp: split_c_two_iff rsplit_once_c_Some_iff)
  qed
  have series: "is_series_file_path path \<longleftrightarrow>
      (\<exists>rel. library_relative_normalized path = Some rel \<and>
        (\<exists>a b. rsplit_once_c CHR ''/'' rel = Some (a, b) \<and> CHR ''/'' \<notin> set a \<and> trim a \<noteq> [] \<and>
          eq_ignore_ascii_case b ''series.json''))"
    by (auto simp: is_series_file_path_def series_title_from_series_file_path_def
        split: option.splits prod.splits if_splits)
  show ?thesis
    unfolding dav_is_compiled_metadata_path_def is_compiled_metadata_path_def series
      is_catalog_file_path_def lexical_eq_posix reader_prefix two
    by (auto simp: rel split: option.splits if_splits)
qed

text \<open>
  C3: Path resolution cannot be led out of its base: a resolved path lies below the base
  directory and, when the base itself is free of symbolic links (it is canonical), no
  component of the resolved path is a symbolic link, so opening it cannot leave the base
  either. Links met on the way have been replaced by their targets.
\<close>

theorem resolve_under_contained:
  assumes "resolve_under fs base rel = Some p"
    and "link_free fs base" and "closed_below fs"
  shows "starts_with p base \<and> link_free fs p"
proof -
  from assms(1) have loop: "resolve_loop fs base (split_c CHR ''/'' rel) 0 True = Some p"
    and sw: "starts_with p base"
    by (auto simp: resolve_under_def split: option.splits if_splits)
  from resolve_loop_link_free [OF loop assms(2) _ assms(3)] sw show ?thesis by simp
qed

definition demo_fs :: file_system where
  "demo_fs p =
     (if p = [''srv'', ''lib'', ''inside''] then
        Symlink (Some \<lparr>link_absolute = False, link_comps = [CurDir, Normal ''S'']\<rparr>)
      else if p = [] \<or> p = [''srv''] \<or> p = [''srv'', ''lib''] \<or> p = [''srv'', ''lib'', ''S''] then Present
      else NoMeta)"

theorem resolve_under_contained_witness:
  "resolve_under demo_fs [''srv'', ''lib''] ''inside/../S/v.cbz'' = Some [''srv'', ''lib'', ''S'', ''v.cbz''] \<and>
   link_free demo_fs [''srv'', ''lib'', ''S'', ''v.cbz'']"
proof -
  have r: "resolve_under demo_fs [''srv'', ''lib''] ''inside/../S/v.cbz'' = Some [''srv'', ''lib'', ''S'', ''v.cbz'']"
    by code_simp
  have l: "link_free demo_fs [''srv'', ''lib'']"
    using link_free_snoc [of demo_fs "[''srv'']" "''lib''"] link_free_snoc [of demo_fs "[]" "''srv''"]
    by (simp add: demo_fs_def)
  have c: "closed_below demo_fs"
    by (auto simp: closed_below_def demo_fs_def append_eq_Cons_conv split: if_splits)
  from resolve_under_contained [OF r l c] r show ?thesis by blast
qed

text \<open>
  A request path with no \<open>..\<close> component that meets no symbolic link is resolved to
  exactly its own components below the base.
\<close>

theorem resolve_under_plain:
  assumes "''..'' \<notin> set (split_c CHR ''/'' rel)"
    and "link_free fs (base @ filter (\<lambda>s. s \<noteq> [] \<and> s \<noteq> ''.'') (split_c CHR ''/'' rel))"
  shows "resolve_under fs base rel = Some (base @ filter (\<lambda>s. s \<noteq> [] \<and> s \<noteq> ''.'') (split_c CHR ''/'' rel))"
proof -
  have "list_all (\<lambda>s. s \<noteq> ''..'') (split_c CHR ''/'' rel)"
    using assms(1) by (auto simp: list_all_iff)
  from resolve_loop_plain [OF this assms(2)] show ?thesis by (simp add: resolve_under_def)
qed

theorem resolve_under_plain_witness:
  "resolve_under (\<lambda>_. Present) [''lib''] ''S//./v.cbz'' = Some [''lib'', ''S'', ''v.cbz'']"
proof -
  have a: "''..'' \<notin> set (split_c CHR ''/'' ''S//./v.cbz'')" by code_simp
  have b: "link_free (\<lambda>_. Present) ([''lib''] @ filter (\<lambda>s. s \<noteq> [] \<and> s \<noteq> ''.'')
      (split_c CHR ''/'' ''S//./v.cbz''))" by (simp add: link_free_def)
  have "filter (\<lambda>s. s \<noteq> [] \<and> s \<noteq> ''.'') (split_c CHR ''/'' ''S//./v.cbz'') = [''S'', ''v.cbz'']" by code_simp
  with resolve_under_plain [OF a b] show ?thesis by simp
qed

end
