(* ===== verification/Dav_Conditional.thy ===== *)
theory Dav_Conditional
  imports Dav_Paths
begin

text \<open>
  \<open>bunko-dav/src/conditional.rs\<close> and the body of GET in \<open>methods/read.rs\<close>: the HTTP
  preconditions, the DAV \<open>If\<close> header and byte ranges. \<open>headers name\<close> is the first value of
  the header when it is visible ASCII (\<open>HeaderMap::get\<close>, \<open>to_str\<close>); \<open>http_date\<close> is
  \<open>httpdate::parse_http_date\<close> as whole seconds since the epoch (\<open>None\<close> for no date or one
  before it), \<open>pct_decode\<close> the percent decoder. Sizes are natural numbers below \<open>2 ^ 64\<close>.
\<close>

type_synonym headers = "string \<Rightarrow> string option"
type_synonym http_date = "string \<Rightarrow> int option"

record dav_error =
  status :: nat
  econtext :: string
  lock_conflict :: "string list option"

definition dav_error_new :: "nat \<Rightarrow> string \<Rightarrow> dav_error" where
  "dav_error_new st ctx = \<lparr>status = st, econtext = ctx, lock_conflict = None\<rparr>"

definition dav_error_status :: "nat \<Rightarrow> dav_error" where
  "dav_error_status st = dav_error_new st []"

definition locked_by :: "string list \<Rightarrow> dav_error" where
  "locked_by hrefs = \<lparr>status = 423, econtext = [], lock_conflict = Some hrefs\<rparr>"

section \<open>HTTP preconditions\<close>

definition etag_of_item :: "string \<Rightarrow> string" where
  "etag_of_item raw =
     (let tag = trim raw;
          tag = (case strip_prefix ''W/'' tag of Some t \<Rightarrow> t | None \<Rightarrow> tag)
      in if length tag \<ge> 2 \<and> starts_with tag ''\"'' \<and> ends_with tag ''\"''
         then butlast (tl tag) else tag)"

definition parse_etag_list :: "string \<Rightarrow> string list" where
  "parse_etag_list value = filter (\<lambda>t. t \<noteq> []) (map etag_of_item (split_c CHR '','' value))"

definition parse_http_date :: "http_date \<Rightarrow> string \<Rightarrow> int option" where
  "parse_http_date http_date value = http_date (trim value)"

definition evaluate_http ::
  "http_date \<Rightarrow> headers \<Rightarrow> string \<Rightarrow> string option \<Rightarrow> int \<Rightarrow> dav_error + unit" where
  "evaluate_http http_date headers req_method etag last_modified =
     (let etag = (case etag of Some e \<Rightarrow> e | None \<Rightarrow> ''[]'');
          read = (req_method = ''GET'' \<or> req_method = ''HEAD'');
          hit = (\<lambda>v. list_ex (\<lambda>t. t = etag \<or> t = ''*'') (parse_etag_list v));
          if_match_failed = (case headers ''if-match'' of Some v \<Rightarrow> \<not> hit v | None \<Rightarrow> False);
          unmodified_failed =
            (case headers ''if-unmodified-since'' of
               Some v \<Rightarrow> (case parse_http_date http_date v of
                           Some since \<Rightarrow> since < last_modified | None \<Rightarrow> False)
             | None \<Rightarrow> False)
      in if if_match_failed then Inl (dav_error_new 412 ''If-Match header condition failed'')
         else if unmodified_failed
         then Inl (dav_error_new 412 ''If-Unmodified-Since header condition failed'')
         else
           (case headers ''if-none-match'' of
              Some v \<Rightarrow>
                if hit v
                then (if read then Inl (dav_error_status 304)
                      else Inl (dav_error_new 412 ''If-None-Match header condition failed''))
                else Inr ()
            | None \<Rightarrow>
                if read \<and>
                   (case headers ''if-modified-since'' of
                      Some v \<Rightarrow> (case parse_http_date http_date v of
                                  Some since \<Rightarrow> since \<ge> last_modified | None \<Rightarrow> False)
                    | None \<Rightarrow> False)
                then Inl (dav_error_status 304)
                else Inr ()))"

section \<open>The DAV \<open>If\<close> header\<close>

datatype cond = CondToken bool string | CondEtag bool string

record if_header =
  entries :: "(string \<times> cond list list) list"
  if_tokens :: "string list"

definition find_str :: "string \<Rightarrow> string \<Rightarrow> (string \<times> string) option" where
  "find_str p s = split_once_str p s"

definition normalize_tag :: "(string \<Rightarrow> string) \<Rightarrow> string \<Rightarrow> string" where
  "normalize_tag pct_decode tag =
     (if tag = ''*'' then ''*''
      else
        let path =
          (case find_str ''://'' tag of
             Some (_, rest) \<Rightarrow>
               (case split_once_c CHR ''/'' rest of
                  Some (_, after) \<Rightarrow> CHR ''/'' # after
                | None \<Rightarrow> ''/'')
           | None \<Rightarrow> tag)
        in normalize
             (case decode_request_path pct_decode path of Some p \<Rightarrow> p | None \<Rightarrow> path))"

definition if_etag_text :: "string \<Rightarrow> string" where
  "if_etag_text item =
     (let s = trim_matches (\<lambda>c. c = CHR 0x22 \<or> c = CHR ''['' \<or> c = CHR '']'') item
      in trim_c CHR 0x22 (trim_pats [''W/''] s))"

fun if_items :: "bool \<Rightarrow> string list \<Rightarrow> cond list \<times> string list" where
  "if_items neg [] = ([], [])"
| "if_items neg (item # items) =
     (if eq_ignore_ascii_case item ''not'' then if_items True items
      else if starts_with item ''['' then
        (let (conds, toks) = if_items False items
         in (CondEtag neg (if_etag_text item) # conds, toks))
      else
        (let tok = trim_matches (\<lambda>c. c = CHR ''<'' \<or> c = CHR ''>'') item;
             (conds, toks) = if_items False items
         in (CondToken neg tok # conds, tok # toks)))"

fun add_entry ::
  "string \<Rightarrow> cond list \<Rightarrow> (string \<times> cond list list) list \<Rightarrow> (string \<times> cond list list) list" where
  "add_entry r conds [] = [(r, [conds])]"
| "add_entry r conds ((r', css) # es) =
     (if r' = r then (r', css @ [conds]) # es else (r', css) # add_entry r conds es)"

text \<open>The scanning loop of \<open>IfHeader::parse\<close>: the rest of the text, the current resource
  and what was collected.\<close>

lemma split_once_c_shorter: "split_once_c c s = Some (a, b) \<Longrightarrow> length b < length s"
  by (simp add: split_once_c_Some_iff)

function if_scan :: "(string \<Rightarrow> string) \<Rightarrow> string \<Rightarrow> string \<Rightarrow> if_header \<Rightarrow> if_header" where
  "if_scan pct_decode resource [] out = out"
| "if_scan pct_decode resource (c # rest) out =
     (if c = CHR ''<'' then
        (case split_once_c CHR ''>'' rest of
           Some (tag, after) \<Rightarrow> if_scan pct_decode (normalize_tag pct_decode tag) after out
         | None \<Rightarrow> if_scan pct_decode resource rest out)
      else if c = CHR ''('' then
        (case split_once_c CHR '')'' rest of
           None \<Rightarrow> out
         | Some (content, after) \<Rightarrow>
             let (conds, toks) = if_items False (split_whitespace content)
             in if_scan pct_decode resource after
                  \<lparr>entries = add_entry resource conds (entries out),
                   if_tokens = if_tokens out @ toks\<rparr>)
      else if_scan pct_decode resource rest out)"
  by pat_completeness auto
termination
  by (relation "measure (\<lambda>(_, _, s, _). length s)") (auto dest!: split_once_c_shorter)

definition parse_if :: "(string \<Rightarrow> string) \<Rightarrow> headers \<Rightarrow> if_header option" where
  "parse_if pct_decode headers =
     (case headers ''if'' of
        None \<Rightarrow> None
      | Some v \<Rightarrow>
          let raw = trim v;
              txt = (if starts_with raw ''<'' then raw else ''<*>'' @ raw)
          in Some (if_scan pct_decode ''*'' txt \<lparr>entries = [], if_tokens = []\<rparr>))"

fun cond_holds :: "string option \<Rightarrow> string list \<Rightarrow> cond \<Rightarrow> bool" where
  "cond_holds etag lock_tokens (CondEtag neg want) = ((etag = Some want) \<noteq> neg)"
| "cond_holds etag lock_tokens (CondToken neg tok) = (List.member lock_tokens tok \<noteq> neg)"

definition test_if :: "if_header \<Rightarrow> string \<Rightarrow> string option \<Rightarrow> string list \<Rightarrow> bool" where
  "test_if h path etag lock_tokens =
     (let key = normalize path in
      (case (case find (\<lambda>(r, _). r = key) (entries h) of
               Some e \<Rightarrow> Some e
             | None \<Rightarrow> find (\<lambda>(r, _). r = ''*'') (entries h)) of
         None \<Rightarrow> True
       | Some (_, css) \<Rightarrow> list_ex (list_all (cond_holds etag lock_tokens)) css))"

section \<open>Ranges\<close>

datatype range_outcome = Full | Partial nat nat

text \<open>One comma-separated part of the header, when it selects a part of the file.\<close>

definition range_of :: "nat \<Rightarrow> string \<Rightarrow> (nat \<times> nat) option" where
  "range_of sz spec =
     (case split_once_c CHR ''-'' (trim spec) of
        None \<Rightarrow> None
      | Some (a, b) \<Rightarrow>
          let a = trim a; b = trim b in
          if a = [] then
            (case parse_u64 b of
               None \<Rightarrow> None
             | Some n \<Rightarrow> if n = 0 \<or> sz = 0 then None else Some (sz - n, sz - 1))
          else
            (case parse_u64 a of
               None \<Rightarrow> None
             | Some start \<Rightarrow>
                 if start \<ge> sz then None
                 else if b = [] then Some (start, sz - 1)
                 else
                   (case parse_u64 b of
                      Some e \<Rightarrow> if e \<ge> start then Some (start, min e (sz - 1)) else None
                    | None \<Rightarrow> None)))"

definition parse_range :: "string \<Rightarrow> nat \<Rightarrow> dav_error + range_outcome" where
  "parse_range value sz =
     (case split_once_c CHR ''='' value of
        None \<Rightarrow> Inr Full
      | Some (unit, specs) \<Rightarrow>
          if \<not> eq_ignore_ascii_case (trim unit) ''bytes'' then Inr Full
          else
            let ranges = List.map_filter (range_of sz) (split_c CHR '','' specs) in
            if ranges = [] then
              Inl ((dav_error_new 416 ''No valid ranges present'')
                     \<lparr>econtext := ''bytes */'' @ show_nat sz\<rparr>)
            else Inr (Partial (min_list (map fst ranges)) (fold max (map snd ranges) 0)))"

definition if_range_holds :: "http_date \<Rightarrow> string \<Rightarrow> string \<Rightarrow> int \<Rightarrow> bool" where
  "if_range_holds http_date value etag last_modified =
     (case parse_http_date http_date value of
        Some s \<Rightarrow> s = last_modified
      | None \<Rightarrow> trim_matches (\<lambda>c. c = CHR 0x22 \<or> c = CHR '' '') value = etag)"

text \<open>
  The end of \<open>get\<close>: the file is open, its validators are \<open>etag\<close> and \<open>last_modified\<close>, its
  \<open>content\<close> is read from the descriptor; \<open>head\<close> says that only the headers are sent. The
  result is the status, the \<open>Content-Range\<close> header, the \<open>Content-Length\<close> header this code sets
  and the bytes of the file that are sent (a 416 carries a generated error page instead).
\<close>

record get_answer =
  ans_status :: nat
  content_range :: "string option"
  content_length :: "nat option"
  file_bytes :: string

definition serve_file ::
  "http_date \<Rightarrow> headers \<Rightarrow> bool \<Rightarrow> string \<Rightarrow> int \<Rightarrow> string \<Rightarrow> get_answer" where
  "serve_file http_date headers head etag last_modified content =
     (let sz = length content;
          range =
            (case headers ''range'' of
               Some value \<Rightarrow>
                 if sz > 0 \<and>
                    (case headers ''if-range'' of
                       Some c \<Rightarrow> if_range_holds http_date c etag last_modified
                     | None \<Rightarrow> True)
                 then parse_range value sz else Inr Full
             | None \<Rightarrow> Inr Full)
      in case range of
           Inl e \<Rightarrow> \<lparr>ans_status = 416, content_range = Some (econtext e), content_length = None,
                     file_bytes = []\<rparr>
         | Inr Full \<Rightarrow>
             \<lparr>ans_status = 200, content_range = None, content_length = Some sz,
              file_bytes = (if head then [] else take sz content)\<rparr>
         | Inr (Partial start e) \<Rightarrow>
             let len = e - start + 1 in
             \<lparr>ans_status = 206,
              content_range =
                Some (''bytes '' @ show_nat start @ ''-'' @ show_nat e @ ''/'' @ show_nat sz),
              content_length = Some len,
              file_bytes = (if head then [] else take len (drop start content))\<rparr>)"

section \<open>Lemmas\<close>

lemma range_of_bounds: "range_of sz spec = Some (a, b) \<Longrightarrow> a \<le> b \<and> b < sz"
  by (auto simp: range_of_def Let_def split: option.splits if_splits)

lemma fold_max_ge: "(m::nat) \<le> fold max xs m \<and> (\<forall>x\<in>set xs. x \<le> fold max xs m)"
proof (induction xs arbitrary: m)
  case (Cons x xs)
  from Cons [of "max x m"] show ?case by auto
qed simp

lemma fold_max_bound: "(m::nat) < n \<Longrightarrow> (\<forall>x\<in>set xs. x < n) \<Longrightarrow> fold max xs m < n"
  by (induction xs arbitrary: m) auto

lemma min_list_le: "x \<in> set xs \<Longrightarrow> min_list xs \<le> (x::nat)"
  by (metis Min_le List.finite_set empty_iff list.set(1) min_list_Min)

lemma parse_range_Inr_Partial:
  assumes "parse_range value sz = Inr (Partial a b)"
  shows "a \<le> b \<and> b < sz"
proof -
  from assms obtain specs where
    ne: "List.map_filter (range_of sz) (split_c CHR '','' specs) \<noteq> []"
    and a: "a = min_list (map fst (List.map_filter (range_of sz) (split_c CHR '','' specs)))"
    and b: "b = fold max (map snd (List.map_filter (range_of sz) (split_c CHR '','' specs))) 0"
    by (auto simp: parse_range_def Let_def split: option.splits if_splits)
  let ?rs = "List.map_filter (range_of sz) (split_c CHR '','' specs)"
  have rs: "x \<le> y \<and> y < sz" if "(x, y) \<in> set ?rs" for x y
    using that by (auto simp: set_map_filter dest: range_of_bounds)
  from ne obtain x y where xy: "(x, y) \<in> set ?rs" by (cases ?rs) auto
  have "a \<le> x" unfolding a by (rule min_list_le) (use xy in force)
  moreover have "y \<le> b" unfolding b using fold_max_ge [of 0 "map snd ?rs"] xy by force
  moreover have "b < sz" unfolding b using rs [OF xy] rs by (intro fold_max_bound) auto
  ultimately show ?thesis using rs [OF xy] by simp
qed

lemma no_sep_digits: "c \<in> set (show_nat n) \<Longrightarrow> c \<noteq> CHR '','' \<and> c \<noteq> CHR ''-'' \<and> c \<noteq> CHR ''=''"
  by (drule show_nat_set) (auto simp: is_ascii_digit_def less_eq_char_def)

lemma range_of_show:
  assumes "a < 2 ^ 64" "b < 2 ^ 64"
  shows "range_of sz (show_nat a @ ''-'' @ show_nat b) =
           (if a < sz \<and> a \<le> b then Some (a, min b (sz - 1)) else None)"
proof -
  have ne: "show_nat a \<noteq> []" "show_nat b \<noteq> []" by (simp_all add: show_nat_digits)
  have "trim (show_nat a @ ''-'' @ show_nat b) = show_nat a @ ''-'' @ show_nat b"
  proof (rule trim_solid)
    have "solid (hd (show_nat a))" by (rule solid_digit) (rule show_nat_hd)
    moreover have "solid (last (show_nat b))"
      by (rule solid_digit, rule show_nat_set [of _ b]) (simp add: ne)
    ultimately show "show_nat a @ ''-'' @ show_nat b = [] \<or>
        solid (hd (show_nat a @ ''-'' @ show_nat b)) \<and> solid (last (show_nat a @ ''-'' @ show_nat b))"
      using ne by simp
  qed
  moreover have "split_once_c CHR ''-'' (show_nat a @ ''-'' @ show_nat b) = Some (show_nat a, show_nat b)"
    using no_sep_digits [of "CHR ''-''" a] by (auto simp: split_once_c_Some_iff)
  ultimately show ?thesis
    using assms ne by (simp add: range_of_def parse_show_u64 Let_def)
qed

lemma etag_of_quoted: "etag_of_item (CHR 0x22 # e @ [CHR 0x22]) = e"
proof -
  have "trim (CHR 0x22 # e @ [CHR 0x22]) = CHR 0x22 # e @ [CHR 0x22]"
    by (rule trim_solid) (simp add: solid_def)
  then show ?thesis
    by (simp add: etag_of_item_def starts_with_iff ends_with_iff)
qed

lemma parse_etag_quoted:
  assumes "e \<noteq> []" and "CHR '','' \<notin> set e"
  shows "parse_etag_list (CHR 0x22 # e @ [CHR 0x22]) = [e]"
proof -
  have "split_c CHR '','' (CHR 0x22 # e @ [CHR 0x22]) = [CHR 0x22 # e @ [CHR 0x22]]"
    by (rule split_c_no_sep) (use assms in auto)
  with assms show ?thesis by (simp add: parse_etag_list_def etag_of_quoted)
qed

text \<open>The text \<open>(<token>)\<close> is scanned to one condition on that token.\<close>

definition token_char :: "char \<Rightarrow> bool" where
  "token_char c \<longleftrightarrow> solid c \<and> c \<notin> {CHR ''<'', CHR ''>'', CHR ''('', CHR '')''}"

lemma words_acc_solid: "\<forall>c\<in>set s. solid c \<Longrightarrow> words_acc w s = (if w @ s = [] then [] else [w @ s])"
  by (induction w s rule: words_acc.induct) (auto simp: solid_def is_ascii_space_def)

lemma eq_ignore_ascii_case_hd:
  "eq_ignore_ascii_case (c # s) (d # t) \<Longrightarrow> ascii_lower c = ascii_lower d"
  by (simp add: eq_ignore_ascii_case_def to_ascii_lower_def)

lemma if_items_token:
  assumes "tok \<noteq> []" and "\<forall>c\<in>set tok. token_char c"
  shows "if_items False (split_whitespace (''<'' @ tok @ ''>'')) = ([CondToken False tok], [tok])"
proof -
  let ?item = "CHR ''<'' # tok @ [CHR ''>'']"
  have words: "split_whitespace ?item = [?item]"
    unfolding split_whitespace_def
    by (subst words_acc_solid) (use assms(2) in \<open>auto simp: token_char_def solid_def\<close>)
  have no: "\<not> eq_ignore_ascii_case ?item ''not''"
    by (auto dest!: eq_ignore_ascii_case_hd simp: ascii_lower_def is_ascii_upper_def less_eq_char_def)
  let ?P = "\<lambda>c. c = CHR ''<'' \<or> c = CHR ''>''"
  have hd: "\<not> ?P (hd tok)" and last: "\<not> ?P (last tok)"
    using assms by (auto simp: token_char_def)
  then have drop: "dropWhile ?P (tok @ [CHR ''>'']) = tok @ [CHR ''>'']"
      "dropWhile ?P (rev tok) = rev tok"
    using assms(1) by (simp_all add: dropWhile_eq_self_iff hd_rev)
  have "trim_matches ?P ?item = tok"
    by (simp add: trim_matches_def drop)
  with no show ?thesis by (simp add: words starts_with_iff)
qed

lemma parse_if_token:
  assumes "tok \<noteq> []" and "\<forall>c\<in>set tok. token_char c" and "headers ''if'' = Some (''(<'' @ tok @ ''>)'')"
  shows "parse_if pct_decode headers =
           Some \<lparr>entries = [(''*'', [[CondToken False tok]])], if_tokens = [tok]\<rparr>"
proof -
  have t: "trim (''(<'' @ tok @ ''>)'') = ''(<'' @ tok @ ''>)''"
    by (rule trim_solid) (simp add: solid_def)
  have star: "split_once_c CHR ''>'' (''*>(<'' @ tok @ ''>)'') = Some (''*'', ''(<'' @ tok @ ''>)'')"
    by (simp add: split_once_c_Some_iff)
  have paren: "split_once_c CHR '')'' (''<'' @ tok @ ''>)'') = Some (''<'' @ tok @ ''>'', [])"
    using assms(2) by (auto simp: split_once_c_Some_iff token_char_def)
  show ?thesis
    unfolding parse_if_def assms(3)
    using star paren if_items_token [OF assms(1,2)]
    by (simp add: t [simplified] starts_with_iff Let_def normalize_tag_def del: split_once_c.simps)
qed

section \<open>Properties\<close>

text \<open>
  C40: What a GET sends is what its headers say: the whole file with 200, or with 206 exactly
  the bytes the \<open>Content-Range\<close> header names, which lie inside the file, and in both cases
  as many as \<open>Content-Length\<close> says; an unsatisfiable range is a 416 naming the size. HEAD
  answers with the same headers and no bytes. No request, however malformed, reads outside
  the file.
\<close>

theorem served_bytes_exact:
  "let ans = serve_file http_date headers False etag last_modified content;
       sz = length content
   in serve_file http_date headers True etag last_modified content = ans\<lparr>file_bytes := []\<rparr> \<and>
      (ans = \<lparr>ans_status = 200, content_range = None, content_length = Some sz, file_bytes = content\<rparr> \<or>
       ans = \<lparr>ans_status = 416, content_range = Some (''bytes */'' @ show_nat sz),
              content_length = None, file_bytes = []\<rparr> \<or>
       (\<exists>a b. a \<le> b \<and> b < sz \<and> length (file_bytes ans) = b - a + 1 \<and>
          (\<exists>pre post. content = pre @ file_bytes ans @ post \<and> length pre = a) \<and>
          ans = \<lparr>ans_status = 206,
                 content_range =
                   Some (''bytes '' @ show_nat a @ ''-'' @ show_nat b @ ''/'' @ show_nat sz),
                 content_length = Some (b - a + 1), file_bytes = file_bytes ans\<rparr>))"
proof -
  define range where "range =
    (case headers ''range'' of
       Some value \<Rightarrow>
         if length content > 0 \<and>
            (case headers ''if-range'' of
               Some c \<Rightarrow> if_range_holds http_date c etag last_modified
             | None \<Rightarrow> True)
         then parse_range value (length content) else Inr Full
     | None \<Rightarrow> Inr Full)"
  note sf = serve_file_def range_def [symmetric] Let_def
  consider "range = Inr Full" | a b where "range = Inr (Partial a b)" "a \<le> b" "b < length content"
    | e where "range = Inl e" "econtext e = ''bytes */'' @ show_nat (length content)"
  proof -
    have "econtext e = ''bytes */'' @ show_nat (length content)" if "range = Inl e" for e
      using that by (auto simp: range_def parse_range_def Let_def split: option.splits if_splits)
    moreover have "a \<le> b \<and> b < length content" if "range = Inr (Partial a b)" for a b
      using that by (auto simp: range_def split: option.splits if_splits dest: parse_range_Inr_Partial)
    ultimately show thesis using that by (metis obj_sumE range_outcome.exhaust)
  qed
  then show ?thesis
  proof cases
    case (2 a b)
    have "content = take a content @ take (b - a + 1) (drop a content) @ drop (b - a + 1) (drop a content)"
      by (simp only: append_take_drop_id)
    then have "\<exists>pre post. content = pre @ take (b - a + 1) (drop a content) @ post \<and> length pre = a"
      using 2 by (metis length_take less_imp_le_nat min.absorb2 order_le_less_trans)
    with 2 show ?thesis
      unfolding Let_def
      by (intro conjI disjI2 exI [of _ a] exI [of _ b]) (simp_all add: sf)
  qed (simp_all add: sf)
qed

text \<open>
  A single range \<open>bytes=a-b\<close> with \<open>a \<le> b\<close> selects exactly the bytes from \<open>a\<close> to \<open>b\<close>, cut
  at the end of the file, and is unsatisfiable exactly when it starts past the end.
\<close>

theorem parse_range_single:
  assumes "a \<le> b" and "b < 2 ^ 64"
  shows "parse_range (''bytes='' @ show_nat a @ ''-'' @ show_nat b) sz =
           (if a < sz then Inr (Partial a (min b (sz - 1)))
            else Inl \<lparr>status = 416, econtext = ''bytes */'' @ show_nat sz, lock_conflict = None\<rparr>)"
proof -
  let ?r = "show_nat a @ ''-'' @ show_nat b"
  have one: "split_once_c CHR ''='' (''bytes='' @ ?r) = Some (''bytes'', ?r)"
    by (simp add: split_once_c_Some_iff)
  have two: "split_c CHR '','' ?r = [?r]"
    by (rule split_c_no_sep) (use no_sep_digits in auto)
  have unit: "eq_ignore_ascii_case (trim ''bytes'') ''bytes''"
    by (subst trim_solid) (simp_all add: solid_def)
  have r: "range_of sz ?r = (if a < sz then Some (a, min b (sz - 1)) else None)"
    using range_of_show [of a b sz] assms by simp
  show ?thesis
    unfolding parse_range_def one two option.case prod.case
    using unit r by (simp add: List.map_filter_def dav_error_new_def)
qed

theorem parse_range_single_witness:
  "parse_range (''bytes='' @ show_nat 3 @ ''-'' @ show_nat 90) 10 = Inr (Partial 3 9)"
  using parse_range_single [of 3 90 10] by simp

text \<open>
  A client that sends back the entity tag it was given is answered as it should be:
  with \<open>If-Match\<close> the method proceeds exactly when the tag is still current, so that a change
  is never overwritten unseen; with \<open>If-None-Match\<close> a read of an unchanged resource is a
  304, a write to it a 412, and a changed resource is served whatever \<open>If-Modified-Since\<close>
  says. A weak form \<open>W/\<close> of the tag counts as the tag.
\<close>

theorem validators_revalidate:
  assumes "e \<noteq> []" and "CHR '','' \<notin> set e" and "e \<noteq> ''*''"
    and tag: "v = CHR 0x22 # e @ [CHR 0x22] \<or> v = ''W/'' @ CHR 0x22 # e @ [CHR 0x22]"
    and "headers ''if-unmodified-since'' = None"
  shows "(headers ''if-match'' = Some v \<and> headers ''if-none-match'' = None \<and>
            headers ''if-modified-since'' = None \<longrightarrow>
            (evaluate_http http_date headers m (Some cur) lm = Inr () \<longleftrightarrow> cur = e)) \<and>
         (headers ''if-match'' = None \<and> headers ''if-none-match'' = Some v \<longrightarrow>
            (if cur = e
             then \<exists>err. evaluate_http http_date headers m (Some cur) lm = Inl err \<and>
                    status err = (if m = ''GET'' \<or> m = ''HEAD'' then 304 else 412)
             else evaluate_http http_date headers m (Some cur) lm = Inr ()))"
proof -
  have "trim (''W/'' @ CHR 0x22 # e @ [CHR 0x22]) = ''W/'' @ CHR 0x22 # e @ [CHR 0x22]"
    by (rule trim_solid) (simp add: solid_def)
  then have weak: "etag_of_item (''W/'' @ CHR 0x22 # e @ [CHR 0x22]) = e"
    by (simp add: etag_of_item_def starts_with_iff ends_with_iff)
  have "split_c CHR '','' v = [v]"
    by (rule split_c_no_sep) (use tag assms(2) in auto)
  moreover have "etag_of_item v = e"
    using tag weak etag_of_quoted [of e] by auto
  ultimately have "parse_etag_list v = [e]"
    using assms(1) by (simp add: parse_etag_list_def)
  with assms(3,5) show ?thesis
    by (auto simp: evaluate_http_def dav_error_new_def dav_error_status_def Let_def)
qed

theorem validators_revalidate_witness:
  "evaluate_http (\<lambda>_. None) [''if-match'' \<mapsto> CHR 0x22 # ''1-2'' @ [CHR 0x22]] ''PUT'' (Some ''1-3'') 0 \<noteq> Inr ()"
  using validators_revalidate [of "''1-2''" "CHR 0x22 # ''1-2'' @ [CHR 0x22]"
      "[''if-match'' \<mapsto> CHR 0x22 # ''1-2'' @ [CHR 0x22]]" "\<lambda>_. None" "''PUT''" "''1-3''" 0]
  by simp

text \<open>
  The header \<open>If: (<token>)\<close> submits exactly that lock token, and its condition holds
  for a resource exactly when the token is one of those protecting it.
\<close>

theorem if_header_submits_token:
  assumes "tok \<noteq> []" and "\<forall>c\<in>set tok. token_char c" and "headers ''if'' = Some (''(<'' @ tok @ ''>)'')"
  shows "\<exists>h. parse_if pct_decode headers = Some h \<and> if_tokens h = [tok] \<and>
             (\<forall>path etag lock_tokens. test_if h path etag lock_tokens \<longleftrightarrow> tok \<in> set lock_tokens)"
  using parse_if_token [of tok headers pct_decode] assms
  by (simp add: test_if_def normalize_def)

theorem if_header_submits_token_witness:
  "\<exists>h. parse_if id [''if'' \<mapsto> ''(<opaquelocktoken:0a>)''] = Some h \<and> if_tokens h = [''opaquelocktoken:0a''] \<and>
     (\<forall>path etag lock_tokens. test_if h path etag lock_tokens \<longleftrightarrow> ''opaquelocktoken:0a'' \<in> set lock_tokens)"
  using if_header_submits_token [of "''opaquelocktoken:0a''" "[''if'' \<mapsto> ''(<opaquelocktoken:0a>)'']" id]
  by (simp add: token_char_def solid_def)

end
