(* ===== verification/Dav_Resource.thy ===== *)
theory Dav_Resource
  imports Dav_Paths
begin

text \<open>
  \<open>bunko-dav/src/resource.rs\<close>: which physical file or folder a virtual path names for a
  caller. The disk is a parameter: what \<open>symlink_metadata\<close> says of a path, the snapshot
  \<open>fs::metadata\<close> gives (links followed), the names \<open>read_dir\<close> lists and what
  \<open>canonicalize\<close> returns. The validators formatted from floating-point times
  (\<open>file_etag\<close>, \<open>mtime_int\<close>) are not modelled here.
\<close>

record stat =
  size :: nat
  mtime_secs :: int
  mtime_nanos :: nat
  ctime_secs :: int
  is_dir :: bool

record disk =
  links :: file_system
  stat_of :: "fs_path \<Rightarrow> stat option"
  dir_names :: "fs_path \<Rightarrow> string list option"
  canonical :: "fs_path \<Rightarrow> fs_path option"

datatype file_kind = KLibrary | KProgress

datatype resource =
    RVirtual string
  | RFolder string fs_path stat file_kind
  | RFile string fs_path stat file_kind

fun res_path :: "resource \<Rightarrow> string" where
  "res_path (RVirtual path) = path"
| "res_path (RFolder path _ _ _) = path"
| "res_path (RFile path _ _ _) = path"

fun is_collection :: "resource \<Rightarrow> bool" where
  "is_collection (RFile _ _ _ _) = False"
| "is_collection _ = True"

fun res_phys :: "resource \<Rightarrow> fs_path option" where
  "res_phys (RVirtual _) = None"
| "res_phys (RFolder _ phys _ _) = Some phys"
| "res_phys (RFile _ phys _ _) = Some phys"

fun res_kind :: "resource \<Rightarrow> file_kind option" where
  "res_kind (RVirtual _) = None"
| "res_kind (RFolder _ _ _ kind) = Some kind"
| "res_kind (RFile _ _ _ kind) = Some kind"

record roots =
  library_root :: fs_path
  users_root :: fs_path

definition roots_user_base :: "roots \<Rightarrow> caller \<Rightarrow> fs_path option" where
  "roots_user_base roots c = user_base (library_root roots) (users_root roots) c"

definition user_path :: "disk \<Rightarrow> roots \<Rightarrow> caller \<Rightarrow> string \<Rightarrow> fs_path option" where
  "user_path d roots c rel =
     (case roots_user_base roots c of
        None \<Rightarrow> None
      | Some base \<Rightarrow>
          let in_dir = (\<lambda>dir.
                case resolve_under (links d) base (trim_c CHR ''/'' rel) of
                  None \<Rightarrow> None
                | Some resolved \<Rightarrow> if starts_with resolved (base @ [dir]) then Some resolved else None)
          in
          (case per_user rel of
             None \<Rightarrow> None
           | Some (PFile name) \<Rightarrow> Some (base @ [name])
           | Some (PDir dir) \<Rightarrow> in_dir dir
           | Some (PInDir dir _) \<Rightarrow> in_dir dir))"

definition library_rel :: "roots \<Rightarrow> fs_path \<Rightarrow> string option" where
  "library_rel roots phys =
     (case relative_posix phys (library_root roots) of
        None \<Rightarrow> None
      | Some rel \<Rightarrow>
          if is_per_user_root_name (hd (split_c CHR ''/'' rel)) then None else Some rel)"

definition library_member :: "disk \<Rightarrow> roots \<Rightarrow> fs_path \<Rightarrow> string \<Rightarrow> fs_path option" where
  "library_member d roots dir rel =
     (case resolve_under (links d) dir rel of
        None \<Rightarrow> None
      | Some resolved \<Rightarrow>
          if starts_with resolved (library_root roots) \<and> library_rel roots resolved \<noteq> None
          then Some resolved else None)"

definition make_resource :: "string \<Rightarrow> fs_path \<Rightarrow> stat \<Rightarrow> file_kind \<Rightarrow> resource" where
  "make_resource path phys st kind =
     (if is_dir st then RFolder path phys st kind else RFile path phys st kind)"

definition lookup :: "disk \<Rightarrow> roots \<Rightarrow> string \<Rightarrow> caller option \<Rightarrow> resource option" where
  "lookup d roots path c =
     (let norm = normalize path in
      case classify norm of
        TRoot \<Rightarrow> Some (RVirtual norm)
      | TReaderRoot \<Rightarrow> Some (RVirtual norm)
      | TProgress rel \<Rightarrow>
          (case c of
             None \<Rightarrow> None
           | Some c \<Rightarrow>
               (case user_path d roots c rel of
                  None \<Rightarrow> None
                | Some phys \<Rightarrow> map_option (\<lambda>st. make_resource norm phys st KProgress) (stat_of d phys)))
      | TLibrary rel \<Rightarrow>
          (case library_member d roots (library_root roots) rel of
             None \<Rightarrow> None
           | Some phys \<Rightarrow> map_option (\<lambda>st. make_resource norm phys st KLibrary) (stat_of d phys))
      | TInbox \<Rightarrow> None
      | TOther \<Rightarrow> None)"

definition in_user_history :: "roots \<Rightarrow> caller \<Rightarrow> fs_path \<Rightarrow> bool" where
  "in_user_history roots c phys =
     (case roots_user_base roots c of
        None \<Rightarrow> False
      | Some base \<Rightarrow> starts_with phys (base @ [history_dir]))"

definition member_path ::
  "disk \<Rightarrow> roots \<Rightarrow> resource \<Rightarrow> string \<Rightarrow> caller option \<Rightarrow> (fs_path \<times> file_kind) option" where
  "member_path d roots parent name c =
     (case parent of
        RVirtual path \<Rightarrow>
          if normalize path = CHR ''/'' # reader_root then
            (if is_per_user_root_name name then
               (case c of
                  None \<Rightarrow> None
                | Some c \<Rightarrow> map_option (\<lambda>p. (p, KProgress)) (user_path d roots c name))
             else map_option (\<lambda>p. (p, KLibrary)) (library_member d roots (library_root roots) name))
          else None
      | RFolder _ phys _ KProgress \<Rightarrow>
          (case resolve_under (links d) phys name of
             None \<Rightarrow> None
           | Some resolved \<Rightarrow>
               (case c of
                  None \<Rightarrow> None
                | Some c \<Rightarrow>
                    if in_user_history roots c resolved then Some (resolved, KProgress) else None))
      | RFolder _ phys _ KLibrary \<Rightarrow>
          map_option (\<lambda>p. (p, KLibrary)) (library_member d roots phys name)
      | RFile _ _ _ _ \<Rightarrow> None)"

definition place_candidate :: "disk \<Rightarrow> roots \<Rightarrow> fs_path \<Rightarrow> string \<Rightarrow> (fs_path \<times> file_kind) option" where
  "place_candidate d roots dir name =
     (if name = [] \<or> name = ''.'' \<or> name = ''..'' \<or>
         List.member name CHR ''/'' \<or> List.member name CHR 0x00 then None
      else
        let candidate = dir @ [name] in
        (case library_rel roots candidate of
           None \<Rightarrow> None
         | Some rel \<Rightarrow>
             (case library_member d roots (library_root roots) rel of
                None \<Rightarrow> None
              | Some _ \<Rightarrow> Some (candidate, KLibrary))))"

definition destination_of ::
  "disk \<Rightarrow> roots \<Rightarrow> resource \<Rightarrow> string \<Rightarrow> caller option \<Rightarrow> (fs_path \<times> file_kind) option" where
  "destination_of d roots parent name c =
     (case parent of
        RVirtual path \<Rightarrow>
          if normalize path = CHR ''/'' # reader_root then
            (if is_per_user_name name then member_path d roots parent name c
             else if is_per_user_root_name name then None
             else place_candidate d roots (library_root roots) name)
          else None
      | RFolder _ _ _ KProgress \<Rightarrow> None
      | RFolder _ phys _ KLibrary \<Rightarrow> place_candidate d roots phys name
      | RFile _ _ _ _ \<Rightarrow> None)"

definition list_dir :: "disk \<Rightarrow> fs_path \<Rightarrow> string \<Rightarrow> bool \<Rightarrow> file_kind \<Rightarrow> resource list" where
  "list_dir d dir vpath at_reader_root kind =
     (case dir_names d dir of
        None \<Rightarrow> []
      | Some names \<Rightarrow>
          sort_key res_path
            (List.map_filter
              (\<lambda>name.
                if at_reader_root \<and> is_per_user_root_name name then None
                else if is_staging_name name then None
                else map_option (\<lambda>st. make_resource (join_uri vpath name) (dir @ [name]) st kind)
                       (stat_of d (dir @ [name])))
              names))"

definition members :: "disk \<Rightarrow> roots \<Rightarrow> resource \<Rightarrow> caller option \<Rightarrow> resource list" where
  "members d roots res c =
     (case res of
        RVirtual path \<Rightarrow>
          if normalize path = ''/'' then [RVirtual (CHR ''/'' # reader_root)]
          else
            (case c of
               None \<Rightarrow> []
             | Some c \<Rightarrow>
                 List.map_filter
                   (\<lambda>name.
                     case user_path d roots c name of
                       None \<Rightarrow> None
                     | Some phys \<Rightarrow>
                         map_option
                           (\<lambda>st. make_resource (CHR ''/'' # reader_root @ CHR ''/'' # name) phys st KProgress)
                           (stat_of d phys))
                   (per_user_files @ per_user_dirs)) @
            list_dir d (library_root roots) (CHR ''/'' # reader_root) True KLibrary
      | RFolder path phys _ kind \<Rightarrow> list_dir d phys (normalize path) False kind
      | RFile _ _ _ _ \<Rightarrow> [])"

definition walkable :: "disk \<Rightarrow> roots \<Rightarrow> resource \<Rightarrow> fs_path list \<Rightarrow> caller option \<Rightarrow> fs_path option" where
  "walkable d roots folder ancestors c =
     (case res_phys folder of
        None \<Rightarrow> None
      | Some phys \<Rightarrow>
          (case canonical d phys of
             None \<Rightarrow> None
           | Some canon \<Rightarrow>
               let walk_to = (\<lambda>inside.
                     if \<not> inside \<or> list_ex (\<lambda>a. starts_with a canon) ancestors then None else Some canon)
               in
               if res_kind folder = Some KProgress then
                 (case Option.bind c (roots_user_base roots) of
                    None \<Rightarrow> None
                  | Some base \<Rightarrow>
                      walk_to (case canonical d (base @ [history_dir]) of
                                 None \<Rightarrow> False | Some b \<Rightarrow> starts_with canon b))
               else
                 walk_to (starts_with canon (library_root roots) \<and> library_rel roots canon \<noteq> None)))"

section \<open>Where a physical path lies\<close>

text \<open>In the library, under none of the names reserved for an account's own files.\<close>

definition library_place :: "roots \<Rightarrow> fs_path \<Rightarrow> bool" where
  "library_place roots p \<longleftrightarrow>
     (\<exists>rest. p = library_root roots @ rest \<and> (rest = [] \<or> \<not> is_per_user_root_name (hd rest)))"

text \<open>Under one of the reserved names of the caller's own tree.\<close>

definition own_place :: "roots \<Rightarrow> caller \<Rightarrow> fs_path \<Rightarrow> bool" where
  "own_place roots c p \<longleftrightarrow>
     (\<exists>base n rest. roots_user_base roots c = Some base \<and> is_per_user_root_name n \<and>
        p = base @ n # rest)"

lemma history_dir_name [simp]: "is_per_user_root_name history_dir"
  by (simp add: is_per_user_root_name_def per_user_dirs_def)

lemma per_user_name_slashfree: "is_per_user_root_name n \<Longrightarrow> CHR ''/'' \<notin> set n"
  by (auto simp: is_per_user_root_name_def per_user_files_def per_user_dirs_def history_dir_def)

lemma per_user_range:
  "per_user rel = Some (PFile n) \<Longrightarrow> is_per_user_root_name n"
  "per_user rel = Some (PDir n) \<Longrightarrow> is_per_user_root_name n"
  "per_user rel = Some (PInDir n rest) \<Longrightarrow> is_per_user_root_name n"
  by (auto simp: per_user_cases Let_def is_per_user_root_name_def per_user_dirs_def
      split: if_splits option.splits)

lemma user_path_own: "user_path d roots c rel = Some p \<Longrightarrow> own_place roots c p"
  by (auto simp: user_path_def own_place_def Let_def starts_with_iff
      split: option.splits per_user_path.splits if_splits dest: per_user_range)

lemma library_rel_place: "library_rel roots p \<noteq> None \<Longrightarrow> library_place roots p"
proof -
  assume r: "library_rel roots p \<noteq> None"
  then obtain rest where p: "p = library_root roots @ rest"
    and first: "\<not> is_per_user_root_name (hd (split_c CHR ''/'' (join_c CHR ''/'' rest)))"
    by (auto simp: library_rel_def relative_posix_def strip_prefix_Some_iff split: option.splits if_splits)
  have "\<not> is_per_user_root_name (hd rest)" if "rest \<noteq> []"
  proof
    assume n: "is_per_user_root_name (hd rest)"
    obtain x xs where rest: "rest = x # xs" using \<open>rest \<noteq> []\<close> by (cases rest) auto
    have "CHR ''/'' \<notin> set x" using n rest by (simp add: per_user_name_slashfree)
    then have "hd (split_c CHR ''/'' (join_c CHR ''/'' rest)) = x"
      unfolding rest by (cases "xs = []") (simp_all add: split_c_no_sep join_c_Cons split_c_append)
    with first n rest show False by simp
  qed
  with p show ?thesis by (auto simp: library_place_def)
qed

lemma library_member_place: "library_member d roots dir rel = Some p \<Longrightarrow> library_place roots p"
  by (rule library_rel_place) (auto simp: library_member_def split: option.splits if_splits)

lemma make_resource_sel [simp]:
  "res_phys (make_resource path phys st kind) = Some phys"
  "res_kind (make_resource path phys st kind) = Some kind"
  "res_path (make_resource path phys st kind) = path"
  "is_collection (make_resource path phys st kind) = is_dir st"
  by (simp_all add: make_resource_def)

text \<open>What a kind promises of a physical path.\<close>

definition placed :: "roots \<Rightarrow> caller option \<Rightarrow> file_kind \<Rightarrow> fs_path \<Rightarrow> bool" where
  "placed roots c kind p =
     (case kind of
        KLibrary \<Rightarrow> library_place roots p
      | KProgress \<Rightarrow> (case c of None \<Rightarrow> False | Some c \<Rightarrow> own_place roots c p))"

lemma lookup_placed:
  assumes "lookup d roots path c = Some r" and "res_phys r = Some p"
  shows "\<exists>kind. res_kind r = Some kind \<and> placed roots c kind p"
  using assms
  by (auto simp: lookup_def Let_def placed_def split: dav_target.splits option.splits
      dest: user_path_own library_member_place)

lemma member_path_placed:
  "member_path d roots parent name c = Some (p, kind) \<Longrightarrow> placed roots c kind p"
  by (auto simp: member_path_def placed_def in_user_history_def own_place_def starts_with_iff
      split: resource.splits option.splits if_splits file_kind.splits
      dest: user_path_own library_member_place intro: history_dir_name)

lemma place_candidate_placed:
  "place_candidate d roots dir name = Some (p, kind) \<Longrightarrow> placed roots c kind p"
  by (auto simp: place_candidate_def placed_def Let_def split: if_splits option.splits
      intro!: library_rel_place)

lemma destination_of_placed:
  "destination_of d roots parent name c = Some (p, kind) \<Longrightarrow> placed roots c kind p"
  by (auto simp: destination_of_def split: resource.splits if_splits file_kind.splits
      dest: member_path_placed place_candidate_placed)

text \<open>Incomparable directories have nothing in common.\<close>

definition apart :: "fs_path \<Rightarrow> fs_path \<Rightarrow> bool" where
  "apart p q \<longleftrightarrow> \<not> starts_with p q \<and> \<not> starts_with q p"

lemma apart_sym: "apart p q \<Longrightarrow> apart q p"
  by (simp add: apart_def)

lemma apart_append: "apart p q \<Longrightarrow> apart (p @ x) (q @ y)"
  by (auto simp: apart_def starts_with_iff append_eq_append_conv2)

lemma apart_names: "m \<noteq> n \<Longrightarrow> apart (p @ m # x) (p @ n # y)"
  by (auto simp: apart_def starts_with_iff)

lemma own_placeD:
  assumes "own_place roots c p"
  shows "\<exists>n rest. is_per_user_root_name n \<and>
           (if owns_cloud_root c then p = library_root roots @ n # rest
            else p = users_root roots @ caller_username c # n # rest)"
  using assms by (auto simp: own_place_def roots_user_base_def user_base_def split: if_splits)

lemma own_places_apart:
  assumes "own_place roots a p" and "own_place roots b q"
    and lu: "apart (library_root roots) (users_root roots)"
    and "caller_username a \<noteq> caller_username b" and "\<not> (owns_cloud_root a \<and> owns_cloud_root b)"
  shows "apart p q"
  using own_placeD [OF assms(1)] own_placeD [OF assms(2)] assms(4,5)
    apart_append [OF lu] apart_append [OF apart_sym [OF lu]]
  by (auto split: if_splits intro: apart_names)

lemma own_library_apart:
  assumes "own_place roots a p" and "library_place roots q"
    and lu: "apart (library_root roots) (users_root roots)"
  shows "apart p q \<or> q = library_root roots \<and> owns_cloud_root a"
proof -
  obtain rest where q: "q = library_root roots @ rest" "rest = [] \<or> \<not> is_per_user_root_name (hd rest)"
    using assms(2) by (auto simp: library_place_def)
  show ?thesis
  proof (cases "owns_cloud_root a")
    case False
    with own_placeD [OF assms(1)] q(1) apart_append [OF apart_sym [OF lu]] show ?thesis by auto
  next
    case True
    with own_placeD [OF assms(1)] q show ?thesis
      by (cases rest) (auto intro: apart_names)
  qed
qed

section \<open>Properties\<close>

text \<open>
  C31: with the library and the users' folder apart, an account's own files cannot be reached by
  anybody else but through the library root: whatever a request of another caller, or of an
  anonymous one, resolves to, be it an existing resource, a new member or the destination of a MOVE
  or COPY, and whatever symbolic links the disk has, is neither inside nor around a file of the
  account. The only exception, which every caller reaches as \<open>/mokuro-reader/.\<close> (C39), is the library
  root itself, which holds the files of the account that owns the cloud root.
\<close>

theorem own_files_unreachable:
  assumes "lookup d roots path (Some a) = Some r" and "res_kind r = Some KProgress"
    and "res_phys r = Some p"
    and "(\<exists>path' r'. lookup d roots path' c = Some r' \<and> res_phys r' = Some q) \<or>
         (\<exists>parent name kind. member_path d roots parent name c = Some (q, kind)) \<or>
         (\<exists>parent name kind. destination_of d roots parent name c = Some (q, kind))"
    and "apart (library_root roots) (users_root roots)"
    and "\<And>b. c = Some b \<Longrightarrow> caller_username a \<noteq> caller_username b \<and> \<not> (owns_cloud_root a \<and> owns_cloud_root b)"
  shows "apart p q \<or> q = library_root roots \<and> owns_cloud_root a"
proof -
  have own: "own_place roots a p"
    using lookup_placed [OF assms(1,3)] assms(2) by (simp add: placed_def)
  obtain kind where "placed roots c kind q"
    using assms(4) lookup_placed member_path_placed destination_of_placed by metis
  then consider "library_place roots q" | b where "c = Some b" "own_place roots b q"
    by (auto simp: placed_def split: file_kind.splits option.splits)
  then show ?thesis
    using own_library_apart [OF own _ assms(5)] own_places_apart [OF own _ assms(5)] assms(6)
    by cases blast+
qed

definition demo_stat :: "bool \<Rightarrow> stat" where
  "demo_stat dir = \<lparr>size = 1, mtime_secs = 0, mtime_nanos = 0, ctime_secs = 0, is_dir = dir\<rparr>"

definition demo_disk :: disk where
  "demo_disk =
     \<lparr>links = (\<lambda>_. Present),
      stat_of = (\<lambda>p. Some (demo_stat (last p \<noteq> ''goals.json''))),
      dir_names = (\<lambda>p. Some [''goals.json'', ''S'']),
      canonical = Some\<rparr>"

definition demo_roots :: roots where
  "demo_roots = \<lparr>library_root = [''srv'', ''library''], users_root = [''srv'', ''users'']\<rparr>"

definition demo_caller :: "string \<Rightarrow> bool \<Rightarrow> caller" where
  "demo_caller name owns = \<lparr>caller_username = name, owns_cloud_root = owns\<rparr>"

lemma demo_apart: "apart (library_root demo_roots) (users_root demo_roots)"
  by (simp add: apart_def starts_with_def demo_roots_def)

theorem own_files_unreachable_witness:
  "apart [''srv'', ''users'', ''al'', ''goals.json''] [''srv'', ''users'', ''bo'', ''goals.json'']"
proof -
  have l: "lookup demo_disk demo_roots ''/mokuro-reader/goals.json'' (Some (demo_caller u False)) =
      Some (RFile ''/mokuro-reader/goals.json'' [''srv'', ''users'', u, ''goals.json''] (demo_stat False) KProgress)"
    if "u = ''al'' \<or> u = ''bo''" for u
    using that by (elim disjE) (hypsubst, code_simp)+
  have q: "\<exists>path' r'. lookup demo_disk demo_roots path' (Some (demo_caller ''bo'' False)) = Some r' \<and>
      res_phys r' = Some [''srv'', ''users'', ''bo'', ''goals.json'']"
    by (intro exI conjI, rule l) simp_all
  from own_files_unreachable [OF l _ _ disjI1 [OF q] demo_apart, of "''al''"]
  show ?thesis by (simp add: demo_caller_def)
qed

text \<open>
  The listing of the reader root shows a caller the shared library and its own files
  only, and an anonymous caller the shared library only.
\<close>

theorem root_listing_private:
  assumes "r \<in> set (members d roots (RVirtual path) c)" and "res_phys r = Some p"
  shows "\<exists>kind. res_kind r = Some kind \<and> placed roots c kind p"
  using assms
  by (auto simp: members_def list_dir_def set_map_filter placed_def library_place_def
      split: if_splits option.splits)
    (erule user_path_own)+

theorem root_listing_private_witness:
  "\<exists>kind. res_kind (RFolder ''/mokuro-reader/S'' [''srv'', ''library'', ''S''] (demo_stat True) KLibrary) =
     Some kind \<and> placed demo_roots None kind [''srv'', ''library'', ''S'']"
proof -
  have m: "members demo_disk demo_roots (RVirtual ''/mokuro-reader'') None =
      [RFolder ''/mokuro-reader/S'' [''srv'', ''library'', ''S''] (demo_stat True) KLibrary]"
    by code_simp
  show ?thesis
    by (rule root_listing_private [of _ demo_disk demo_roots "''/mokuro-reader''"]) (simp_all add: m)
qed

text \<open>
  C39: The path \<open>/mokuro-reader/.\<close> names the library's own folder for every caller, as an
  ordinary library folder: it is not one of the virtual roots, so the rule that they are
  never deleted, moved or locked does not apply to it, and its listing, unlike theirs, does
  not hide the cloud-root owner's files.
\<close>

theorem dot_names_library_root:
  assumes "link_free (links d) (library_root roots)" and "stat_of d (library_root roots) = Some st"
    and "is_dir st" and "dir_names d (library_root roots) = Some names" and "''goals.json'' \<in> set names"
    and "stat_of d (library_root roots @ [''goals.json'']) = Some st'"
  shows "\<exists>r. lookup d roots ''/mokuro-reader/.'' c = Some r \<and> res_phys r = Some (library_root roots) \<and>
           classify ''/mokuro-reader/.'' \<noteq> TRoot \<and> classify ''/mokuro-reader/.'' \<noteq> TReaderRoot \<and>
           library_root roots @ [''goals.json''] \<in> the ` res_phys ` set (members d roots r c)"
proof -
  have cl: "classify ''/mokuro-reader/.'' = TLibrary ''.''" by code_simp
  have norm: "normalize ''/mokuro-reader/.'' = ''/mokuro-reader/.''" by code_simp
  have segs: "split_c CHR ''/'' ''.'' = [''.'']" by code_simp
  have "resolve_under (links d) (library_root roots) ''.'' = Some (library_root roots)"
    using resolve_loop_plain [of "[''.'']" "links d" "library_root roots" 0 True] assms(1)
    by (simp add: resolve_under_def segs)
  moreover have "library_rel roots (library_root roots) = Some []"
    by (simp add: library_rel_def relative_posix_def) code_simp
  ultimately have "library_member d roots (library_root roots) ''.'' = Some (library_root roots)"
    by (simp add: library_member_def)
  then have l: "lookup d roots ''/mokuro-reader/.'' c =
      Some (RFolder ''/mokuro-reader/.'' (library_root roots) st KLibrary)"
    using assms(2,3) by (simp add: lookup_def norm cl make_resource_def)
  have "\<not> is_staging_name ''goals.json''" by code_simp
  then have "library_root roots @ [''goals.json''] \<in>
      the ` res_phys ` set (list_dir d (library_root roots) ''/mokuro-reader/.'' False KLibrary)"
    using assms(4-6) by (force simp: list_dir_def set_map_filter image_iff)
  with l show ?thesis by (simp add: cl members_def norm)
qed

theorem dot_names_library_root_witness:
  "\<exists>r. lookup demo_disk demo_roots ''/mokuro-reader/.'' None = Some r \<and>
       res_phys r = Some [''srv'', ''library'']"
proof -
  have "link_free (links demo_disk) (library_root demo_roots)"
    by (simp add: link_free_def demo_disk_def)
  from dot_names_library_root [OF this, of "demo_stat True" "[''goals.json'', ''S'']" "demo_stat False" None]
  show ?thesis by (auto simp: demo_disk_def demo_roots_def demo_stat_def)
qed

end
