(* ===== verification/Dav_Lock_Methods.thy ===== *)
theory Dav_Lock_Methods
  imports Dav_Locks Dav_Xml Dav_Conditional Dav_Resource
begin

text \<open>
  \<open>bunko-dav/src/methods/lock.rs\<close> (LOCK, UNLOCK, PROPPATCH), what it uses of
  \<open>methods/mod.rs\<close> and the dead-property store of \<open>propfind.rs\<close>. A handler is a function
  from the request and the state to an answer and the new state. The disk is the snapshot
  the handler looks at; \<open>validators\<close> gives a resource's entity tag and modification second;
  \<open>quote\<close> percent-encodes (the \<open>percent-encoding\<close> crate), \<open>xml_events\<close> tokenizes
  (\<open>quick-xml\<close>), \<open>body\<close> is the request body as \<open>read_body\<close> delivers it. Each call on the
  lock table reads the clock for itself, so a handler takes one reading per call; between
  two calls other requests may run, which the machine of \<open>Dav_Locks\<close> covers.
\<close>

section \<open>Requests\<close>

record dav_req =
  req_method :: string
  req_path :: string
  req_headers :: headers
  req_user :: "string option"
  req_owns_root :: bool
  req_if :: "if_header option"

definition req_principal :: "dav_req \<Rightarrow> string" where
  "req_principal req = (case req_user req of Some u \<Rightarrow> u | None \<Rightarrow> [])"

definition req_caller :: "dav_req \<Rightarrow> caller option" where
  "req_caller req =
     map_option (\<lambda>u. \<lparr>caller_username = u, owns_cloud_root = req_owns_root req\<rparr>) (req_user req)"

definition req_content_length :: "dav_req \<Rightarrow> nat" where
  "req_content_length req =
     (case Option.bind (req_headers req ''content-length'') (\<lambda>v. parse_u64 (trim v)) of
        Some n \<Rightarrow> n | None \<Rightarrow> 0)"

definition req_tokens :: "dav_req \<Rightarrow> string list" where
  "req_tokens req = (case req_if req of Some h \<Rightarrow> if_tokens h | None \<Rightarrow> [])"

definition resource_key :: "resource \<Rightarrow> string option \<Rightarrow> string" where
  "resource_key res user =
     (let path = normalize (res_path res) in
      if res_kind res = Some KProgress
      then path @ CHR 0x00 # (case user of Some u \<Rightarrow> u | None \<Rightarrow> [])
      else path)"

definition is_virtual_root :: "string \<Rightarrow> bool" where
  "is_virtual_root path \<longleftrightarrow> classify path = TRoot \<or> classify path = TReaderRoot"

section \<open>Dead properties\<close>

type_synonym dead_props = "(string \<times> element list) list"

definition max_dead_resources :: nat where
  "max_dead_resources = 10000"

definition max_dead_per_resource :: nat where
  "max_dead_per_resource = 64"

definition same_prop :: "string option \<Rightarrow> string \<Rightarrow> element \<Rightarrow> bool" where
  "same_prop n l e \<longleftrightarrow> ns e = n \<and> loc e = l"

definition dead_get :: "dead_props \<Rightarrow> string \<Rightarrow> string option \<Rightarrow> string \<Rightarrow> element option" where
  "dead_get dp key n l = Option.bind (map_of dp key) (find (same_prop n l))"

definition dead_set ::
  "string \<Rightarrow> string option \<Rightarrow> string \<Rightarrow> element option \<Rightarrow> dead_props \<Rightarrow> bool \<times> dead_props" where
  "dead_set key n l value dp =
     (if value \<noteq> None \<and> map_of dp key = None \<and> max_dead_resources \<le> length dp then (False, dp)
      else
        let old = (case map_of dp key of Some es \<Rightarrow> es | None \<Rightarrow> []);
            kept = filter (\<lambda>e. \<not> same_prop n l e) old
        in case value of
             Some v \<Rightarrow>
               if max_dead_per_resource \<le> length kept then (False, AList.update key kept dp)
               else (True, AList.update key (kept @ [v]) dp)
           | None \<Rightarrow>
               (True, if kept = [] then AList.delete key dp else AList.update key kept dp))"

definition dead_remove_tree :: "string \<Rightarrow> dead_props \<Rightarrow> dead_props" where
  "dead_remove_tree key dp =
     filter (\<lambda>(k, _). k \<noteq> key \<and> \<not> starts_with k (trim_end_c CHR ''/'' key @ ''/'')) dp"

definition dead_can_hold :: "string \<Rightarrow> dead_props \<Rightarrow> bool" where
  "dead_can_hold key dp \<longleftrightarrow> map_of dp key \<noteq> None \<or> length dp < max_dead_resources"

record dav_state =
  lock_tbl :: lock_table
  dead_tbl :: dead_props

section \<open>Shared checks\<close>

type_synonym validators = "resource \<Rightarrow> string option \<times> int"

definition eval_if ::
  "http_date \<Rightarrow> validators \<Rightarrow> nat \<Rightarrow> dav_req \<Rightarrow> resource \<Rightarrow> lock_table \<Rightarrow> (dav_error + unit) \<times> lock_table" where
  "eval_if http_date validators now req res tbl =
     (let (etag, modified) = validators res in
      case evaluate_http http_date (req_headers req) (req_method req) etag modified of
        Inl e \<Rightarrow> (Inl e, tbl)
      | Inr _ \<Rightarrow>
          (case req_if req of
             None \<Rightarrow> (Inr (), tbl)
           | Some ifh \<Rightarrow>
               let key = resource_key res (req_user req);
                   (toks, tbl) = indirect_tokens now key (req_principal req) tbl
               in (if test_if ifh (res_path res) etag toks then Inr ()
                   else Inl (dav_error_new 412 (CHR 0x27 # ''If'' @ CHR 0x27 # '' header condition failed.'')), tbl)))"

definition check_dav_locks ::
  "nat \<Rightarrow> dav_req \<Rightarrow> string \<Rightarrow> bool \<Rightarrow> lock_table \<Rightarrow> (dav_error + unit) \<times> lock_table" where
  "check_dav_locks now req key deep tbl =
     (case check_write now key deep (req_tokens req) (req_principal req) tbl of
        (Inl hrefs, tbl) \<Rightarrow> (Inl (locked_by hrefs), tbl)
      | (Inr _, tbl) \<Rightarrow> (Inr (), tbl))"

definition href :: "(string \<Rightarrow> string) \<Rightarrow> string \<Rightarrow> bool \<Rightarrow> string" where
  "href quote path coll =
     (let p = quote path in if coll \<and> \<not> ends_with p ''/'' then p @ ''/'' else p)"

definition key_for_unmapped :: "(string \<Rightarrow> string) \<Rightarrow> dav_req \<Rightarrow> string \<times> string" where
  "key_for_unmapped quote req =
     (let norm = normalize (req_path req) in
      case classify norm of
        TProgress _ \<Rightarrow> (norm @ CHR 0x00 # req_principal req, href quote norm False)
      | _ \<Rightarrow> (norm, href quote norm False))"

definition refuse_history :: "dav_req \<Rightarrow> dav_error + unit" where
  "refuse_history req =
     (if dav_is_history_path (req_path req)
      then Inl (dav_error_new 403 ''Not supported for reading history.'') else Inr ())"

section \<open>Lock descriptions\<close>

definition scope_as_str :: "scope \<Rightarrow> string" where
  "scope_as_str s = (case s of Exclusive \<Rightarrow> ''exclusive'' | Shared \<Rightarrow> ''shared'')"

definition timeout_text :: "nat \<Rightarrow> lock \<Rightarrow> string" where
  "timeout_text now l =
     (case expires l of
        None \<Rightarrow> ''Infinite''
      | Some at \<Rightarrow> ''Second-'' @ show_nat ((at - now) div 1000000000))"

definition activelock :: "nat \<Rightarrow> lock \<Rightarrow> string" where
  "activelock now l =
     ''<D:activelock><D:locktype><D:write /></D:locktype><D:lockscope><D:'' @ scope_as_str (lscope l) @
     '' /></D:lockscope><D:depth>'' @ (if infinite_depth l then ''infinity'' else ''0'') @
     ''</D:depth>'' @ owner_xml l @ ''<D:timeout>'' @ timeout_text now l @
     ''</D:timeout><D:locktoken><D:href>'' @ escape_text (token l) @
     ''</D:href></D:locktoken><D:lockroot><D:href>'' @ escape_text (root_href l) @
     ''</D:href></D:lockroot></D:activelock>''"

text \<open>An answer: its status, the \<open>Lock-Token\<close> header and the \<open>activelock\<close> elements of the body.\<close>

record dav_answer =
  da_status :: nat
  da_lock_token :: "string option"
  da_locks :: string

section \<open>The \<open>lockinfo\<close> body\<close>

definition scope_of :: "element \<Rightarrow> scope option" where
  "scope_of child =
     (case children child of
        [] \<Rightarrow> None
      | c # _ \<Rightarrow>
          if is_dav c ''exclusive'' then Some Exclusive
          else if is_dav c ''shared'' then Some Shared
          else None)"

definition owner_text :: "element \<Rightarrow> string" where
  "owner_text child =
     ''<D:owner>'' @ escape_text (etext child) @ concat (map to_xml (children child)) @ ''</D:owner>''"

fun lockinfo_fields ::
  "element list \<Rightarrow> scope option \<Rightarrow> bool \<Rightarrow> string \<Rightarrow> dav_error + (scope option \<times> bool \<times> string)" where
  "lockinfo_fields [] sc wt owner = Inr (sc, wt, owner)"
| "lockinfo_fields (child # cs) sc wt owner =
     (if is_dav child ''lockscope'' then lockinfo_fields cs (scope_of child) wt owner
      else if is_dav child ''locktype'' then
        lockinfo_fields cs sc
          (case children child of [] \<Rightarrow> False | c # _ \<Rightarrow> is_dav c ''write'') owner
      else if is_dav child ''owner'' then lockinfo_fields cs sc wt (owner_text child)
      else Inl (dav_error_new 400 (''Invalid node '' @ CHR 0x27 # clark child @ CHR 0x27 # ''.'')))"

definition parse_lockinfo :: "element option \<Rightarrow> dav_error + (scope \<times> string)" where
  "parse_lockinfo root =
     (case root of
        None \<Rightarrow> Inl (dav_error_status 400)
      | Some info \<Rightarrow>
          if \<not> is_dav info ''lockinfo'' then Inl (dav_error_status 400)
          else
            (case lockinfo_fields (children info) None False [] of
               Inl e \<Rightarrow> Inl e
             | Inr (None, wt, owner) \<Rightarrow> Inl (dav_error_new 400 ''Missing or invalid lockscope.'')
             | Inr (Some sc, wt, owner) \<Rightarrow>
                 if \<not> wt then Inl (dav_error_new 400 ''Missing or invalid locktype.'')
                 else Inr (sc, owner)))"

section \<open>LOCK\<close>

definition ascii_blank :: "string \<Rightarrow> bool" where
  "ascii_blank s = list_all (\<lambda>c. c \<in> {CHR '' '', CHR 0x09, CHR 0x0A, CHR 0x0C, CHR 0x0D}) s"

definition lock_depth :: "dav_req \<Rightarrow> dav_error + bool" where
  "lock_depth req =
     (case req_headers req ''depth'' of
        None \<Rightarrow> Inr True
      | Some v \<Rightarrow>
          if v = ''infinity'' then Inr True
          else if v = ''0'' then Inr False
          else Inl (dav_error_new 400
                 (''Expected Depth: '' @ CHR 0x27 # ''infinity'' @ CHR 0x27 # '' or '' @ CHR 0x27 # ''0'' @
                  CHR 0x27 # ''.'')))"

text \<open>The key and href a new lock gets, and whether it is a lock-null resource.\<close>

definition lock_target ::
  "(string \<Rightarrow> string) \<Rightarrow> disk \<Rightarrow> roots \<Rightarrow> dav_req \<Rightarrow> resource option \<Rightarrow> dav_error + (string \<times> string \<times> bool)" where
  "lock_target quote d roots req res =
     (case res of
        Some r \<Rightarrow> Inr (resource_key r (req_user req), href quote (res_path r) (is_collection r), False)
      | None \<Rightarrow>
          (case Option.bind (uri_parent (req_path req)) (\<lambda>p. lookup d roots p (req_caller req)) of
             None \<Rightarrow> Inl (dav_error_new 409 ''LOCK-0 parent must be a collection'')
           | Some parent \<Rightarrow>
               if \<not> is_collection parent
               then Inl (dav_error_new 409 ''LOCK-0 parent must be a collection'')
               else
                 (case member_path d roots parent (uri_name (req_path req)) (req_caller req) of
                    None \<Rightarrow> Inl (dav_error_new 403 ''Forbidden'')
                  | Some _ \<Rightarrow>
                      let (key, ref) = key_for_unmapped quote req in Inr (key, ref, True))))"

definition lock_refresh ::
  "nat \<Rightarrow> nat \<Rightarrow> nat \<Rightarrow> string \<Rightarrow> int \<Rightarrow> string list \<Rightarrow> lock_table \<Rightarrow> (dav_error + dav_answer) \<times> lock_table" where
  "lock_refresh t1 t2 t3 key tmo toks tbl =
     (case toks of
        [tok] \<Rightarrow>
          (case is_locked_by_token t1 key tok tbl of
             (False, tbl) \<Rightarrow> (Inl (dav_error_new 412 ''Lock token does not match URL.''), tbl)
           | (True, tbl) \<Rightarrow>
               (case refresh t2 tok tmo tbl of
                  (None, tbl) \<Rightarrow> (Inl (dav_error_status 412), tbl)
                | (Some l, tbl) \<Rightarrow>
                    (Inr \<lparr>da_status = 200, da_lock_token = None, da_locks = activelock t3 l\<rparr>, tbl)))
      | _ \<Rightarrow>
          (Inl (dav_error_new 400 ''Expected a lock token (only one lock may be refreshed at a time).''), tbl))"

definition lock_create ::
  "nat \<Rightarrow> nat \<Rightarrow> string \<Rightarrow> string \<Rightarrow> string \<Rightarrow> bool \<Rightarrow> scope \<Rightarrow> bool \<Rightarrow> string \<Rightarrow> int \<Rightarrow> string \<Rightarrow>
   lock_table \<Rightarrow> (dav_error + dav_answer) \<times> lock_table" where
  "lock_create t1 t2 tok key ref created sc deep owner tmo who tbl =
     (case acquire t1 tok key ref sc deep owner tmo who tbl of
        (Inl (Conflict hrefs), tbl) \<Rightarrow> (Inl (locked_by hrefs), tbl)
      | (Inl TooMany, tbl) \<Rightarrow> (Inl (dav_error_new 507 ''Too many locks.''), tbl)
      | (Inr l, tbl) \<Rightarrow>
          let (ls, tbl) = locks_on t2 key tbl in
          (Inr \<lparr>da_status = (if created then 201 else 200),
                da_lock_token = Some (''<'' @ token l @ ''>''),
                da_locks = concat (map (activelock t2) ls)\<rparr>, tbl))"

definition lock_method ::
  "http_date \<Rightarrow> validators \<Rightarrow> (string \<Rightarrow> string) \<Rightarrow> (string \<Rightarrow> event list) \<Rightarrow> disk \<Rightarrow> roots \<Rightarrow>
   nat \<Rightarrow> nat \<Rightarrow> nat \<Rightarrow> nat \<Rightarrow> string \<Rightarrow> dav_req \<Rightarrow> dav_error + string \<Rightarrow> lock_table \<Rightarrow>
   (dav_error + dav_answer) \<times> lock_table" where
  "lock_method http_date validators quote xml_events d roots t0 t1 t2 t3 tok req body tbl =
     (if is_virtual_root (req_path req)
      then (Inl (dav_error_new 403 ''The library root cannot be locked.''), tbl)
      else
        case refuse_history req of Inl e \<Rightarrow> (Inl e, tbl) | Inr _ \<Rightarrow>
        (case lock_depth req of Inl e \<Rightarrow> (Inl e, tbl) | Inr deep \<Rightarrow>
         (let res = lookup d roots (req_path req) (req_caller req);
              (checked, tbl) =
                (case res of
                   Some r \<Rightarrow> eval_if http_date validators t0 req r tbl
                 | None \<Rightarrow> (Inr (), tbl))
          in case checked of Inl e \<Rightarrow> (Inl e, tbl) | Inr _ \<Rightarrow>
          (let tmo = parse_timeout (req_headers req ''timeout'') in
           case body of Inl e \<Rightarrow> (Inl e, tbl) | Inr body \<Rightarrow>
           (if ascii_blank body then
              lock_refresh t1 t2 t3
                (case res of
                   Some r \<Rightarrow> resource_key r (req_user req)
                 | None \<Rightarrow> fst (key_for_unmapped quote req))
                tmo (req_tokens req) tbl
            else
              case parse_lockinfo (xml_parse (xml_events body)) of
                Inl e \<Rightarrow> (Inl e, tbl)
              | Inr (sc, owner) \<Rightarrow>
                  (case lock_target quote d roots req res of
                     Inl e \<Rightarrow> (Inl e, tbl)
                   | Inr (key, ref, created) \<Rightarrow>
                       lock_create t1 t2 tok key ref created sc deep owner tmo (req_principal req) tbl))))))"

section \<open>UNLOCK\<close>

definition header_token :: "dav_req \<Rightarrow> string option" where
  "header_token req =
     map_option (\<lambda>t. trim_end_c CHR ''>'' (trim_start_c CHR ''<'' (trim t))) (req_headers req ''lock-token'')"

definition unlock_token ::
  "nat \<Rightarrow> nat \<Rightarrow> string \<Rightarrow> string \<Rightarrow> string \<Rightarrow> lock_table \<Rightarrow> (dav_error + unit) \<times> lock_table" where
  "unlock_token t1 t2 key tok who tbl =
     (case is_locked_by_token t1 key tok tbl of
        (False, tbl) \<Rightarrow> (Inl (dav_error_new 409 ''Resource is not locked by token.''), tbl)
      | (True, tbl) \<Rightarrow>
          (case get_lock t2 tok tbl of
             (l, tbl) \<Rightarrow>
               if (case l of Some l \<Rightarrow> principal l \<noteq> who | None \<Rightarrow> False)
               then (Inl (dav_error_new 403 ''Token was created by another user.''), tbl)
               else (Inr (), release_lock tok tbl)))"

definition unlock_method ::
  "http_date \<Rightarrow> validators \<Rightarrow> (string \<Rightarrow> string) \<Rightarrow> disk \<Rightarrow> roots \<Rightarrow> nat \<Rightarrow> nat \<Rightarrow> nat \<Rightarrow> nat \<Rightarrow> dav_req \<Rightarrow>
   lock_table \<Rightarrow> (dav_error + nat) \<times> lock_table" where
  "unlock_method http_date validators quote d roots t0 t1 t2 t3 req tbl =
     (case refuse_history req of Inl e \<Rightarrow> (Inl e, tbl) | Inr _ \<Rightarrow>
      (if req_content_length req \<noteq> 0
       then (Inl (dav_error_new 415 ''The server does not handle any body content.''), tbl)
       else
         let res = lookup d roots (req_path req) (req_caller req);
             key = (case res of
                      Some r \<Rightarrow> resource_key r (req_user req)
                    | None \<Rightarrow> fst (key_for_unmapped quote req));
             (held, tbl) = (case res of None \<Rightarrow> locks_on t0 key tbl | Some _ \<Rightarrow> ([], tbl))
         in if res = None \<and> held = [] then (Inl (dav_error_new 404 (req_path req)), tbl)
            else
              (case header_token req of
                 None \<Rightarrow> (Inl (dav_error_new 400 ''Missing lock token.''), tbl)
               | Some tok \<Rightarrow>
                   (case (case res of
                            Some r \<Rightarrow> eval_if http_date validators t1 req r tbl
                          | None \<Rightarrow> (Inr (), tbl)) of
                      (Inl e, tbl) \<Rightarrow> (Inl e, tbl)
                    | (Inr _, tbl) \<Rightarrow>
                        (case unlock_token t2 t3 key tok (req_principal req) tbl of
                           (Inl e, tbl) \<Rightarrow> (Inl e, tbl)
                         | (Inr _, tbl) \<Rightarrow> (Inr 204, tbl))))))"

section \<open>PROPPATCH\<close>

fun prop_ops :: "bool \<Rightarrow> element list \<Rightarrow> dav_error + (element \<times> bool) list" where
  "prop_ops to_set [] = Inr []"
| "prop_ops to_set (p # ps) =
     (if \<not> to_set \<and> children p \<noteq> []
      then Inl (dav_error_new 400 (''prop element must be empty for '' @ CHR 0x27 # ''remove'' @ CHR 0x27 # ''.''))
      else (case prop_ops to_set ps of Inl e \<Rightarrow> Inl e | Inr us \<Rightarrow> Inr ((p, to_set) # us)))"

fun prop_lists :: "bool \<Rightarrow> element list \<Rightarrow> dav_error + (element \<times> bool) list" where
  "prop_lists to_set [] = Inr []"
| "prop_lists to_set (prop # props) =
     (if \<not> is_dav prop ''prop''
      then Inl (dav_error_new 400 (''Unknown tag (expected '' @ CHR 0x27 # ''prop'' @ CHR 0x27 # '').''))
      else
        (case prop_ops to_set (children prop) of
           Inl e \<Rightarrow> Inl e
         | Inr us \<Rightarrow>
             (case prop_lists to_set props of Inl e \<Rightarrow> Inl e | Inr vs \<Rightarrow> Inr (us @ vs))))"

fun prop_updates :: "element list \<Rightarrow> dav_error + (element \<times> bool) list" where
  "prop_updates [] = Inr []"
| "prop_updates (op # ops) =
     (if \<not> is_dav op ''set'' \<and> \<not> is_dav op ''remove''
      then Inl (dav_error_new 400
             (''Unknown tag (expected '' @ CHR 0x27 # ''set'' @ CHR 0x27 # '' or '' @ CHR 0x27 # ''remove'' @
              CHR 0x27 # '').''))
      else
        (case prop_lists (is_dav op ''set'') (children op) of
           Inl e \<Rightarrow> Inl e
         | Inr us \<Rightarrow> (case prop_updates ops of Inl e \<Rightarrow> Inl e | Inr vs \<Rightarrow> Inr (us @ vs))))"

definition prop_verdict :: "string \<Rightarrow> dead_props \<Rightarrow> element \<times> bool \<Rightarrow> nat option" where
  "prop_verdict key dp = (\<lambda>(p, to_set).
     if ns p = Some dav_ns then Some 403
     else if to_set \<and> \<not> dead_can_hold key dp then Some 507
     else None)"

fun apply_updates ::
  "string \<Rightarrow> bool \<Rightarrow> ((element \<times> bool) \<times> nat option) list \<Rightarrow> dead_props \<Rightarrow> nat list \<times> dead_props" where
  "apply_updates key failed [] dp = ([], dp)"
| "apply_updates key failed (((p, to_set), verdict) # us) dp =
     (let (st, dp) =
        (case verdict of
           Some st \<Rightarrow> (st, dp)
         | None \<Rightarrow>
             if failed then (424, dp)
             else
               (case dead_set key (ns p) (loc p) (if to_set then Some p else None) dp of
                  (True, dp) \<Rightarrow> (200, dp)
                | (False, dp) \<Rightarrow> (507, dp)));
          (sts, dp) = apply_updates key failed us dp
      in (st # sts, dp))"

definition proppatch_apply :: "string \<Rightarrow> (element \<times> bool) list \<Rightarrow> dead_props \<Rightarrow> nat list \<times> dead_props" where
  "proppatch_apply key updates dp =
     (let verdicts = map (prop_verdict key dp) updates;
          failed = list_ex (\<lambda>v. v \<noteq> None) verdicts
      in apply_updates key failed (zip updates verdicts) dp)"

definition proppatch_method ::
  "http_date \<Rightarrow> validators \<Rightarrow> (string \<Rightarrow> event list) \<Rightarrow> disk \<Rightarrow> roots \<Rightarrow> nat \<Rightarrow> nat \<Rightarrow> dav_req \<Rightarrow>
   dav_error + string \<Rightarrow> dav_state \<Rightarrow> (dav_error + nat list) \<times> dav_state" where
  "proppatch_method http_date validators xml_events d roots t0 t1 req body st =
     (if is_virtual_root (req_path req)
      then (Inl (dav_error_new 403
              (''The library root'' @ CHR 0x27 # ''s properties cannot be changed.'')), st)
      else
        case refuse_history req of Inl e \<Rightarrow> (Inl e, st) | Inr _ \<Rightarrow>
        (if (case req_headers req ''depth'' of Some v \<Rightarrow> v \<noteq> ''0'' | None \<Rightarrow> False)
         then (Inl (dav_error_new 400 (''Depth must be '' @ CHR 0x27 # ''0'' @ CHR 0x27 # ''.'')), st)
         else
           case lookup d roots (req_path req) (req_caller req) of
             None \<Rightarrow> (Inl (dav_error_new 404 (req_path req)), st)
           | Some res \<Rightarrow>
               (case eval_if http_date validators t0 req res (lock_tbl st) of
                  (Inl e, tbl) \<Rightarrow> (Inl e, st\<lparr>lock_tbl := tbl\<rparr>)
                | (Inr _, tbl) \<Rightarrow>
                    (let key = resource_key res (req_user req) in
                     case check_dav_locks t1 req key False tbl of
                       (Inl e, tbl) \<Rightarrow> (Inl e, st\<lparr>lock_tbl := tbl\<rparr>)
                     | (Inr _, tbl) \<Rightarrow>
                         (let st = st\<lparr>lock_tbl := tbl\<rparr> in
                          case body of Inl e \<Rightarrow> (Inl e, st) | Inr body \<Rightarrow>
                          (case xml_parse (xml_events body) of
                             None \<Rightarrow> (Inl (dav_error_status 400), st)
                           | Some root \<Rightarrow>
                               if \<not> is_dav root ''propertyupdate'' then (Inl (dav_error_status 400), st)
                               else
                                 (case prop_updates (children root) of
                                    Inl e \<Rightarrow> (Inl e, st)
                                  | Inr updates \<Rightarrow>
                                      (let (sts, dp) = proppatch_apply key updates (dead_tbl st)
                                       in (Inr sts, st\<lparr>dead_tbl := dp\<rparr>)))))))))"

section \<open>Lemmas\<close>

definition dead_inv :: "dead_props \<Rightarrow> bool" where
  "dead_inv dp \<longleftrightarrow>
     distinct (map fst dp) \<and> length dp \<le> max_dead_resources \<and>
     (\<forall>(k, es)\<in>set dp. es \<noteq> [] \<and> length es \<le> max_dead_per_resource \<and>
        distinct (map (\<lambda>e. (ns e, loc e)) es))"

lemma map_of_inv:
  "dead_inv dp \<Longrightarrow> map_of dp key = Some es \<Longrightarrow>
     length es \<le> max_dead_per_resource \<and> distinct (map (\<lambda>e. (ns e, loc e)) es)"
  unfolding dead_inv_def by (auto dest: map_of_SomeD)

lemma length_delete_le: "length (AList.delete k al) \<le> length al"
  by (simp add: AList.delete_eq)

lemma dead_inv_update:
  assumes "dead_inv dp" and "es \<noteq> []" and "length es \<le> max_dead_per_resource"
    and "distinct (map (\<lambda>e. (ns e, loc e)) es)"
    and "map_of dp key \<noteq> None \<or> length dp < max_dead_resources"
  shows "dead_inv (AList.update key es dp)"
  using assms unfolding dead_inv_def
  by (auto simp: length_update distinct_update dest!: set_update_cases)

lemma dead_inv_filter: "dead_inv dp \<Longrightarrow> dead_inv (filter P dp)"
  by (auto simp: dead_inv_def distinct_map_filter intro: le_trans [OF length_filter_le])

lemma dead_inv_delete: "dead_inv dp \<Longrightarrow> dead_inv (AList.delete key dp)"
  by (simp add: AList.delete_eq dead_inv_filter)

lemma dead_set_inv:
  assumes "dead_inv dp"
    and v: "\<And>v. value = Some v \<Longrightarrow> same_prop n l v"
  shows "dead_inv (snd (dead_set key n l value dp))"
proof -
  define old where "old = (case map_of dp key of Some es \<Rightarrow> es | None \<Rightarrow> [])"
  define kept where "kept = filter (\<lambda>e. \<not> same_prop n l e) old"
  have old: "length old \<le> max_dead_per_resource" "distinct (map (\<lambda>e. (ns e, loc e)) old)"
    using map_of_inv [OF assms(1)] by (auto simp: old_def split: option.splits)
  have kept: "length kept \<le> max_dead_per_resource" "distinct (map (\<lambda>e. (ns e, loc e)) kept)"
    using old by (auto simp: kept_def distinct_map_filter intro: le_trans [OF length_filter_le])
  have old_key: "map_of dp key \<noteq> None" if "kept \<noteq> []"
    using that by (auto simp: kept_def old_def split: option.splits)
  show ?thesis
  proof (cases "value \<noteq> None \<and> map_of dp key = None \<and> max_dead_resources \<le> length dp")
    case True
    with assms(1) show ?thesis by (simp add: dead_set_def)
  next
    case False
    note ds = dead_set_def if_not_P [OF False] Let_def old_def [symmetric] kept_def [symmetric]
    show ?thesis
    proof (cases "value")
      case None
      then show ?thesis
        using assms(1) kept old_key
        by (auto simp: ds dead_inv_delete intro: dead_inv_update)
    next
      case (Some v)
      have "(ns v, loc v) \<notin> (\<lambda>e. (ns e, loc e)) ` set kept"
        using v [OF Some] by (auto simp: kept_def same_prop_def)
      moreover have "max_dead_per_resource \<noteq> 0" by (simp add: max_dead_per_resource_def)
      ultimately show ?thesis
        using assms(1) kept old_key False Some
        by (auto simp: ds intro!: dead_inv_update)
    qed
  qed
qed

text \<open>The operations of the store.\<close>

datatype dead_op = DeadPut string element | DeadRemove string "string option" string | DeadRemoveTree string

fun dead_step :: "dead_props \<Rightarrow> dead_op \<Rightarrow> dead_props" where
  "dead_step dp (DeadPut key e) = snd (dead_set key (ns e) (loc e) (Some e) dp)"
| "dead_step dp (DeadRemove key n l) = snd (dead_set key n l None dp)"
| "dead_step dp (DeadRemoveTree key) = dead_remove_tree key dp"

interpretation dp: machine dead_step dead_inv
proof
  fix dp op
  assume "dead_inv dp"
  then show "dead_inv (dead_step dp op)"
    by (cases op) (auto simp: dead_remove_tree_def same_prop_def intro: dead_set_inv dead_inv_filter)
qed

lemma apply_updates_failed: "snd (apply_updates key True us dp) = dp"
  by (induction key "True" us dp rule: apply_updates.induct)
    (auto simp: Let_def split: option.splits prod.splits)

lemma apply_updates_length: "length (fst (apply_updates key failed us dp)) = length us"
  by (induction key failed us dp rule: apply_updates.induct)
    (auto simp: Let_def split: option.splits prod.splits bool.splits)

text \<open>The updates as operations of the store.\<close>

definition update_op :: "string \<Rightarrow> element \<times> bool \<Rightarrow> dead_op" where
  "update_op key = (\<lambda>(p, to_set). if to_set then DeadPut key p else DeadRemove key (ns p) (loc p))"

lemma apply_updates_steps:
  "list_all (\<lambda>u. snd u = None) us \<Longrightarrow>
     snd (apply_updates key False us dp) = foldl dead_step dp (map (update_op key \<circ> fst) us)"
proof (induction key "False" us dp rule: apply_updates.induct)
  case (2 key p to_set verdict us dp)
  then show ?case
    by (auto simp: Let_def update_op_def split: prod.splits bool.splits)
qed simp

lemma proppatch_refused:
  assumes "u \<in> set updates" and "prop_verdict key dp u \<noteq> None"
  shows "snd (proppatch_apply key updates dp) = dp"
proof -
  have "list_ex (\<lambda>v. v \<noteq> None) (map (prop_verdict key dp) updates)"
    using assms by (auto simp: list_ex_iff)
  then show ?thesis by (simp add: proppatch_apply_def apply_updates_failed)
qed

lemma proppatch_applied:
  assumes "\<And>u. u \<in> set updates \<Longrightarrow> prop_verdict key dp u = None"
  shows "snd (proppatch_apply key updates dp) = foldl dead_step dp (map (update_op key) updates)"
proof -
  have none: "map (prop_verdict key dp) updates = replicate (length updates) None"
    using assms by (induction updates) auto
  have "list_all (\<lambda>u. snd u = None) (zip updates (replicate (length updates) None))"
    by (auto simp: list_all_iff set_zip)
  from apply_updates_steps [OF this, of key dp] show ?thesis
    by (simp add: proppatch_apply_def none list_ex_iff map_map [symmetric] del: map_map)
qed

text \<open>The lock table after UNLOCK.\<close>

lemma expired_mono: "lock_expired t l \<Longrightarrow> t \<le> t' \<Longrightarrow> lock_expired t' l"
  by (auto simp: lock_expired_def split: option.splits)

definition only_expired :: "nat \<Rightarrow> lock_table \<Rightarrow> lock_table \<Rightarrow> bool" where
  "only_expired t tbl tbl' \<longleftrightarrow> set tbl' \<subseteq> set tbl \<and> (\<forall>l\<in>set tbl. \<not> lock_expired t l \<longrightarrow> l \<in> set tbl')"

lemma only_expired_refl [simp]: "only_expired t tbl tbl"
  by (simp add: only_expired_def)

lemma only_expired_trans: "only_expired t a b \<Longrightarrow> only_expired t b c \<Longrightarrow> only_expired t a c"
  by (auto simp: only_expired_def)

lemma only_expired_purge: "t \<le> t' \<Longrightarrow> only_expired t' tbl (purge t tbl)"
  by (auto simp: only_expired_def dest: expired_mono)

lemma only_expired_steps:
  assumes "t \<le> t'"
  shows "only_expired t' tbl (snd (locks_on t key tbl))"
    and "only_expired t' tbl (snd (get_lock t tok tbl))"
    and "only_expired t' tbl (snd (is_locked_by_token t key tok tbl))"
    and "only_expired t' tbl (snd (eval_if http_date validators t req r tbl))"
  using only_expired_purge [OF assms]
  by (auto simp: locks_on_def get_lock_def is_locked_by_token_def eval_if_def indirect_tokens_def Let_def
      split: option.splits sum.splits prod.splits)

lemma find_token: "find (\<lambda>l. token l = tok) tbl = Some l \<Longrightarrow> l \<in> set tbl \<and> token l = tok"
  by (auto simp: find_Some_iff)

lemma find_token_distinct:
  "distinct (map token tbl) \<Longrightarrow> l \<in> set tbl \<Longrightarrow> token l = tok \<Longrightarrow> find (\<lambda>l. token l = tok) tbl = Some l"
  by (induction tbl) (auto simp: image_iff)

lemma distinct_purge: "distinct (map token tbl) \<Longrightarrow> distinct (map token (purge t tbl))"
  by (simp add: purge_def distinct_map_filter)

lemma unlock_token_cases:
  assumes "unlock_token t1 t2 key tok who tbl = (r, tbl')" and "t1 \<le> t2" and "distinct (map token tbl)"
  shows "case r of
      Inl _ \<Rightarrow> only_expired t2 tbl tbl'
    | Inr _ \<Rightarrow> (\<exists>mid. only_expired t2 tbl mid \<and> tbl' = release_lock tok mid) \<and>
        (\<forall>l\<in>set tbl. token l = tok \<and> \<not> lock_expired t2 l \<longrightarrow> principal l = who)"
proof -
  obtain held mid1 where 1: "is_locked_by_token t1 key tok tbl = (held, mid1)" by fastforce
  obtain got mid2 where 2: "get_lock t2 tok mid1 = (got, mid2)" by fastforce
  have e1: "only_expired t2 tbl mid1" using only_expired_steps(3) [OF assms(2)] 1 by (metis snd_conv)
  have mid1: "mid1 = purge t1 tbl"
    using 1 by (auto simp: is_locked_by_token_def get_lock_def Let_def split: option.splits)
  have e2: "only_expired t2 tbl mid2"
    using only_expired_trans [OF e1] only_expired_steps(2) [OF order_refl] 2 by (metis snd_conv)
  have got: "got = find (\<lambda>l. token l = tok) (purge t2 mid1)"
    using 2 by (auto simp: get_lock_def Let_def)
  have "principal l = who"
    if "held" "\<not> (case got of Some l \<Rightarrow> principal l \<noteq> who | None \<Rightarrow> False)"
      "l \<in> set tbl" "token l = tok" "\<not> lock_expired t2 l" for l
  proof -
    have "l \<in> set (purge t2 mid1)" using that(3,5) e1 by (auto simp: only_expired_def)
    with that(4) have "got = Some l"
      unfolding got mid1 by (intro find_token_distinct distinct_purge assms(3))
    with that(2) show ?thesis by simp
  qed
  with assms(1) 1 2 e1 e2 show ?thesis
    by (auto simp: unlock_token_def split: bool.splits if_splits)
qed

lemma is_child_trans: "is_child p k \<Longrightarrow> is_child k q \<Longrightarrow> p \<noteq> [] \<Longrightarrow> k \<noteq> [] \<Longrightarrow> is_child p q"
  by (auto simp: is_child_iff append_eq_Cons_conv split: if_splits)

text \<open>Looking up a library path written as a list of segments.\<close>

lemma per_user_rel_head:
  assumes "segs \<noteq> []" and "\<And>x. x \<in> set segs \<Longrightarrow> CHR ''/'' \<notin> set x \<and> x \<noteq> []"
    and "\<not> is_per_user_root_name (hd segs)"
  shows "\<not> is_per_user_rel (join_c CHR ''/'' segs)" and "trim_c CHR ''/'' (join_c CHR ''/'' segs) = join_c CHR ''/'' segs"
    and "join_c CHR ''/'' segs \<noteq> []"
proof -
  obtain x xs where segs: "segs = x # xs" using assms(1) by (cases segs) auto
  let ?rel = "join_c CHR ''/'' segs"
  have x: "x \<noteq> []" "CHR ''/'' \<notin> set x" using assms(2) [of x] by (simp_all add: segs)
  have hd: "?rel \<noteq> []" "hd ?rel \<noteq> CHR ''/''"
    using x by (cases x; cases "xs = []"; force simp: segs join_c_Cons)+
  have last: "last ?rel \<noteq> CHR ''/''"
    using assms(1,2)
  proof (induction segs)
    case (Cons y ys)
    show ?case
    proof (cases "ys = []")
      case True
      with Cons.prems(2) [of y] show ?thesis by (auto dest: last_in_set)
    next
      case False
      then have "join_c CHR ''/'' ys \<noteq> []"
        using Cons.prems(2) [of "hd ys"] by (cases ys rule: list.exhaust; cases "tl ys") (auto simp: join_c_Cons)
      with False Cons show ?thesis by (simp add: join_c_Cons)
    qed
  qed simp
  show "?rel \<noteq> []" by (rule hd(1))
  show trim: "trim_c CHR ''/'' ?rel = ?rel"
    by (rule trim_c_id) (use hd last in simp)
  have "?rel \<noteq> n \<and> (\<forall>r. ?rel \<noteq> n @ CHR ''/'' # r)" if n: "is_per_user_root_name n" for n
  proof -
    have "split_c CHR ''/'' ?rel = segs"
      by (rule split_join_c) (use assms in auto)
    moreover have "split_c CHR ''/'' n = [n]" "\<And>r. split_c CHR ''/'' (n @ CHR ''/'' # r) = n # split_c CHR ''/'' r"
      using per_user_name_slashfree [OF n] by (simp_all add: split_c_no_sep split_c_append)
    ultimately show ?thesis using assms(3) n by (metis list.sel(1))
  qed
  then show "\<not> is_per_user_rel ?rel"
    by (auto simp: is_per_user_rel_def per_user_cases trim is_per_user_root_name_def per_user_dirs_def
        strip_prefix_Some_iff Let_def split: if_splits option.splits)
qed

lemma normalize_library:
  assumes "segs \<noteq> []" and "\<And>x. x \<in> set segs \<Longrightarrow> CHR ''/'' \<notin> set x \<and> x \<noteq> []"
    and "\<not> is_per_user_root_name (hd segs)"
  shows "normalize (''/mokuro-reader/'' @ join_c CHR ''/'' segs) = ''/mokuro-reader/'' @ join_c CHR ''/'' segs"
proof -
  note rel = per_user_rel_head [OF assms]
  have "trim_c CHR ''/'' (''mokuro-reader/'' @ join_c CHR ''/'' segs) = ''mokuro-reader/'' @ join_c CHR ''/'' segs"
    by (rule trim_c_id) (use rel(2,3) trim_c_ends(2) [of "CHR ''/''" "join_c CHR ''/'' segs"] in simp)
  then show ?thesis by (simp add: normalize_def)
qed

lemma lookup_library:
  assumes "segs \<noteq> []" and "\<And>x. x \<in> set segs \<Longrightarrow> CHR ''/'' \<notin> set x \<and> x \<noteq> [] \<and> x \<noteq> ''..''"
    and "\<not> is_per_user_root_name (hd segs)"
    and phys: "phys = library_root roots @ filter (\<lambda>s. s \<noteq> [] \<and> s \<noteq> ''.'') segs"
    and "link_free (links d) phys" and "stat_of d phys = Some st"
    and "library_rel roots phys \<noteq> None"
  shows "lookup d roots (''/mokuro-reader/'' @ join_c CHR ''/'' segs) c =
           Some (make_resource (''/mokuro-reader/'' @ join_c CHR ''/'' segs) phys st KLibrary)"
proof -
  let ?rel = "join_c CHR ''/'' segs"
  note rel = per_user_rel_head [OF assms(1) _ assms(3)]
  have r: "\<not> is_per_user_rel ?rel" "trim_c CHR ''/'' ?rel = ?rel" "?rel \<noteq> []"
    by (rule rel; use assms(2) in blast)+
  have norm: "normalize (''/mokuro-reader/'' @ ?rel) = ''/mokuro-reader/'' @ ?rel"
    by (rule normalize_library) (use assms(1-3) in auto)
  have cl: "classify (''/mokuro-reader/'' @ ?rel) = TLibrary ?rel"
    using r(1,3) by (simp add: classify_def norm [simplified] reader_root_def Let_def)
  have "split_c CHR ''/'' ?rel = segs"
    by (rule split_join_c) (use assms(1,2) in auto)
  moreover have "list_all (\<lambda>s. s \<noteq> ''..'') segs" using assms(2) by (auto simp: list_all_iff)
  ultimately have "resolve_under (links d) (library_root roots) ?rel = Some phys"
    using resolve_loop_plain [of segs "links d" "library_root roots" 0 True] assms(5)
    by (simp add: resolve_under_def phys)
  then have "library_member d roots (library_root roots) ?rel = Some phys"
    using assms(7) by (auto simp: library_member_def phys)
  with assms(6) show ?thesis
    by (simp add: lookup_def norm [simplified] cl [simplified])
qed

section \<open>Properties\<close>

text \<open>
  Whoever holds an exclusive lock may write where it protects, as long as it is not
  released: the write check succeeds for its principal with its token on the locked path
  and, for a lock of infinite depth, on everything below, deep writes included, whatever
  locks existed when it was granted.
\<close>

theorem exclusive_lock_grants:
  assumes "acquire now tok key ref Exclusive dp owner tmo who tbl = (Inr l, tbl')"
    and "covers l k" and "deep \<longrightarrow> dp" and "key \<noteq> []" and "k \<noteq> []"
  shows "fst (check_write later k deep [tok] who tbl') = Inr ()"
proof -
  note acq = acquire_Inr [OF assms(1)]
  have "if covers m k then principal m = who \<and> token m \<in> set [tok] else \<not> (deep \<and> is_child k (lkey m))"
    if m: "m \<in> set tbl'" "\<not> lock_expired later m" for m
  proof (cases "m = l")
    case True
    with acq assms(2) show ?thesis by simp
  next
    case False
    with m acq(1) have "m \<in> set (purge now tbl)" by (auto simp: insert_lock_def)
    with acq(8) have free: "\<not> acquire_conflicts key Exclusive dp m" by blast
    then have apart: "\<not> covers m key" "\<not> (dp \<and> is_child key (lkey m))"
      by (auto simp: acquire_conflicts_def covers_def Let_def split: if_splits)
    have "\<not> covers m k"
      using covers_chain [OF assms(2), of m] apart acq(3,5) by (auto simp: covers_def)
    moreover have "\<not> (deep \<and> is_child k (lkey m))"
      using assms(2-5) apart(2) acq(3,5) by (auto simp: covers_def dest: is_child_trans)
    ultimately show ?thesis by simp
  qed
  then show ?thesis unfolding check_write_ok_iff by blast
qed

theorem exclusive_lock_grants_witness:
  "fst (check_write 9 ''/a/b'' True [''t1''] ''al''
     (snd (acquire 0 ''t1'' ''/a'' ''/a'' Exclusive True [] (-1) ''al'' []))) = Inr ()"
proof -
  let ?l = "\<lparr>token = ''t1'', lkey = ''/a'', root_href = ''/a'', lscope = Exclusive,
     infinite_depth = True, owner_xml = [], timeout = -1, expires = None, principal = ''al''\<rparr>"
  have a: "acquire 0 ''t1'' ''/a'' ''/a'' Exclusive True [] (-1) ''al'' [] = (Inr ?l, [?l])"
    by (simp add: acquire_def insert_lock_def purge_def max_locks_def expiry_def Let_def)
  have "covers ?l ''/a/b''" by (simp add: covers_def is_child_def)
  from exclusive_lock_grants [OF a this, of True 9] show ?thesis by (simp add: a)
qed

text \<open>
  UNLOCK only ever removes the lock its \<open>Lock-Token\<close> header names, and only for the
  account that took it: a refused UNLOCK, whatever the reason, leaves every live lock in
  place, and a granted one answers 204, removes that token's lock and no other live one,
  and the lock, if still live, was the requester's own.
\<close>

theorem unlock_safe:
  assumes "unlock_method http_date validators quote d roots t0 t1 t2 t3 req tbl = (r, tbl')"
    and "t0 \<le> t3" and "t1 \<le> t3" and "t2 \<le> t3" and "distinct (map token tbl)"
  shows "case r of
      Inl _ \<Rightarrow> only_expired t3 tbl tbl'
    | Inr st \<Rightarrow> st = 204 \<and> (\<exists>tok mid. header_token req = Some tok \<and> only_expired t3 tbl mid \<and>
        tbl' = release_lock tok mid \<and>
        (\<forall>l\<in>set tbl. token l = tok \<and> \<not> lock_expired t3 l \<longrightarrow> principal l = req_principal req))"
proof -
  define res where "res = lookup d roots (req_path req) (req_caller req)"
  define key where "key = (case res of
      Some r \<Rightarrow> resource_key r (req_user req) | None \<Rightarrow> fst (key_for_unmapped quote req))"
  obtain held tbl1 where h: "(case res of None \<Rightarrow> locks_on t0 key tbl | Some _ \<Rightarrow> ([], tbl)) = (held, tbl1)"
    by fastforce
  have e1: "only_expired t3 tbl tbl1" and d1: "distinct (map token tbl1)"
    using h only_expired_steps(1) [OF assms(2), of tbl key] assms(5)
    by (auto simp: locks_on_def Let_def distinct_purge split: option.splits)
  obtain ok tbl2 where c: "(case res of
      Some r \<Rightarrow> eval_if http_date validators t1 req r tbl1 | None \<Rightarrow> (Inr (), tbl1)) = (ok, tbl2)"
    by fastforce
  have e2: "only_expired t3 tbl tbl2"
    using c only_expired_trans [OF e1] only_expired_steps(4) [OF assms(3), of tbl1 http_date validators req]
    by (auto split: option.splits) (metis snd_conv)
  have d2: "distinct (map token tbl2)"
    using c d1 by (auto simp: eval_if_def indirect_tokens_def Let_def distinct_purge
        split: option.splits sum.splits prod.splits)
  have main: "case r of
      Inl _ \<Rightarrow> only_expired t3 tbl2 tbl'
    | Inr st \<Rightarrow> st = 204 \<and> (\<exists>mid. only_expired t3 tbl2 mid \<and> tbl' = release_lock tok mid) \<and>
        (\<forall>l\<in>set tbl2. token l = tok \<and> \<not> lock_expired t3 l \<longrightarrow> principal l = req_principal req)"
    if "header_token req = Some tok" "ok = Inr ()"
      "(case unlock_token t2 t3 key tok (req_principal req) tbl2 of
          (Inl e, tbl) \<Rightarrow> (Inl e, tbl) | (Inr _, tbl) \<Rightarrow> (Inr 204, tbl)) = (r, tbl')" for tok
    using that(3) unlock_token_cases [OF _ assms(4) d2]
    by (fastforce split: prod.splits sum.splits)
  have e': "only_expired t3 tbl mid" if "only_expired t3 tbl2 mid" for mid
    by (rule only_expired_trans [OF e2 that])
  have own: "l \<in> set tbl2" if "l \<in> set tbl" "\<not> lock_expired t3 l" for l
    using e2 that by (simp add: only_expired_def)
  have eq: "(r, tbl') =
    (case refuse_history req of Inl e \<Rightarrow> (Inl e, tbl) | Inr _ \<Rightarrow>
      (if req_content_length req \<noteq> 0
       then (Inl (dav_error_new 415 ''The server does not handle any body content.''), tbl)
       else if res = None \<and> held = [] then (Inl (dav_error_new 404 (req_path req)), tbl1)
       else
         (case header_token req of
            None \<Rightarrow> (Inl (dav_error_new 400 ''Missing lock token.''), tbl1)
          | Some tok \<Rightarrow>
              (case ok of
                 Inl e \<Rightarrow> (Inl e, tbl2)
               | Inr _ \<Rightarrow>
                   (case unlock_token t2 t3 key tok (req_principal req) tbl2 of
                      (Inl e, tbl) \<Rightarrow> (Inl e, tbl)
                    | (Inr _, tbl) \<Rightarrow> (Inr 204, tbl))))))"
    unfolding assms(1) [symmetric] unlock_method_def Let_def res_def [symmetric] key_def [symmetric] h prod.case c ..
  show ?thesis
  proof (cases "\<exists>e. refuse_history req = Inl e \<or> req_content_length req \<noteq> 0 \<or> res = None \<and> held = [] \<or>
      header_token req = None \<or> ok = Inl e")
    case True
    with eq e1 e2 show ?thesis
      by (cases r) (auto split: sum.splits if_splits option.splits)
  next
    case False
    then obtain tok where tok: "header_token req = Some tok" and ok: "ok = Inr ()"
      by (cases ok) auto
    with False eq have "(case unlock_token t2 t3 key tok (req_principal req) tbl2 of
          (Inl e, tbl) \<Rightarrow> (Inl e, tbl) | (Inr _, tbl) \<Rightarrow> (Inr 204, tbl)) = (r, tbl')"
      by (cases "refuse_history req") auto
    from main [OF tok ok this] tok e' own show ?thesis
      by (cases r) auto
  qed
qed

definition demo_req :: "string \<Rightarrow> string \<Rightarrow> headers \<Rightarrow> dav_req" where
  "demo_req path user hs =
     \<lparr>req_method = ''UNLOCK'', req_path = path, req_headers = hs, req_user = Some user,
      req_owns_root = False, req_if = None\<rparr>"

definition demo_lock :: "string \<Rightarrow> string \<Rightarrow> string \<Rightarrow> lock" where
  "demo_lock tok key who = \<lparr>token = tok, lkey = key, root_href = key, lscope = Exclusive,
     infinite_depth = False, owner_xml = [], timeout = -1, expires = None, principal = who\<rparr>"

theorem unlock_safe_witness:
  "fst (unlock_method (\<lambda>_. None) (\<lambda>_. (None, 0)) id demo_disk demo_roots 0 0 0 0
     (demo_req ''/mokuro-reader/S'' ''bo'' [''lock-token'' \<mapsto> ''<t1>''])
     [demo_lock ''t1'' ''/mokuro-reader/S'' ''al'']) \<noteq> Inr 204"
proof
  let ?req = "demo_req ''/mokuro-reader/S'' ''bo'' [''lock-token'' \<mapsto> ''<t1>'']"
  let ?tbl = "[demo_lock ''t1'' ''/mokuro-reader/S'' ''al'']"
  let ?r = "unlock_method (\<lambda>_. None) (\<lambda>_. (None, 0)) id demo_disk demo_roots 0 0 0 0 ?req ?tbl"
  assume r: "fst ?r = Inr 204"
  have "trim ''<t1>'' = ''<t1>''" by (rule trim_solid) (simp add: solid_def)
  then have tok: "header_token ?req = Some ''t1''"
    by (simp add: header_token_def demo_req_def trim_end_c_def)
  have "?r = (Inr 204, snd ?r)" using r by (metis prod.collapse)
  from unlock_safe [OF this] r tok show False
    by (auto simp: demo_lock_def lock_expired_def demo_req_def req_principal_def)
qed

text \<open>
  C38: A lock is keyed by the text of the path, not by the file it names: two spellings of
  one library file, with and without a \<open>.\<close> segment, resolve to the same physical file but
  to different lock keys, so another account's write to the second spelling passes the
  check although the first is exclusively locked.
\<close>

theorem lock_missed_by_alias:
  assumes "link_free (links d) (library_root roots @ [s, v])"
    and "stat_of d (library_root roots @ [s, v]) = Some st"
    and "plain_segment s" and "plain_segment v" and "CHR ''/'' \<notin> set s" and "CHR ''/'' \<notin> set v"
    and "\<not> is_per_user_root_name s"
    and "who \<noteq> principal l" and "lkey l = ''/mokuro-reader/'' @ s @ ''/'' @ v" and "\<not> infinite_depth l"
  shows "\<exists>r r'. lookup d roots (''/mokuro-reader/'' @ s @ ''/'' @ v) c = Some r \<and>
           lookup d roots (''/mokuro-reader/'' @ s @ ''/./'' @ v) c = Some r' \<and> res_phys r = res_phys r' \<and>
           fst (check_write now (resource_key r' user) False [] who [l]) = Inr () \<and>
           (\<not> lock_expired now l \<longrightarrow> fst (check_write now (resource_key r user) False [] who [l]) \<noteq> Inr ())"
proof -
  let ?p = "library_root roots @ [s, v]"
  have rel: "library_rel roots ?p \<noteq> None"
    using assms(5,7) by (simp add: library_rel_def relative_posix_def split_c_append)
  note plain = assms(3,4) [unfolded plain_segment_def]
  have a: "lookup d roots (''/mokuro-reader/'' @ join_c CHR ''/'' [s, v]) c =
      Some (make_resource (''/mokuro-reader/'' @ join_c CHR ''/'' [s, v]) ?p st KLibrary)"
    by (rule lookup_library) (use assms plain rel in auto)
  have b: "lookup d roots (''/mokuro-reader/'' @ join_c CHR ''/'' [s, ''.'', v]) c =
      Some (make_resource (''/mokuro-reader/'' @ join_c CHR ''/'' [s, ''.'', v]) ?p st KLibrary)"
    by (rule lookup_library) (use assms plain rel in auto)
  have norm: "normalize (''/mokuro-reader/'' @ join_c CHR ''/'' segs) = ''/mokuro-reader/'' @ join_c CHR ''/'' segs"
    if "segs = [s, v] \<or> segs = [s, ''.'', v]" for segs
    by (rule normalize_library) (use that assms(5-7) plain in auto)
  have keys: "resource_key (make_resource (''/mokuro-reader/'' @ s @ ''/'' @ v) ?p st KLibrary) user =
      ''/mokuro-reader/'' @ s @ ''/'' @ v"
    "resource_key (make_resource (''/mokuro-reader/'' @ s @ ''/./'' @ v) ?p st KLibrary) user =
      ''/mokuro-reader/'' @ s @ ''/./'' @ v"
    using norm [of "[s, v]"] norm [of "[s, ''.'', v]"] by (simp_all add: resource_key_def Let_def)
  have ne: "lkey l \<noteq> ''/mokuro-reader/'' @ s @ ''/./'' @ v"
    using arg_cong [of "lkey l" "''/mokuro-reader/'' @ s @ ''/./'' @ v" length] by (auto simp: assms(9))
  have free: "fst (check_write now (''/mokuro-reader/'' @ s @ ''/./'' @ v) False [] who [l]) = Inr ()"
    using ne assms(10) by (auto simp: check_write_ok_iff covers_def)
  have held: "fst (check_write now (''/mokuro-reader/'' @ s @ ''/'' @ v) False [] who [l]) \<noteq> Inr ()"
    if "\<not> lock_expired now l"
    using that assms(8) unfolding assms(9) [symmetric] by (auto simp: check_write_ok_iff covers_def)
  show ?thesis
  proof (intro exI conjI)
    show "lookup d roots (''/mokuro-reader/'' @ s @ ''/'' @ v) c =
        Some (make_resource (''/mokuro-reader/'' @ s @ ''/'' @ v) ?p st KLibrary)"
      using a by simp
    show "lookup d roots (''/mokuro-reader/'' @ s @ ''/./'' @ v) c =
        Some (make_resource (''/mokuro-reader/'' @ s @ ''/./'' @ v) ?p st KLibrary)"
      using b by simp
  qed (simp_all only: make_resource_sel keys free, use held in blast)
qed

theorem lock_missed_by_alias_witness:
  "\<exists>r. lookup demo_disk demo_roots ''/mokuro-reader/S/./v'' (Some (demo_caller ''bo'' False)) = Some r \<and>
     fst (check_write 0 (resource_key r (Some ''bo'')) False [] ''bo''
            [demo_lock ''t'' ''/mokuro-reader/S/v'' ''al'']) = Inr ()"
proof -
  have "link_free (links demo_disk) (library_root demo_roots @ [''S'', ''v''])"
    by (simp add: link_free_def demo_disk_def)
  from lock_missed_by_alias [OF this, of "demo_stat True" "''bo''"
      "demo_lock ''t'' ''/mokuro-reader/S/v'' ''al''" "Some (demo_caller ''bo'' False)" 0 "Some ''bo''"]
  show ?thesis
    by (auto simp: demo_disk_def demo_lock_def plain_segment_def is_per_user_root_name_def
        per_user_files_def per_user_dirs_def history_dir_def)
qed

end
