(* ===== verification/Roles.thy ===== *)
theory Roles
  imports Rust_Prelude
begin

text \<open>
  \<open>bunko-core/src/roles.rs\<close> (the \<open>Role\<close> enumeration, its rank, its order \<open>at_least\<close> and its
  text forms) and the capability table \<open>has_perm\<close> of \<open>bunko-server/src/auth/mod.rs\<close>.
\<close>

section \<open>Roles\<close>

datatype role = Anonymous | Registered | Uploader | Editor | Inviter | Admin | Processor

definition all_roles :: "role list" where
  "all_roles = [Anonymous, Registered, Uploader, Editor, Inviter, Admin, Processor]"

fun role_as_str :: "role \<Rightarrow> string" where
  "role_as_str Anonymous = ''anonymous''"
| "role_as_str Registered = ''registered''"
| "role_as_str Uploader = ''uploader''"
| "role_as_str Editor = ''editor''"
| "role_as_str Inviter = ''inviter''"
| "role_as_str Admin = ''admin''"
| "role_as_str Processor = ''processor''"

fun role_level :: "role \<Rightarrow> nat" where
  "role_level Anonymous = 0"
| "role_level Registered = 1"
| "role_level Processor = 1"
| "role_level Uploader = 2"
| "role_level Editor = 3"
| "role_level Inviter = 4"
| "role_level Admin = 5"

definition at_least :: "role \<Rightarrow> role \<Rightarrow> bool" where
  "at_least self other =
     (if self = Processor \<and> (other = Processor \<or> other = Anonymous \<or> other = Registered) then True
      else if self = Processor \<or> other = Processor then False
      else role_level self \<ge> role_level other)"

definition role_from_str :: "string \<Rightarrow> string + role" where
  "role_from_str s =
     (if s = ''anonymous'' then Inr Anonymous
      else if s = ''registered'' then Inr Registered
      else if s = ''uploader'' \<or> s = ''writer'' then Inr Uploader
      else if s = ''editor'' then Inr Editor
      else if s = ''inviter'' then Inr Inviter
      else if s = ''admin'' then Inr Admin
      else if s = ''processor'' then Inr Processor
      else Inl (''unknown role '' @ [CHR 0x27] @ s @ [CHR 0x27]))"

text \<open>The rank separates the human roles; \<open>at_least\<close> is a partial order, with \<open>processor\<close> beside it.\<close>

lemma role_level_inj: "role_level a = role_level b \<Longrightarrow> a \<noteq> Processor \<Longrightarrow> b \<noteq> Processor \<Longrightarrow> a = b"
  by (cases a; cases b) auto

lemma set_all_roles [simp]: "set all_roles = UNIV"
  by (auto simp: all_roles_def) (metis role.exhaust)

instantiation role :: order
begin

definition less_eq_role :: "role \<Rightarrow> role \<Rightarrow> bool" where
  "less_eq_role a b \<longleftrightarrow> at_least b a"

definition less_role :: "role \<Rightarrow> role \<Rightarrow> bool" where
  "less_role a b \<longleftrightarrow> at_least b a \<and> \<not> at_least a b"

instance
proof
  fix x y z :: role
  show "(x < y) = (x \<le> y \<and> \<not> y \<le> x)"
    by (simp add: less_eq_role_def less_role_def)
  show "x \<le> x" by (auto simp: less_eq_role_def at_least_def)
  show "x \<le> y \<Longrightarrow> y \<le> z \<Longrightarrow> x \<le> z"
    by (cases x; cases y; cases z) (auto simp: less_eq_role_def at_least_def)
  show "x \<le> y \<Longrightarrow> y \<le> x \<Longrightarrow> x = y"
    by (cases x; cases y) (auto simp: less_eq_role_def at_least_def)
qed

end

lemma role_from_str_inverse: "role_from_str s = Inr r \<Longrightarrow> s = role_as_str r \<or> (s = ''writer'' \<and> r = Uploader)"
  by (auto simp: role_from_str_def split: if_splits)

section \<open>Capabilities\<close>

datatype perm = Read | WriteProgress | AddFiles | ModifyDelete | ManageInvites | PermAdmin | Process

fun has_perm :: "role \<Rightarrow> perm \<Rightarrow> bool" where
  "has_perm r Read = True"
| "has_perm r WriteProgress = (r \<in> {Registered, Uploader, Inviter, Editor, Admin})"
| "has_perm r AddFiles = (r \<in> {Uploader, Inviter, Editor, Admin})"
| "has_perm r ModifyDelete = (r \<in> {Inviter, Editor, Admin})"
| "has_perm r ManageInvites = (r \<in> {Inviter, Admin})"
| "has_perm r PermAdmin = (r = Admin)"
| "has_perm r Process = (r = Processor)"

lemma has_perm_modify_add: "has_perm r ModifyDelete \<Longrightarrow> has_perm r AddFiles"
  by auto

lemma has_perm_add_progress: "has_perm r AddFiles \<Longrightarrow> has_perm r WriteProgress"
  by auto

lemma anonymous_perms: "has_perm Anonymous p \<longleftrightarrow> p = Read"
  by (cases p) auto

lemma processor_perms: "has_perm Processor p \<longleftrightarrow> p = Read \<or> p = Process"
  by (cases p) auto

section \<open>Properties\<close>

text \<open>
  A role that \<open>at_least\<close> puts above another has every capability of the other, for every
  role but \<open>processor\<close> (which ranks as \<open>registered\<close> for reads only).
\<close>

theorem perms_monotone:
  assumes "at_least a b" and "a \<noteq> Processor" and "has_perm b p"
  shows "has_perm a p"
  using assms by (cases p; cases a; cases b) (auto simp: at_least_def)

theorem perms_monotone_witness:
  "at_least Admin Editor \<and> Admin \<noteq> Processor \<and> has_perm Editor ModifyDelete \<and> has_perm Admin ModifyDelete"
proof -
  have "at_least Admin Editor" "Admin \<noteq> Processor" "has_perm Editor ModifyDelete"
    by (simp_all add: at_least_def)
  with perms_monotone [OF this] show ?thesis by simp
qed

end
