(* ===== verification/Db_Accounts.thy ===== *)
theory Db_Accounts
  imports Roles
begin

text \<open>
  \<open>bunko-db/src/validation.rs\<close>, \<open>users.rs\<close> and \<open>tokens.rs\<close>: accounts, passwords and bearer
  tokens. The database is a record of its tables, each a list of rows; a method is a
  function from the state to a result and the new state. A write runs in one
  \<open>BEGIN IMMEDIATE\<close> transaction and is rolled back when it fails, so a method that answers an
  error leaves the tables as they were (\<open>users_version\<close>, a counter of the handle, moves all
  the same). The stored texts of roles and statuses are kept as text, since a row may hold
  one this build does not know. Parameters: \<open>bcrypt_verify\<close> and the hash a call of
  \<open>bcrypt::hash\<close> returns, \<open>sha\<close> (\<open>sha2\<close>, hex), the random token, and the clock: \<open>now_text\<close> is
  SQLite's \<open>datetime('now')\<close>, epoch times are whole microseconds. Failures of SQLite itself
  are not modelled.
\<close>

section \<open>Errors and rows\<close>

text \<open>\<open>Sqlite\<close> is a constraint SQLite refused; its other failures are not modelled.\<close>

datatype db_error = Invalid string | DbConflict string | CorruptRow string string | BcryptFailed | Sqlite

datatype user_status = Active | Pending | Disabled | Deleted

fun status_as_str :: "user_status \<Rightarrow> string" where
  "status_as_str Active = ''active''"
| "status_as_str Pending = ''pending''"
| "status_as_str Disabled = ''disabled''"
| "status_as_str Deleted = ''deleted''"

definition all_statuses :: "user_status list" where
  "all_statuses = [Active, Pending, Disabled, Deleted]"

definition status_from_str :: "string \<Rightarrow> user_status option" where
  "status_from_str s = find (\<lambda>st. status_as_str st = s) all_statuses"

record user_row =
  ur_id :: nat
  ur_name :: string
  ur_hash :: string
  ur_role :: string
  ur_status :: string
  ur_notes :: string
  ur_created :: string

record user =
  us_id :: nat
  us_name :: string
  us_role :: role
  us_status :: user_status
  us_notes :: string
  us_created :: string

record token_row =
  tk_hash :: string
  tk_user :: string
  tk_kind :: string
  tk_label :: string
  tk_created :: int
  tk_expires :: int
  tk_used :: int

record invite_row =
  iv_id :: nat
  iv_code :: string
  iv_role :: string
  iv_invited_by :: "string option"
  iv_created :: string
  iv_expires :: string
  iv_used_by :: "string option"
  iv_used_at :: "string option"

record audit_row =
  au_id :: nat
  au_actor :: "string option"
  au_action :: string
  au_type :: "string option"
  au_path :: "string option"
  au_target :: "string option"
  au_details :: "(string \<times> string option) list"
  au_created :: string

text \<open>\<open>users_version\<close> and \<open>last_prune\<close> (a monotonic instant) are fields of the handle.\<close>

record db =
  users :: "user_row list"
  next_id :: nat
  tokens :: "token_row list"
  invites :: "invite_row list"
  next_invite :: nat
  audits :: "audit_row list"
  next_audit :: nat
  users_version :: nat
  last_prune :: "nat option"

text \<open>\<open>normalize_role\<close> and the conversion of a stored row.\<close>

definition quoted :: "string \<Rightarrow> string" where
  "quoted s = CHR 0x27 # s @ [CHR 0x27]"

fun role_list_text :: "string list \<Rightarrow> string" where
  "role_list_text [] = []"
| "role_list_text [s] = quoted s"
| "role_list_text (s # ss) = quoted s @ '', '' @ role_list_text ss"

definition valid_roles_sorted :: string where
  "valid_roles_sorted =
     ''['' @ role_list_text [''admin'', ''anonymous'', ''editor'', ''inviter'', ''processor'', ''registered'', ''uploader''] @ '']''"

definition normalize_role :: "string \<Rightarrow> db_error + role" where
  "normalize_role s =
     (case role_from_str s of
        Inr r \<Rightarrow> Inr r
      | Inl _ \<Rightarrow> Inl (Invalid (''Invalid role: '' @ s @ ''. Must be one of: '' @ valid_roles_sorted)))"

definition raw_into_user :: "user_row \<Rightarrow> db_error + user" where
  "raw_into_user r =
     (case role_from_str (ur_role r) of
        Inl _ \<Rightarrow>
          Inl (CorruptRow ''users'' (''user '' @ CHR 0x27 # ur_name r @ CHR 0x27 # '' has unknown role '' @
                 CHR 0x27 # ur_role r @ [CHR 0x27]))
      | Inr role \<Rightarrow>
          (case status_from_str (ur_status r) of
             None \<Rightarrow>
               Inl (CorruptRow ''users'' (''user '' @ CHR 0x27 # ur_name r @ CHR 0x27 # '' has unknown status '' @
                      CHR 0x27 # ur_status r @ [CHR 0x27]))
           | Some st \<Rightarrow>
               Inr \<lparr>us_id = ur_id r, us_name = ur_name r, us_role = role, us_status = st,
                    us_notes = ur_notes r, us_created = ur_created r\<rparr>))"

definition raw_into_login :: "user_row \<Rightarrow> user option" where
  "raw_into_login r = (case raw_into_user r of Inl _ \<Rightarrow> None | Inr u \<Rightarrow> Some u)"

section \<open>Validation\<close>

definition min_password_length :: nat where "min_password_length = 8"
definition max_password_length :: nat where "max_password_length = 128"

definition username_required :: string where
  "username_required = ''Username is required''"

definition username_format :: string where
  "username_format = ''Username must be 3-32 characters and contain only letters, numbers, underscores, and hyphens''"

definition validate_username :: "string \<Rightarrow> string option" where
  "validate_username username =
     (if username = [] then Some username_required
      else if 3 \<le> length username \<and> length username \<le> 32 \<and>
              list_all (\<lambda>b. is_ascii_alnum b \<or> b = CHR ''_'' \<or> b = CHR ''-'') username
      then None else Some username_format)"

text \<open>\<open>chars().count()\<close>: every byte but the continuation bytes starts a character.\<close>

definition char_count :: "string \<Rightarrow> nat" where
  "char_count s = length (filter (\<lambda>b. \<not> cont_byte b) s)"

definition validate_password :: "string \<Rightarrow> string option" where
  "validate_password password =
     (if password = [] then Some ''Password is required''
      else if char_count password < min_password_length then Some ''Password must be at least 8 characters''
      else if char_count password > max_password_length then Some ''Password must be at most 128 characters''
      else None)"

text \<open>Python's white space: Rust's and the four information separators (\<open>pyfmt.rs\<close>).\<close>

definition py_spaces :: "string list" where
  "py_spaces = white_space @ [[CHR 0x1C], [CHR 0x1D], [CHR 0x1E], [CHR 0x1F]]"

definition py_strip :: "string \<Rightarrow> string" where
  "py_strip s = rev (trim_pats (map rev py_spaces) (rev (trim_pats py_spaces s)))"

section \<open>Accounts\<close>

definition find_user :: "string \<Rightarrow> db \<Rightarrow> user_row option" where
  "find_user name d = find (\<lambda>r. ur_name r = name) (users d)"

definition already_exists :: "string \<Rightarrow> db_error" where
  "already_exists name = DbConflict (''Username '' @ CHR 0x27 # name @ CHR 0x27 # '' already exists'')"

definition belongs_to_deleted :: "string \<Rightarrow> db_error" where
  "belongs_to_deleted name =
     Invalid (''Username '' @ CHR 0x27 # name @ CHR 0x27 #
       '' belongs to a deleted account; bring it back with: mokuro-bunko admin restore-user '' @ name)"

definition insert_user ::
  "string \<Rightarrow> string \<Rightarrow> string \<Rightarrow> role \<Rightarrow> user_status \<Rightarrow> string \<Rightarrow> db \<Rightarrow> (db_error + nat) \<times> db" where
  "insert_user now_text name hash role st notes d =
     (case find_user name d of
        None \<Rightarrow>
          (Inr (next_id d),
           d\<lparr>users := users d @
               [\<lparr>ur_id = next_id d, ur_name = name, ur_hash = hash, ur_role = role_as_str role,
                 ur_status = status_as_str st, ur_notes = notes, ur_created = now_text\<rparr>],
             next_id := Suc (next_id d)\<rparr>)
      | Some r \<Rightarrow>
          (Inl (if ur_status r = ''deleted'' then belongs_to_deleted name else already_exists name), d))"

definition last_admin_message :: string where
  "last_admin_message = ''This is the last active admin account: make another account an admin first, so the server keeps someone who can administer it''"

definition active_admin :: "user_row \<Rightarrow> bool" where
  "active_admin r \<longleftrightarrow> ur_role r = ''admin'' \<and> ur_status r = ''active''"

definition is_last_active_admin :: "string \<Rightarrow> db \<Rightarrow> bool" where
  "is_last_active_admin name d \<longleftrightarrow>
     (case find_user name d of Some r \<Rightarrow> active_admin r | None \<Rightarrow> False) \<and>
     length (filter (\<lambda>r. active_admin r \<and> ur_name r \<noteq> name) (users d)) = 0"

datatype keep_admin = Keep | Allow

definition guard_last_admin :: "string \<Rightarrow> keep_admin \<Rightarrow> db \<Rightarrow> db_error option" where
  "guard_last_admin name keep d =
     (if keep = Keep \<and> is_last_active_admin name d then Some (DbConflict last_admin_message) else None)"

definition bump :: "db \<Rightarrow> db" where
  "bump d = d\<lparr>users_version := Suc (users_version d)\<rparr>"

definition new_account_hash :: "string \<Rightarrow> string \<Rightarrow> string option \<Rightarrow> db_error + string" where
  "new_account_hash name password hashed =
     (if py_strip name = [] then Inl (Invalid ''Username is required'')
      else case validate_username name of Some msg \<Rightarrow> Inl (Invalid msg) | None \<Rightarrow>
        (case validate_password password of Some msg \<Rightarrow> Inl (Invalid msg) | None \<Rightarrow>
          (case hashed of None \<Rightarrow> Inl BcryptFailed | Some h \<Rightarrow> Inr h)))"

definition create_user ::
  "string \<Rightarrow> string option \<Rightarrow> string \<Rightarrow> string \<Rightarrow> role \<Rightarrow> user_status \<Rightarrow> string \<Rightarrow> db \<Rightarrow> (db_error + nat) \<times> db" where
  "create_user now_text hashed name password role st notes d =
     (case new_account_hash name password hashed of
        Inl e \<Rightarrow> (Inl e, bump d)
      | Inr h \<Rightarrow> (let (res, d) = insert_user now_text name h role st notes d in (res, bump d)))"

definition get_user :: "string \<Rightarrow> db \<Rightarrow> db_error + user option" where
  "get_user name d =
     (case find_user name d of
        None \<Rightarrow> Inr None
      | Some r \<Rightarrow> (case raw_into_user r of Inl e \<Rightarrow> Inl e | Inr u \<Rightarrow> Inr (Some u)))"

definition authenticate_user :: "(string \<Rightarrow> string \<Rightarrow> bool) \<Rightarrow> string \<Rightarrow> string \<Rightarrow> db \<Rightarrow> user option" where
  "authenticate_user bcrypt_verify name password d =
     (case find_user name d of
        None \<Rightarrow> None
      | Some r \<Rightarrow>
          if ur_status r \<noteq> ''active'' then None
          else if \<not> bcrypt_verify password (ur_hash r) then None
          else raw_into_login r)"

definition processor_account_stamp :: "(string \<Rightarrow> string) \<Rightarrow> string \<Rightarrow> db \<Rightarrow> string option" where
  "processor_account_stamp sha name d =
     (case find_user name d of
        None \<Rightarrow> None
      | Some r \<Rightarrow>
          if ur_role r \<noteq> ''processor'' \<or> ur_status r \<noteq> ''active'' then None
          else Some (take 32 (sha (ur_role r @ CHR 0x00 # ur_status r @ CHR 0x00 # ur_hash r))))"

text \<open>\<open>ORDER BY created_at DESC, id DESC\<close>; the ids are distinct.\<close>

definition list_users :: "user_status option \<Rightarrow> db \<Rightarrow> user list" where
  "list_users st d =
     List.map_filter raw_into_login
       (rev (sort_key ur_created (sort_key ur_id
          (case st of Some x \<Rightarrow> filter (\<lambda>r. ur_status r = status_as_str x) (users d) | None \<Rightarrow> users d))))"

text \<open>\<open>UPDATE users SET ... WHERE username = ? AND p\<close>; \<open>created_at\<close> and the id never change.\<close>

definition update_users :: "(user_row \<Rightarrow> bool) \<Rightarrow> (user_row \<Rightarrow> user_row) \<Rightarrow> db \<Rightarrow> bool \<times> db" where
  "update_users p f d =
     (list_ex p (users d), d\<lparr>users := map (\<lambda>r. if p r then f r else r) (users d)\<rparr>)"

definition drop_tokens :: "string \<Rightarrow> db \<Rightarrow> db" where
  "drop_tokens name d = d\<lparr>tokens := filter (\<lambda>t. tk_user t \<noteq> name) (tokens d)\<rparr>"

definition update_user_role_with :: "string \<Rightarrow> role \<Rightarrow> keep_admin \<Rightarrow> db \<Rightarrow> (db_error + bool) \<times> db" where
  "update_user_role_with name role keep d =
     (case (if role \<noteq> Admin then guard_last_admin name keep d else None) of
        Some e \<Rightarrow> (Inl e, bump d)
      | None \<Rightarrow>
          (let (changed, d) = update_users (\<lambda>r. ur_name r = name) (\<lambda>r. r\<lparr>ur_role := role_as_str role\<rparr>) d
           in (Inr changed, bump d)))"

definition update_user_notes :: "string \<Rightarrow> string \<Rightarrow> db \<Rightarrow> bool \<times> db" where
  "update_user_notes name notes d = update_users (\<lambda>r. ur_name r = name) (\<lambda>r. r\<lparr>ur_notes := notes\<rparr>) d"

definition update_user_password :: "string option \<Rightarrow> string \<Rightarrow> string \<Rightarrow> db \<Rightarrow> (db_error + bool) \<times> db" where
  "update_user_password hashed name password d =
     (case validate_password password of
        Some msg \<Rightarrow> (Inl (Invalid msg), bump d)
      | None \<Rightarrow>
          (case hashed of
             None \<Rightarrow> (Inl BcryptFailed, bump d)
           | Some h \<Rightarrow>
               (let (changed, d) = update_users (\<lambda>r. ur_name r = name) (\<lambda>r. r\<lparr>ur_hash := h\<rparr>) d;
                    d = (if changed then drop_tokens name d else d)
                in (Inr changed, bump d))))"

definition approve_user :: "string \<Rightarrow> db \<Rightarrow> bool \<times> db" where
  "approve_user name d =
     (let (changed, d) = update_users (\<lambda>r. ur_name r = name \<and> ur_status r = ''pending'')
                           (\<lambda>r. r\<lparr>ur_status := ''active''\<rparr>) d
      in (changed, bump d))"

definition disable_user_with :: "string \<Rightarrow> keep_admin \<Rightarrow> db \<Rightarrow> (db_error + bool) \<times> db" where
  "disable_user_with name keep d =
     (case guard_last_admin name keep d of
        Some e \<Rightarrow> (Inl e, bump d)
      | None \<Rightarrow>
          (let (changed, d) = update_users (\<lambda>r. ur_name r = name) (\<lambda>r. r\<lparr>ur_status := ''disabled''\<rparr>) d
           in (Inr changed, bump d)))"

definition delete_user_with :: "string \<Rightarrow> keep_admin \<Rightarrow> db \<Rightarrow> (db_error + bool) \<times> db" where
  "delete_user_with name keep d =
     (case guard_last_admin name keep d of
        Some e \<Rightarrow> (Inl e, bump d)
      | None \<Rightarrow>
          (let (changed, d) = update_users (\<lambda>r. ur_name r = name \<and> ur_status r \<noteq> ''deleted'')
                                (\<lambda>r. r\<lparr>ur_status := ''deleted''\<rparr>) d
           in (Inr changed, bump (drop_tokens name d))))"

definition restore_user ::
  "string option \<Rightarrow> string \<Rightarrow> string \<Rightarrow> role option \<Rightarrow> db \<Rightarrow> (db_error + bool) \<times> db" where
  "restore_user hashed name password role d =
     (case validate_password password of
        Some msg \<Rightarrow> (Inl (Invalid msg), bump d)
      | None \<Rightarrow>
          (case hashed of
             None \<Rightarrow> (Inl BcryptFailed, bump d)
           | Some h \<Rightarrow>
               (let (changed, d) = update_users (\<lambda>r. ur_name r = name \<and> ur_status r = ''deleted'')
                      (\<lambda>r. r\<lparr>ur_status := ''active'', ur_hash := h,
                             ur_role := (case role of Some x \<Rightarrow> role_as_str x | None \<Rightarrow> ur_role r)\<rparr>) d
                in (Inr changed, bump d))))"

section \<open>Tokens\<close>

datatype token_kind = Web | Reader | ProcessorToken

definition usec :: int where "usec = 1000000"

fun lifetime :: "token_kind \<Rightarrow> int" where
  "lifetime Web = 7 * 86400 * usec"
| "lifetime Reader = 90 * 86400 * usec"
| "lifetime ProcessorToken = 30 * 86400 * usec"

fun kind_as_str :: "token_kind \<Rightarrow> string" where
  "kind_as_str Web = ''web''"
| "kind_as_str Reader = ''reader''"
| "kind_as_str ProcessorToken = ''processor''"

definition token_touch :: int where
  "token_touch = 60 * usec"

text \<open>\<open>label.chars().take(n)\<close>.\<close>

fun take_chars :: "nat \<Rightarrow> string \<Rightarrow> string" where
  "take_chars n [] = []"
| "take_chars n (b # bs) =
     (if cont_byte b then b # take_chars n bs
      else (case n of 0 \<Rightarrow> [] | Suc m \<Rightarrow> b # take_chars m bs))"

definition create_auth_token ::
  "(string \<Rightarrow> string) \<Rightarrow> string \<Rightarrow> int \<Rightarrow> string \<Rightarrow> token_kind \<Rightarrow> string \<Rightarrow> int option \<Rightarrow> db \<Rightarrow> int \<times> db" where
  "create_auth_token sha tok now name kind label life d =
     (let until = now + (case life of Some l \<Rightarrow> l | None \<Rightarrow> lifetime kind) in
      (until,
       d\<lparr>tokens := tokens d @
           [\<lparr>tk_hash = sha tok, tk_user = name, tk_kind = kind_as_str kind, tk_label = take_chars 200 label,
             tk_created = now, tk_expires = until, tk_used = now\<rparr>]\<rparr>))"

definition resolve_auth_token :: "(string \<Rightarrow> string) \<Rightarrow> int \<Rightarrow> string \<Rightarrow> db \<Rightarrow> user option \<times> db" where
  "resolve_auth_token sha now tok d =
     (if tok = [] then (None, d)
      else
        let digest = sha tok in
        case find (\<lambda>t. tk_hash t = digest) (tokens d) of
          None \<Rightarrow> (None, d)
        | Some t \<Rightarrow>
            (case find_user (tk_user t) d of
               None \<Rightarrow> (None, d)
             | Some r \<Rightarrow>
                 if tk_expires t \<le> now \<or> ur_status r \<noteq> ''active'' then (None, d)
                 else
                   (case raw_into_login r of
                      None \<Rightarrow> (None, d)
                    | Some u \<Rightarrow>
                        (Some u,
                         if now - tk_used t \<ge> token_touch
                         then d\<lparr>tokens := map (\<lambda>t. if tk_hash t = digest then t\<lparr>tk_used := now\<rparr> else t) (tokens d)\<rparr>
                         else d))))"

definition revoke_auth_token :: "(string \<Rightarrow> string) \<Rightarrow> string \<Rightarrow> db \<Rightarrow> bool \<times> db" where
  "revoke_auth_token sha tok d =
     (list_ex (\<lambda>t. tk_hash t = sha tok) (tokens d),
      d\<lparr>tokens := filter (\<lambda>t. tk_hash t \<noteq> sha tok) (tokens d)\<rparr>)"

definition revoke_user_auth_tokens :: "string \<Rightarrow> db \<Rightarrow> nat \<times> db" where
  "revoke_user_auth_tokens name d =
     (length (filter (\<lambda>t. tk_user t = name) (tokens d)), drop_tokens name d)"

definition prune_expired_auth_tokens :: "int \<Rightarrow> db \<Rightarrow> nat \<times> db" where
  "prune_expired_auth_tokens now d =
     (length (filter (\<lambda>t. tk_expires t \<le> now) (tokens d)),
      d\<lparr>tokens := filter (\<lambda>t. \<not> tk_expires t \<le> now) (tokens d)\<rparr>)"

section \<open>Rows of the users table\<close>

definition names_unique :: "db \<Rightarrow> bool" where
  "names_unique d \<longleftrightarrow> distinct (map ur_name (users d))"

definition has_admin :: "db \<Rightarrow> bool" where
  "has_admin d \<longleftrightarrow> list_ex active_admin (users d)"

lemma bump_fields [simp]:
  "users (bump d) = users d" "tokens (bump d) = tokens d" "next_id (bump d) = next_id d"
  "invites (bump d) = invites d" "audits (bump d) = audits d" "users_version (bump d) = Suc (users_version d)"
  "next_invite (bump d) = next_invite d" "next_audit (bump d) = next_audit d" "last_prune (bump d) = last_prune d"
  by (simp_all add: bump_def)

lemma drop_tokens_fields [simp]:
  "users (drop_tokens n d) = users d" "next_id (drop_tokens n d) = next_id d"
  "users_version (drop_tokens n d) = users_version d" "invites (drop_tokens n d) = invites d"
  "tokens (drop_tokens n d) = filter (\<lambda>t. tk_user t \<noteq> n) (tokens d)"
  by (simp_all add: drop_tokens_def)

lemma update_users_fields [simp]:
  "users (snd (update_users p f d)) = map (\<lambda>r. if p r then f r else r) (users d)"
  "tokens (snd (update_users p f d)) = tokens d" "next_id (snd (update_users p f d)) = next_id d"
  "users_version (snd (update_users p f d)) = users_version d" "invites (snd (update_users p f d)) = invites d"
  "fst (update_users p f d) = list_ex p (users d)"
  by (simp_all add: update_users_def)

lemma find_map_rows:
  assumes "\<And>r. q (g r) = q r"
  shows "find q (map g xs) = map_option g (find q xs)"
  by (induction xs) (auto simp: assms)

lemma find_user_update:
  assumes "\<And>r. ur_name (f r) = ur_name r"
  shows "find_user n (snd (update_users p f d)) = map_option (\<lambda>r. if p r then f r else r) (find_user n d)"
  using assms by (auto simp: find_user_def intro!: find_map_rows)

lemma find_user_cong: "users d = users e \<Longrightarrow> find_user n d = find_user n e"
  by (simp add: find_user_def)

lemma find_user_name: "find_user n d = Some r \<Longrightarrow> ur_name r = n \<and> r \<in> set (users d)"
  by (auto simp: find_user_def find_Some_iff)

lemma find_user_unique:
  assumes "names_unique d" "r \<in> set (users d)"
  shows "find_user (ur_name r) d = Some r"
proof -
  have "distinct (map ur_name xs) \<Longrightarrow> r \<in> set xs \<Longrightarrow> find (\<lambda>x. ur_name x = ur_name r) xs = Some r" for xs
    by (induction xs) auto
  with assms show ?thesis by (simp add: names_unique_def find_user_def)
qed

lemma find_Some_mem: "find P xs = Some x \<Longrightarrow> P x \<and> x \<in> set xs"
  by (auto simp: find_Some_iff)

lemma find_snoc:
  "find P (xs @ [x]) = (case find P xs of None \<Rightarrow> if P x then Some x else None | Some y \<Rightarrow> Some y)"
  by (induction xs) auto

lemma insert_user_cases:
  obtains (new) i where "find_user n d = None" "insert_user nt n h role st notes d = (Inr (next_id d), i)"
      "users i = users d @ [\<lparr>ur_id = next_id d, ur_name = n, ur_hash = h, ur_role = role_as_str role,
                 ur_status = status_as_str st, ur_notes = notes, ur_created = nt\<rparr>]"
      "next_id i = Suc (next_id d)" "tokens i = tokens d" "users_version i = users_version d"
      "invites i = invites d" "audits i = audits d"
  | (taken) e r where "find_user n d = Some r" "insert_user nt n h role st notes d = (Inl e, d)"
  by (cases "find_user n d") (auto simp: insert_user_def)

end
