(* ===== verification/Py_Time.thy ===== *)
theory Py_Time
  imports Rust_Prelude "HOL-Library.Monad_Syntax"
begin

text \<open>
  \<open>bunko-db/src/pytime.rs\<close>: the text Python's \<open>datetime.isoformat\<close> writes and the parser of
  \<open>datetime.fromisoformat\<close>. A date-time is a record of its fields at microsecond
  resolution. \<open>chrono\<close> is a parameter, a record of the functions the code calls: which
  year-month-day triples and times of day exist, the date of an ISO week day, the text of
  \<open>%Y\<close>, the sum of a date-time and a duration in seconds, and the durations of so many hours,
  days and weeks. The parser's cursor is the
  text that is left; the bytes before a position are never read again.
\<close>

section \<open>Date-times and chrono\<close>

record naive =
  nd_year :: int
  nd_month :: nat
  nd_day :: nat
  nd_hour :: nat
  nd_minute :: nat
  nd_second :: nat
  nd_micro :: nat

definition naive_key :: "naive \<Rightarrow> int list" where
  "naive_key t = [nd_year t, int (nd_month t), int (nd_day t), int (nd_hour t), int (nd_minute t),
     int (nd_second t), int (nd_micro t)]"

definition naive_le :: "naive \<Rightarrow> naive \<Rightarrow> bool" where
  "naive_le a b \<longleftrightarrow> naive_key a \<le> naive_key b"

record chrono =
  ymd_ok :: "int \<Rightarrow> nat \<Rightarrow> nat \<Rightarrow> bool"
  iso_week_day :: "int \<Rightarrow> nat \<Rightarrow> nat \<Rightarrow> (int \<times> nat \<times> nat) option"
  hms_ok :: "nat \<Rightarrow> nat \<Rightarrow> nat \<Rightarrow> nat \<Rightarrow> bool"
  year_text :: "int \<Rightarrow> string"
  add_seconds :: "naive \<Rightarrow> int \<Rightarrow> naive option"
  try_hours :: "int \<Rightarrow> int option"
  try_days :: "int \<Rightarrow> int option"
  try_weeks :: "int \<Rightarrow> int option"

definition pad :: "nat \<Rightarrow> nat \<Rightarrow> string" where
  "pad w n = replicate (w - length (show_nat n)) CHR ''0'' @ show_nat n"

text \<open>
  What chrono documents: \<open>%Y\<close> is four digits up to year 9999 and has a sign beyond, a time
  of day exists when its fields are in range (its leap seconds apart), and a duration has the
  length its name says, or is out of range.
\<close>

definition chrono_laws :: "chrono \<Rightarrow> bool" where
  "chrono_laws ch \<longleftrightarrow>
     (\<forall>y. 0 \<le> y \<and> y \<le> 9999 \<longrightarrow> year_text ch y = pad 4 (nat y)) \<and>
     (\<forall>y > 9999. \<exists>cs. year_text ch y = CHR ''+'' # cs) \<and>
     (\<forall>h m s us. h < 24 \<and> m < 60 \<and> s < 60 \<and> us < 1000000 \<longrightarrow> hms_ok ch h m s us) \<and>
     (\<forall>v s. (try_hours ch v = Some s \<longrightarrow> s = v * 3600) \<and> (try_days ch v = Some s \<longrightarrow> s = v * 86400) \<and>
            (try_weeks ch v = Some s \<longrightarrow> s = v * 604800))"

definition isoformat :: "chrono \<Rightarrow> naive \<Rightarrow> string" where
  "isoformat ch t =
     (let base = year_text ch (nd_year t) @ CHR ''-'' # pad 2 (nd_month t) @ CHR ''-'' # pad 2 (nd_day t) @
                 CHR ''T'' # pad 2 (nd_hour t) @ CHR '':'' # pad 2 (nd_minute t) @ CHR '':'' # pad 2 (nd_second t)
      in if nd_micro t = 0 then base else base @ CHR ''.'' # pad 6 (nd_micro t))"

section \<open>The parser\<close>

fun eat :: "char \<Rightarrow> string \<Rightarrow> bool \<times> string" where
  "eat b [] = (False, [])"
| "eat b (c # cs) = (if c = b then (True, cs) else (False, c # cs))"

definition digits :: "nat \<Rightarrow> string \<Rightarrow> (nat \<times> string) option" where
  "digits n cur =
     (if length cur < n \<or> \<not> list_all is_ascii_digit (take n cur) then None
      else Some (digits_val (take n cur), drop n cur))"

fun at_digit :: "string \<Rightarrow> bool" where
  "at_digit [] = False"
| "at_digit (c # cs) = is_ascii_digit c"

fun peek :: "string \<Rightarrow> char option" where
  "peek [] = None"
| "peek (c # cs) = Some c"

definition parse_date :: "chrono \<Rightarrow> string \<Rightarrow> ((int \<times> nat \<times> nat) \<times> string) option" where
  "parse_date ch cur = do {
     (year, cur) \<leftarrow> digits 4 cur;
     if year < 1 then None
     else
       let (extended, cur) = eat CHR ''-'' cur; (week, cur) = eat CHR ''W'' cur in
       if week then do {
         (w, cur) \<leftarrow> digits 2 cur;
         let has_day = (if extended then peek cur = Some CHR ''-'' else at_digit cur);
         (weekday, cur) \<leftarrow> (if has_day then digits 1 (if extended then snd (eat CHR ''-'' cur) else cur)
                            else Some (1, cur));
         if weekday < 1 \<or> weekday > 7 then None
         else do { date \<leftarrow> iso_week_day ch (int year) w weekday; Some (date, cur) }
       }
       else do {
         (month, cur) \<leftarrow> digits 2 cur;
         let (dash, cur) = (if extended then eat CHR ''-'' cur else (True, cur));
         if \<not> dash then None
         else do {
           (day, cur) \<leftarrow> digits 2 cur;
           if ymd_ok ch (int year) month day then Some ((int year, month, day), cur) else None
         }
       }
   }"

text \<open>The fraction: six digits count, shorter ones are scaled up.\<close>

definition micros_of :: "string \<Rightarrow> nat" where
  "micros_of ds = digits_val (take 6 ds) * 10 ^ (6 - min 6 (length ds))"

definition parse_hms :: "string \<Rightarrow> ((nat \<times> nat \<times> nat \<times> nat) \<times> string) option" where
  "parse_hms cur = do {
     (hour, cur) \<leftarrow> digits 2 cur;
     let (colon, cur) = eat CHR '':'' cur;
     if colon \<or> at_digit cur then do {
       (minute, cur) \<leftarrow> digits 2 cur;
       let (colon2, cur) = (if colon then eat CHR '':'' cur else (False, cur));
       if colon2 \<or> \<not> colon \<and> at_digit cur then do {
         (second, cur) \<leftarrow> digits 2 cur;
         let (point, cur) = (let (p, c) = eat CHR ''.'' cur in if p then (p, c) else eat CHR '','' cur);
         if \<not> point then Some ((hour, minute, second, 0), cur)
         else if \<not> at_digit cur then None
         else Some ((hour, minute, second, micros_of (takeWhile is_ascii_digit cur)), dropWhile is_ascii_digit cur)
       }
       else if colon \<and> peek cur = Some CHR '':'' then None
       else Some ((hour, minute, 0, 0), cur)
     }
     else Some ((hour, 0, 0, 0), cur)
   }"

definition parse_offset :: "string \<Rightarrow> (int \<times> string) option" where
  "parse_offset cur = do {
     (sign, cur) \<leftarrow> (let (plus, c) = eat CHR ''+'' cur in
        if plus then Some (1, c)
        else let (minus, c) = eat CHR ''-'' cur in if minus then Some (- 1, c) else None);
     (oh, cur) \<leftarrow> digits 2 cur;
     let (colon, cur) = eat CHR '':'' cur;
     (om, os, cur) \<leftarrow>
       (if colon \<or> at_digit cur then do {
          (om, cur) \<leftarrow> digits 2 cur;
          let (more, cur) = (if colon then eat CHR '':'' cur else (at_digit cur, cur));
          if more then do {
            (os, cur) \<leftarrow> digits 2 cur;
            let (point, cur) = eat CHR ''.'' cur;
            if point \<and> \<not> at_digit cur then None
            else Some (om, os, if point then dropWhile is_ascii_digit cur else cur)
          }
          else Some (om, 0, cur)
        }
        else Some (0, 0, cur));
     if oh > 23 \<or> om > 59 \<or> os > 59 then None
     else Some (sign * int (oh * 3600 + om * 60 + os), cur)
   }"

definition parse_time ::
  "chrono \<Rightarrow> string \<Rightarrow> (((nat \<times> nat \<times> nat \<times> nat) \<times> int option) \<times> string) option" where
  "parse_time ch cur = do {
     ((h, m, s, us), cur) \<leftarrow> parse_hms cur;
     if \<not> hms_ok ch h m s us \<or> s > 59 then None
     else
       let cur = dropWhile (\<lambda>c. c = CHR '' '') cur in
       if cur = [] then Some (((h, m, s, us), None), cur)
       else
         let (z, c) = eat CHR ''Z'' cur in
         if z then Some (((h, m, s, us), Some 0), c)
         else do { (off, cur) \<leftarrow> parse_offset cur; Some (((h, m, s, us), Some off), cur) }
   }"

fun naive_of :: "int \<times> nat \<times> nat \<Rightarrow> nat \<times> nat \<times> nat \<times> nat \<Rightarrow> naive" where
  "naive_of (y, mo, d) (h, m, s, us) =
     \<lparr>nd_year = y, nd_month = mo, nd_day = d, nd_hour = h, nd_minute = m, nd_second = s, nd_micro = us\<rparr>"

text \<open>The separator is one character: its first byte and the continuation bytes after it.\<close>

definition fromisoformat :: "chrono \<Rightarrow> string \<Rightarrow> (naive \<times> int option) option" where
  "fromisoformat ch text = do {
     (date, cur) \<leftarrow> parse_date ch text;
     (case cur of
        [] \<Rightarrow> Some (naive_of date (0, 0, 0, 0), None)
      | _ # cur \<Rightarrow> do {
          ((time, off), cur) \<leftarrow> parse_time ch (dropWhile cont_byte cur);
          if cur \<noteq> [] then None else Some (naive_of date time, off)
        })
   }"

section \<open>Writing and reading back\<close>

lemma digits_val_zeros: "digits_val (replicate k CHR ''0'' @ xs) = digits_val xs"
proof -
  have "foldl (\<lambda>a c. 10 * a + digit_val c) (0::nat) (replicate k CHR ''0'') = 0"
    by (induction k) (auto simp: digit_val_def)
  then show ?thesis by (simp add: digits_val_def)
qed

lemma show_nat_length: "0 < w \<Longrightarrow> n < 10 ^ w \<Longrightarrow> length (show_nat n) \<le> w"
proof (induction n arbitrary: w rule: show_nat.induct)
  case (1 n)
  show ?case
  proof (cases "n < 10")
    case True
    then show ?thesis using 1(2) by (simp add: show_nat.simps [of n])
  next
    case False
    then obtain v where w: "w = Suc v" "0 < v" using 1(2,3) by (cases w; cases "w - 1") auto
    then have "n div 10 < 10 ^ v" using 1(3) by (simp add: less_mult_imp_div_less mult.commute)
    then have "length (show_nat (n div 10)) \<le> v" using 1(1) [OF False w(2)] by simp
    then show ?thesis using False w by (subst show_nat.simps) simp
  qed
qed

lemma pad_facts:
  assumes "0 < w" "n < 10 ^ w"
  shows "length (pad w n) = w" "list_all is_ascii_digit (pad w n)" "digits_val (pad w n) = n"
  using show_nat_length [OF assms] show_nat_digits [of n]
  by (auto simp: pad_def digits_val_zeros list_all_iff is_ascii_digit_def less_eq_char_def)

lemma digits_pad [simp]: "0 < w \<Longrightarrow> n < 10 ^ w \<Longrightarrow> digits w (pad w n @ cs) = Some (n, cs)"
  using pad_facts [of w n] by (simp add: digits_def)

lemma pad_nonempty: "0 < w \<Longrightarrow> n < 10 ^ w \<Longrightarrow> \<exists>c cs. pad w n = c # cs \<and> is_ascii_digit c"
  using pad_facts [of w n] by (cases "pad w n") auto

lemma not_digit_seps [simp]:
  "\<not> is_ascii_digit CHR ''-''" "\<not> is_ascii_digit CHR '':''" "\<not> is_ascii_digit CHR ''.''"
  by (simp_all add: is_ascii_digit_def less_eq_char_def)

lemma eat_pad [simp]:
  assumes "0 < w" "n < 10 ^ w" "\<not> is_ascii_digit b"
  shows "eat b (pad w n @ cs) = (False, pad w n @ cs)"
  using pad_nonempty [OF assms(1,2)] assms(3) by auto

lemma at_digit_pad [simp]: "0 < w \<Longrightarrow> n < 10 ^ w \<Longrightarrow> at_digit (pad w n @ cs)"
  using pad_nonempty [of w n] by auto

text \<open>A date-time chrono can hold, with a year of four digits.\<close>

definition naive_ok :: "chrono \<Rightarrow> naive \<Rightarrow> bool" where
  "naive_ok ch t \<longleftrightarrow>
     ymd_ok ch (nd_year t) (nd_month t) (nd_day t) \<and> nd_month t < 100 \<and> nd_day t < 100 \<and>
     nd_hour t < 24 \<and> nd_minute t < 60 \<and> nd_second t < 60 \<and> nd_micro t < 1000000"

lemma parse_hms_text:
  assumes "h < 24" "m < 60" "s < 60" "us < 1000000"
  shows "parse_hms (pad 2 h @ CHR '':'' # pad 2 m @ CHR '':'' # pad 2 s @
           (if us = 0 then [] else CHR ''.'' # pad 6 us)) = Some ((h, m, s, us), [])"
proof -
  have us: "takeWhile is_ascii_digit (pad 6 us) = pad 6 us" "dropWhile is_ascii_digit (pad 6 us) = []"
    "micros_of (pad 6 us) = us" "at_digit (pad 6 us)"
    using pad_facts [of 6 us] at_digit_pad [of 6 us "[]"] assms(4)
    by (auto simp: micros_of_def takeWhile_eq_all_conv [THEN iffD2] list_all_iff)
  have s: "digits 2 (pad 2 s) = Some (s, [])" using digits_pad [of 2 s "[]"] assms(3) by simp
  show ?thesis using assms s by (simp add: parse_hms_def us del: takeWhile_eq_all_conv)
qed

lemma parse_date_text:
  assumes "chrono_laws ch" "naive_ok ch t" "1 \<le> nd_year t" "nd_year t \<le> 9999"
  shows "parse_date ch (year_text ch (nd_year t) @ CHR ''-'' # pad 2 (nd_month t) @ CHR ''-'' # pad 2 (nd_day t) @ cs) =
           Some ((nd_year t, nd_month t, nd_day t), cs)"
proof -
  have y: "year_text ch (nd_year t) = pad 4 (nat (nd_year t))" "nat (nd_year t) < 10 ^ 4" "\<not> nat (nd_year t) < 1"
    using assms by (auto simp: chrono_laws_def)
  have "eat CHR ''W'' (pad 2 (nd_month t) @ xs) = (False, pad 2 (nd_month t) @ xs)" for xs
    using assms(2) by (intro eat_pad) (auto simp: naive_ok_def is_ascii_digit_def less_eq_char_def)
  with y assms(2,3) show ?thesis by (simp add: parse_date_def naive_ok_def)
qed

text \<open>
  Writing a date-time and reading it back gives the same date-time, to the microsecond and
  without an offset, for every year four digits can hold; beyond year 9999 chrono's sign makes
  the text unreadable.
\<close>

lemma iso_roundtrip:
  assumes "chrono_laws ch" "naive_ok ch t" "1 \<le> nd_year t"
  shows "fromisoformat ch (isoformat ch t) = (if nd_year t \<le> 9999 then Some (t, None) else None)"
proof (cases "nd_year t \<le> 9999")
  case True
  let ?time = "pad 2 (nd_hour t) @ CHR '':'' # pad 2 (nd_minute t) @ CHR '':'' # pad 2 (nd_second t) @
           (if nd_micro t = 0 then [] else CHR ''.'' # pad 6 (nd_micro t))"
  have time: "parse_hms ?time = Some ((nd_hour t, nd_minute t, nd_second t, nd_micro t), [])"
    using assms(2) by (intro parse_hms_text) (auto simp: naive_ok_def)
  have hms: "hms_ok ch (nd_hour t) (nd_minute t) (nd_second t) (nd_micro t)" "\<not> nd_second t > 59"
    using assms(1,2) by (auto simp: chrono_laws_def naive_ok_def)
  have nocont: "dropWhile cont_byte ?time = ?time"
    using pad_nonempty [of 2 "nd_hour t"] assms(2)
    by (auto simp: naive_ok_def is_ascii_digit_def less_eq_char_def byte_in_def)
  have "isoformat ch t = year_text ch (nd_year t) @ CHR ''-'' # pad 2 (nd_month t) @ CHR ''-'' #
          pad 2 (nd_day t) @ CHR ''T'' # ?time"
    by (simp add: isoformat_def Let_def)
  then show ?thesis using True parse_date_text [OF assms(1,2,3) True] time hms nocont
    by (simp add: fromisoformat_def parse_time_def)
next
  case False
  with assms(1) obtain cs where "year_text ch (nd_year t) = CHR ''+'' # cs"
    by (fastforce simp: chrono_laws_def)
  then have "\<exists>ds. isoformat ch t = CHR ''+'' # ds" by (cases "nd_micro t = 0") (simp_all add: isoformat_def)
  then obtain ds where "isoformat ch t = CHR ''+'' # ds" by blast
  then show ?thesis using False
    by (simp add: fromisoformat_def parse_date_def digits_def is_ascii_digit_def less_eq_char_def)
qed

definition sample_year_text :: "int \<Rightarrow> string" where
  "sample_year_text y = (if y \<le> 9999 then pad 4 (nat y) else ''+99999'')"

definition sample_chrono :: chrono where
  "sample_chrono =
     \<lparr>ymd_ok = (\<lambda>y m d. 1 \<le> m \<and> m \<le> 12 \<and> 1 \<le> d \<and> d \<le> 28), iso_week_day = (\<lambda>y w d. None),
      hms_ok = (\<lambda>h m s us. h < 24 \<and> m < 60 \<and> s < 60 \<and> int us < 1000000),
      year_text = sample_year_text,
      add_seconds = (\<lambda>t n. if n mod 31536000 = 0 then Some (t\<lparr>nd_year := nd_year t + n div 31536000\<rparr>) else None),
      try_hours = (\<lambda>v. Some (v * 3600)), try_days = (\<lambda>v. Some (v * 86400)), try_weeks = (\<lambda>v. Some (v * 604800))\<rparr>"

definition sample_time :: naive where
  "sample_time = \<lparr>nd_year = 1, nd_month = 10, nd_day = 8, nd_hour = 14, nd_minute = 3, nd_second = 22, nd_micro = 0\<rparr>"

lemma sample_chrono_laws: "chrono_laws sample_chrono"
  by (simp add: chrono_laws_def sample_chrono_def sample_year_text_def)

end
