(* ===== verification/Db_Invites.thy ===== *)
theory Db_Invites
  imports Db_Accounts Py_Time
begin

text \<open>
  \<open>bunko-db/src/invites.rs\<close> and the writer of \<open>audit.rs\<close>: invites, registration with an
  invite in one transaction, and the audit rows both write. A call that reads the time gets a
  \<open>clock\<close>: SQLite's \<open>datetime('now')\<close> and \<open>datetime('now', '-30 days')\<close>, a monotonic instant
  in seconds and the local time. Parameters: \<open>chrono\<close> (see \<open>Py_Time\<close>), \<open>lower\<close>
  (\<open>char::to_lowercase\<close>) and the random codes, a list of draws. Audit details keep their keys
  and texts; their JSON form is not modelled.
\<close>

record clock =
  ck_text :: string
  ck_cutoff :: string
  ck_mono :: nat
  ck_local :: naive

section \<open>The audit writer\<close>

record new_event =
  ne_action :: string
  ne_actor :: "string option"
  ne_type :: "string option"
  ne_path :: "string option"
  ne_target :: "string option"
  ne_details :: "(string \<times> string option) list"

definition audit_prune_interval :: nat where "audit_prune_interval = 3600"

definition log_audit_in :: "clock \<Rightarrow> new_event \<Rightarrow> db \<Rightarrow> nat \<times> db" where
  "log_audit_in ck ev d =
     (let should_prune = (case last_prune d of None \<Rightarrow> True | Some l \<Rightarrow> ck_mono ck - l \<ge> audit_prune_interval);
          row = \<lparr>au_id = next_audit d, au_actor = ne_actor ev, au_action = ne_action ev, au_type = ne_type ev,
                 au_path = ne_path ev, au_target = ne_target ev, au_details = ne_details ev, au_created = ck_text ck\<rparr>;
          i = d\<lparr>audits := audits d @ [row], next_audit := Suc (next_audit d)\<rparr>
      in (next_audit d,
          if should_prune
          then i\<lparr>audits := filter (\<lambda>r. \<not> au_created r < ck_cutoff ck) (audits i), last_prune := Some (ck_mono ck)\<rparr>
          else i))"

section \<open>Invites\<close>

datatype invite_status = Valid | Expired | Used

record invite =
  nv_id :: nat
  nv_code :: string
  nv_role :: role
  nv_created :: string
  nv_expires :: string
  nv_used_by :: "string option"
  nv_invited_by :: "string option"

definition invitable_roles :: "role list" where
  "invitable_roles = [Editor, Inviter, Registered, Uploader]"

definition invitable_roles_text :: string where
  "invitable_roles_text = ''['' @ role_list_text [''editor'', ''inviter'', ''registered'', ''uploader''] @ '']''"

definition invalid_invite_message :: string where
  "invalid_invite_message = ''Invalid or expired invite code''"

definition expires_at_local :: "chrono \<Rightarrow> string \<Rightarrow> naive option" where
  "expires_at_local ch t =
     (case fromisoformat ch t of Some (nd, None) \<Rightarrow> Some nd | _ \<Rightarrow> None)"

definition invite_status_of :: "chrono \<Rightarrow> naive \<Rightarrow> invite \<Rightarrow> invite_status" where
  "invite_status_of ch now nv =
     (if (case nv_used_by nv of Some u \<Rightarrow> u \<noteq> [] | None \<Rightarrow> False) then Used
      else case expires_at_local ch (nv_expires nv) of
             Some expiry \<Rightarrow> if naive_le now expiry then Valid else Expired
           | None \<Rightarrow> Expired)"

definition into_invite :: "invite_row \<Rightarrow> db_error + invite" where
  "into_invite r =
     (case role_from_str (iv_role r) of
        Inl _ \<Rightarrow> Inl (CorruptRow ''invites''
                        (''invite '' @ quoted (iv_code r) @ '' has unknown role '' @ quoted (iv_role r)))
      | Inr role \<Rightarrow>
          Inr \<lparr>nv_id = iv_id r, nv_code = iv_code r, nv_role = role, nv_created = iv_created r,
               nv_expires = iv_expires r, nv_used_by = iv_used_by r, nv_invited_by = iv_invited_by r\<rparr>)"

definition find_invite :: "string \<Rightarrow> db \<Rightarrow> invite_row option" where
  "find_invite code d = find (\<lambda>r. iv_code r = code) (invites d)"

text \<open>The last character and the text before it (\<open>next_back\<close>, \<open>as_str\<close>).\<close>

definition last_char_split :: "string \<Rightarrow> string \<times> string" where
  "last_char_split s =
     (let k = Suc (length (takeWhile cont_byte (rev s)))
      in (take (length s - k) s, drop (length s - k) s))"

definition parse_py_int :: "string \<Rightarrow> int option" where
  "parse_py_int txt_in =
     (let t = py_strip txt_in;
          negative = (t \<noteq> [] \<and> hd t = CHR ''-'');
          digs = (if t \<noteq> [] \<and> (hd t = CHR ''-'' \<or> hd t = CHR ''+'') then tl t else t)
      in if digs = [] \<or> hd digs = CHR ''_'' \<or> last digs = CHR ''_'' \<or>
            list_ex (\<lambda>i. take 2 (drop i digs) = ''__'') [0..<length digs] \<or>
            \<not> list_all (\<lambda>b. is_ascii_digit b \<or> b = CHR ''_'') digs
         then None
         else case parse_i64 (filter (\<lambda>b. b \<noteq> CHR ''_'') digs) of
                None \<Rightarrow> None
              | Some v \<Rightarrow> Some (if negative then - v else v))"

definition invalid_duration :: "string \<Rightarrow> db_error" where
  "invalid_duration s = Invalid (''Invalid duration format: '' @ s)"

definition parse_duration :: "(string \<Rightarrow> string) \<Rightarrow> chrono \<Rightarrow> string \<Rightarrow> db_error + int" where
  "parse_duration lower ch duration =
     (if duration = [] then Inl (Invalid ''Duration cannot be empty'')
      else
        let (number, lst) = last_char_split duration in
        case parse_py_int number of
          None \<Rightarrow> Inl (invalid_duration duration)
        | Some value \<Rightarrow>
            if value \<le> 0 then Inl (Invalid (''Duration must be positive: '' @ duration))
            else
              let unit = lower lst in
              if unit \<notin> set [''h'', ''d'', ''w''] then Inl (Invalid (''Unknown duration unit: '' @ unit))
              else
                (case (if unit = ''h'' then try_hours ch value
                       else if unit = ''d'' then try_days ch value
                       else try_weeks ch value) of
                   None \<Rightarrow> Inl (invalid_duration duration)
                 | Some s \<Rightarrow> Inr s))"

text \<open>Draws until a code starts with neither \<open>-\<close> nor \<open>_\<close>; \<open>None\<close> when every draw did.\<close>

definition draw_code :: "string list \<Rightarrow> string option" where
  "draw_code draws = find (\<lambda>c. \<not> (c \<noteq> [] \<and> hd c \<in> set ''-_'')) draws"

definition invite_created_event :: "string option \<Rightarrow> string \<Rightarrow> role \<Rightarrow> string \<Rightarrow> new_event" where
  "invite_created_event by code role expires =
     \<lparr>ne_action = ''invite_created'', ne_actor = by, ne_type = Some ''invite'', ne_path = Some code,
      ne_target = None, ne_details = [(''role'', Some (role_as_str role)), (''expires'', Some expires)]\<rparr>"

definition create_invite ::
  "(string \<Rightarrow> string) \<Rightarrow> chrono \<Rightarrow> clock \<Rightarrow> string list \<Rightarrow> role \<Rightarrow> string \<Rightarrow> string option \<Rightarrow> db \<Rightarrow>
     ((db_error + string) \<times> db) option" where
  "create_invite lower ch ck draws role expires by d =
     (if role \<notin> set invitable_roles
      then Some (Inl (Invalid (''Role cannot be granted by invite: '' @ role_as_str role @
                   ''. Must be one of: '' @ invitable_roles_text)), d)
      else case draw_code draws of
        None \<Rightarrow> None
      | Some code \<Rightarrow>
          (case parse_duration lower ch expires of
             Inl e \<Rightarrow> Some (Inl e, d)
           | Inr dur \<Rightarrow>
               (case add_seconds ch (ck_local ck) dur of
                  None \<Rightarrow> Some (Inl (invalid_duration expires), d)
                | Some expiry \<Rightarrow>
                    if code \<in> iv_code ` set (invites d) then Some (Inl Sqlite, d)
                    else
                      let row = \<lparr>iv_id = next_invite d, iv_code = code, iv_role = role_as_str role,
                                 iv_invited_by = by, iv_created = ck_text ck, iv_expires = isoformat ch expiry,
                                 iv_used_by = None, iv_used_at = None\<rparr>;
                          i = d\<lparr>invites := invites d @ [row], next_invite := Suc (next_invite d)\<rparr>
                      in Some (Inr code, snd (log_audit_in ck (invite_created_event by code role expires) i)))))"

definition get_invite :: "string \<Rightarrow> db \<Rightarrow> db_error + invite option" where
  "get_invite code d =
     (case find_invite code d of
        None \<Rightarrow> Inr None
      | Some r \<Rightarrow> (case into_invite r of Inl e \<Rightarrow> Inl e | Inr nv \<Rightarrow> Inr (Some nv)))"

definition validate_invite :: "chrono \<Rightarrow> naive \<Rightarrow> string \<Rightarrow> db \<Rightarrow> invite option" where
  "validate_invite ch now code d =
     (case get_invite code d of
        Inr (Some nv) \<Rightarrow> if invite_status_of ch now nv = Valid then Some nv else None
      | _ \<Rightarrow> None)"

definition invite_used_event :: "string \<Rightarrow> string \<Rightarrow> invite \<Rightarrow> new_event" where
  "invite_used_event name code nv =
     \<lparr>ne_action = ''invite_used'', ne_actor = Some name, ne_type = Some ''invite'', ne_path = Some code,
      ne_target = Some name,
      ne_details = [(''invited_by'', nv_invited_by nv), (''role'', Some (role_as_str (nv_role nv)))]\<rparr>"

text \<open>\<open>UPDATE invites SET used_by ... WHERE code = ? AND used_by IS NULL\<close>.\<close>

definition consume_invite :: "string \<Rightarrow> string \<Rightarrow> string \<Rightarrow> db \<Rightarrow> nat \<times> db" where
  "consume_invite now_text code name d =
     (let p = (\<lambda>r. iv_code r = code \<and> iv_used_by r = None) in
      (length (filter p (invites d)),
       d\<lparr>invites := map (\<lambda>r. if p r then r\<lparr>iv_used_by := Some name, iv_used_at := Some now_text\<rparr> else r) (invites d)\<rparr>))"

text \<open>The check and the write of \<open>use_invite\<close> are two steps: \<open>nv\<close> is the invite the check found.\<close>

definition use_invite_write :: "clock \<Rightarrow> invite \<Rightarrow> string \<Rightarrow> string \<Rightarrow> db \<Rightarrow> bool \<times> db" where
  "use_invite_write ck nv code name d =
     (let (n, i) = consume_invite (ck_text ck) code name d in
      if n > 0 then (True, snd (log_audit_in ck (invite_used_event name code nv) i)) else (False, d))"

definition use_invite :: "chrono \<Rightarrow> clock \<Rightarrow> string \<Rightarrow> string \<Rightarrow> db \<Rightarrow> bool \<times> db" where
  "use_invite ch ck code name d =
     (case validate_invite ch (ck_local ck) code d of
        None \<Rightarrow> (False, d)
      | Some nv \<Rightarrow> use_invite_write ck nv code name d)"

definition invalid_invite :: db_error where
  "invalid_invite = Invalid invalid_invite_message"

definition redeem_in :: "chrono \<Rightarrow> clock \<Rightarrow> string \<Rightarrow> string \<Rightarrow> string \<Rightarrow> user_status \<Rightarrow> string \<Rightarrow> db \<Rightarrow>
    (db_error + nat \<times> role) \<times> db" where
  "redeem_in ch ck name hash code st notes d =
     (case validate_invite ch (ck_local ck) code d of
        None \<Rightarrow> (Inl invalid_invite, d)
      | Some nv \<Rightarrow>
          (case insert_user (ck_text ck) name hash (nv_role nv) st notes d of
             (Inl e, _) \<Rightarrow> (Inl e, d)
           | (Inr uid, i) \<Rightarrow>
               (let (consumed, i) = consume_invite (ck_text ck) code name i in
                if consumed \<noteq> 1 then (Inl invalid_invite, d)
                else (Inr (uid, nv_role nv), snd (log_audit_in ck (invite_used_event name code nv) i)))))"

definition create_user_with_invite ::
  "chrono \<Rightarrow> clock \<Rightarrow> string option \<Rightarrow> string \<Rightarrow> string \<Rightarrow> string \<Rightarrow> user_status \<Rightarrow> string \<Rightarrow> db \<Rightarrow>
     (db_error + nat \<times> role) \<times> db" where
  "create_user_with_invite ch ck hashed name password code st notes d =
     (case new_account_hash name password hashed of
        Inl e \<Rightarrow> (Inl e, bump d)
      | Inr hash \<Rightarrow> (let (res, d) = redeem_in ch ck name hash code st notes d in (res, bump d)))"

text \<open>\<open>ORDER BY created_at DESC\<close>; rows of one second keep the reverse of their order here.\<close>

definition list_invites :: "string \<Rightarrow> bool \<Rightarrow> db \<Rightarrow> invite list" where
  "list_invites now_text include_used d =
     List.map_filter (\<lambda>r. case into_invite r of Inl _ \<Rightarrow> None | Inr nv \<Rightarrow> Some nv)
       (rev (sort_key iv_created
          (filter (\<lambda>r. include_used \<or> iv_used_by r = None \<and> iv_expires r > now_text) (invites d))))"

definition delete_invite :: "string \<Rightarrow> db \<Rightarrow> bool \<times> db" where
  "delete_invite code d =
     (list_ex (\<lambda>r. iv_code r = code) (invites d),
      d\<lparr>invites := filter (\<lambda>r. iv_code r \<noteq> code) (invites d)\<rparr>)"

definition cleanup_expired_invites :: "chrono \<Rightarrow> naive \<Rightarrow> db \<Rightarrow> nat \<times> db" where
  "cleanup_expired_invites ch now d =
     (let old = (\<lambda>r. iv_used_by r = None \<and>
                   (case expires_at_local ch (iv_expires r) of Some e \<Rightarrow> \<not> naive_le now e | None \<Rightarrow> False))
      in (length (filter old (invites d)), d\<lparr>invites := filter (\<lambda>r. \<not> old r) (invites d)\<rparr>))"

end
