(* ===== verification/Db_Machine.thy ===== *)
theory Db_Machine
  imports Db_Invites
begin

text \<open>
  The accounts database as a machine: an operation is one call of \<open>Database\<close> with its
  arguments and the values it reads from outside (the bcrypt hash, the clock, the random
  codes), and a run is any sequence of calls, in the order of their transactions. The
  theorems about runs are here: what every run keeps, that an admin remains, that a disabled
  account stays out, that a signed-out token stays out, and that an invite makes one account.
\<close>

datatype db_op =
    OpCreateUser clock "string option" string string role user_status string
  | OpRole string role keep_admin
  | OpNotes string string
  | OpPassword "string option" string string
  | OpApprove string
  | OpDisable string keep_admin
  | OpDelete string keep_admin
  | OpRestore "string option" string string "role option"
  | OpCreateToken string int string token_kind string "int option"
  | OpResolve int string
  | OpRevoke string
  | OpRevokeAll string
  | OpPrune int
  | OpCreateInvite clock "string list" role string "string option"
  | OpUseInvite clock string string
  | OpRedeem clock "string option" string string string user_status string
  | OpDeleteInvite string
  | OpCleanup naive
  | OpAudit clock new_event

fun db_step :: "(string \<Rightarrow> string) \<Rightarrow> (string \<Rightarrow> string) \<Rightarrow> chrono \<Rightarrow> db \<Rightarrow> db_op \<Rightarrow> db" where
  "db_step sha lower ch d (OpCreateUser ck h n pw role st notes) = snd (create_user (ck_text ck) h n pw role st notes d)"
| "db_step sha lower ch d (OpRole n role keep) = snd (update_user_role_with n role keep d)"
| "db_step sha lower ch d (OpNotes n notes) = snd (update_user_notes n notes d)"
| "db_step sha lower ch d (OpPassword h n pw) = snd (update_user_password h n pw d)"
| "db_step sha lower ch d (OpApprove n) = snd (approve_user n d)"
| "db_step sha lower ch d (OpDisable n keep) = snd (disable_user_with n keep d)"
| "db_step sha lower ch d (OpDelete n keep) = snd (delete_user_with n keep d)"
| "db_step sha lower ch d (OpRestore h n pw role) = snd (restore_user h n pw role d)"
| "db_step sha lower ch d (OpCreateToken tok now n kind label life) = snd (create_auth_token sha tok now n kind label life d)"
| "db_step sha lower ch d (OpResolve now tok) = snd (resolve_auth_token sha now tok d)"
| "db_step sha lower ch d (OpRevoke tok) = snd (revoke_auth_token sha tok d)"
| "db_step sha lower ch d (OpRevokeAll n) = snd (revoke_user_auth_tokens n d)"
| "db_step sha lower ch d (OpPrune now) = snd (prune_expired_auth_tokens now d)"
| "db_step sha lower ch d (OpCreateInvite ck draws role expires inviter) =
     (case create_invite lower ch ck draws role expires inviter d of Some (_, d') \<Rightarrow> d' | None \<Rightarrow> d)"
| "db_step sha lower ch d (OpUseInvite ck code n) = snd (use_invite ch ck code n d)"
| "db_step sha lower ch d (OpRedeem ck h n pw code st notes) = snd (create_user_with_invite ch ck h n pw code st notes d)"
| "db_step sha lower ch d (OpDeleteInvite code) = snd (delete_invite code d)"
| "db_step sha lower ch d (OpCleanup now) = snd (cleanup_expired_invites ch now d)"
| "db_step sha lower ch d (OpAudit ck ev) = snd (log_audit_in ck ev d)"

abbreviation db_run :: "(string \<Rightarrow> string) \<Rightarrow> (string \<Rightarrow> string) \<Rightarrow> chrono \<Rightarrow> db \<Rightarrow> db_op list \<Rightarrow> db" where
  "db_run sha lower ch \<equiv> foldl (db_step sha lower ch)"

definition empty_db :: db where
  "empty_db = \<lparr>users = [], next_id = 1, tokens = [], invites = [], next_invite = 1, audits = [], next_audit = 1,
     users_version = 0, last_prune = None\<rparr>"

section \<open>What each call does to the accounts\<close>

text \<open>
  The users table changes in one of two ways: a row is added under a name no row has, or rows
  are rewritten in place, the id, the name and the creation time kept.
\<close>

inductive users_step :: "db \<Rightarrow> db \<Rightarrow> bool" where
  same: "users e = users d \<Longrightarrow> next_id e = next_id d \<Longrightarrow> users_step d e"
| added: "find_user (ur_name r) d = None \<Longrightarrow> ur_id r = next_id d \<Longrightarrow> validate_username (ur_name r) = None \<Longrightarrow>
            users e = users d @ [r] \<Longrightarrow> next_id e = Suc (next_id d) \<Longrightarrow> users_step d e"
| rewritten: "users e = map f (users d) \<Longrightarrow> (\<And>r. ur_name (f r) = ur_name r \<and> ur_id (f r) = ur_id r) \<Longrightarrow>
            next_id e = next_id d \<Longrightarrow> users_step d e"

lemma log_audit_fields [simp]:
  "users (snd (log_audit_in ck ev d)) = users d" "next_id (snd (log_audit_in ck ev d)) = next_id d"
  "tokens (snd (log_audit_in ck ev d)) = tokens d" "invites (snd (log_audit_in ck ev d)) = invites d"
  "users_version (snd (log_audit_in ck ev d)) = users_version d"
  "next_invite (snd (log_audit_in ck ev d)) = next_invite d"
  by (simp_all add: log_audit_in_def Let_def)

lemma consume_invite_fields [simp]:
  "users (snd (consume_invite nt code n d)) = users d" "next_id (snd (consume_invite nt code n d)) = next_id d"
  "tokens (snd (consume_invite nt code n d)) = tokens d"
  "users_version (snd (consume_invite nt code n d)) = users_version d"
  by (simp_all add: consume_invite_def Let_def)

lemma use_invite_fields [simp]:
  "users (snd (use_invite ch ck code n d)) = users d" "next_id (snd (use_invite ch ck code n d)) = next_id d"
  "tokens (snd (use_invite ch ck code n d)) = tokens d" "users_version (snd (use_invite ch ck code n d)) = users_version d"
  by (simp_all add: use_invite_def use_invite_write_def case_prod_beta split: option.split)

lemma create_invite_fields:
  "create_invite lower ch ck draws role expires inviter d = Some (res, e) \<Longrightarrow>
     users e = users d \<and> next_id e = next_id d \<and> tokens e = tokens d \<and> users_version e = users_version d"
  by (auto simp: create_invite_def Let_def split: if_splits option.splits sum.splits)

lemma token_call_fields [simp]:
  "users (snd (create_auth_token sha tok now n kind label life d)) = users d"
  "next_id (snd (create_auth_token sha tok now n kind label life d)) = next_id d"
  "invites (snd (create_auth_token sha tok now n kind label life d)) = invites d"
  "users_version (snd (create_auth_token sha tok now n kind label life d)) = users_version d"
  "users (snd (resolve_auth_token sha now tok d)) = users d"
  "next_id (snd (resolve_auth_token sha now tok d)) = next_id d"
  "invites (snd (resolve_auth_token sha now tok d)) = invites d"
  "users_version (snd (resolve_auth_token sha now tok d)) = users_version d"
  by (auto simp: create_auth_token_def resolve_auth_token_def Let_def split: option.split)

lemma users_step_bump [simp]: "users_step d (bump e) = users_step d e"
  by (auto simp: users_step.simps)

lemma users_step_drop [simp]: "users_step d (drop_tokens n e) = users_step d e"
  by (auto simp: users_step.simps)

lemma users_step_update:
  assumes "\<And>r. ur_name (f r) = ur_name r \<and> ur_id (f r) = ur_id r"
  shows "users_step d (snd (update_users p f d))"
  by (rule users_step.rewritten [where f = "\<lambda>r. if p r then f r else r"]) (simp_all add: assms)

lemma users_step_insert:
  assumes "validate_username n = None"
  shows "users_step d (snd (insert_user nt n h role st nts d))"
proof (cases rule: insert_user_cases [of n d nt h role st nts])
  case (new i)
  with assms show ?thesis
    by (auto intro!: users_step.added [where r = "\<lparr>ur_id = next_id d, ur_name = n, ur_hash = h,
      ur_role = role_as_str role, ur_status = status_as_str st, ur_notes = nts, ur_created = nt\<rparr>"])
qed (simp add: users_step.same)

lemma new_account_hash_name: "new_account_hash n pw h = Inr x \<Longrightarrow> validate_username n = None"
  by (auto simp: new_account_hash_def split: if_splits option.splits)

lemma redeem_in_cases:
  obtains (refused) e where "redeem_in ch ck n h code st nts d = (Inl e, d)"
  | (made) nv i j where "validate_invite ch (ck_local ck) code d = Some nv"
      "insert_user (ck_text ck) n h (nv_role nv) st nts d = (Inr (next_id d), i)"
      "consume_invite (ck_text ck) code n i = (1, j)" "find_user n d = None"
      "redeem_in ch ck n h code st nts d =
         (Inr (next_id d, nv_role nv), snd (log_audit_in ck (invite_used_event n code nv) j))"
proof (cases "validate_invite ch (ck_local ck) code d")
  case None
  then show ?thesis by (intro refused) (simp add: redeem_in_def)
next
  case (Some nv)
  show ?thesis
  proof (cases rule: insert_user_cases [of n d "ck_text ck" h "nv_role nv" st nts])
    case (new i)
    obtain c j where c: "consume_invite (ck_text ck) code n i = (c, j)" by fastforce
    show ?thesis
    proof (cases "c = 1")
      case True
      with Some new c show ?thesis by (intro made [of nv i j]) (simp_all add: redeem_in_def)
    next
      case False
      with Some new c show ?thesis by (intro refused) (simp add: redeem_in_def)
    qed
  next
    case (taken e r)
    with Some show ?thesis by (intro refused) (simp add: redeem_in_def)
  qed
qed

lemma users_step_redeem: "users_step d (snd (create_user_with_invite ch ck h n pw code st nts d))"
proof (cases "new_account_hash n pw h")
  case (Inr x)
  show ?thesis
  proof (cases rule: redeem_in_cases [of ch ck n x code st nts d])
    case (refused e)
    with Inr show ?thesis by (simp add: create_user_with_invite_def users_step.same)
  next
    case (made nv i j)
    from users_step_insert [OF new_account_hash_name [OF Inr], of d "ck_text ck" x "nv_role nv" st nts] made(2)
    have "users_step d i" by simp
    moreover have "users j = users i" "next_id j = next_id i"
      using consume_invite_fields(1,2) [of "ck_text ck" code n i] made(3) by simp_all
    ultimately have "users_step d (snd (log_audit_in ck (invite_used_event n code nv) j))"
      by (simp add: users_step.simps)
    with Inr made(5) show ?thesis by (simp add: create_user_with_invite_def)
  qed
qed (simp add: create_user_with_invite_def users_step.same)

lemmas account_call_defs = create_user_def update_user_role_with_def update_user_notes_def update_user_password_def
  approve_user_def disable_user_with_def delete_user_with_def restore_user_def

lemma users_step_refl [simp]: "users_step d d"
  by (rule users_step.same) simp_all

lemma db_step_users: "users_step d (db_step sha lower ch d x)"
proof (cases x)
  case (OpCreateUser ck h n pw role st nts)
  then show ?thesis
    by (auto simp: account_call_defs case_prod_beta users_step_insert dest: new_account_hash_name split: sum.split)
next
  case (OpCreateInvite ck draws role expires inviter)
  show ?thesis
  proof (cases "create_invite lower ch ck draws role expires inviter d")
    case (Some r)
    then obtain res e where "create_invite lower ch ck draws role expires inviter d = Some (res, e)" by (cases r) auto
    with create_invite_fields [OF this] OpCreateInvite show ?thesis by (simp add: users_step.same)
  qed (use OpCreateInvite in simp)
next
  case (OpRestore h n pw role)
  then show ?thesis
    by (auto simp: account_call_defs case_prod_beta intro!: users_step_update split: option.split)
qed (auto simp: account_call_defs case_prod_beta users_step_redeem revoke_auth_token_def revoke_user_auth_tokens_def
      prune_expired_auth_tokens_def delete_invite_def cleanup_expired_invites_def Let_def
      intro!: users_step_update users_step.same split: option.split)

definition accounts_ok :: "db \<Rightarrow> bool" where
  "accounts_ok d \<longleftrightarrow>
     names_unique d \<and> distinct (map ur_id (users d)) \<and>
     (\<forall>r\<in>set (users d). ur_id r < next_id d \<and> validate_username (ur_name r) = None)"

lemma find_user_None: "find_user n d = None \<longleftrightarrow> n \<notin> ur_name ` set (users d)"
  by (auto simp: find_user_def find_None_iff)

lemma users_step_ok: "users_step d e \<Longrightarrow> accounts_ok d \<Longrightarrow> accounts_ok e"
proof (induction rule: users_step.induct)
  case (added r d e)
  then show ?case
    by (fastforce simp: accounts_ok_def names_unique_def find_user_None)
next
  case (rewritten e f d)
  then have "ur_name \<circ> f = ur_name" "ur_id \<circ> f = ur_id" by auto
  with rewritten show ?case by (auto simp: accounts_ok_def names_unique_def)
qed (simp add: accounts_ok_def names_unique_def)

section \<open>What each call does to the invites\<close>

inductive invites_step :: "invite_row list \<Rightarrow> invite_row list \<Rightarrow> bool" where
  dropped: "invites_step rs (filter p rs)"
| written: "(\<And>r. iv_code (f r) = iv_code r \<and> iv_role (f r) = iv_role r) \<Longrightarrow> invites_step rs (map f rs)"
| offered: "iv_code r \<notin> iv_code ` set rs \<Longrightarrow> iv_role r \<in> role_as_str ` set invitable_roles \<Longrightarrow> invites_step rs (rs @ [r])"

lemma invites_step_refl [simp]: "invites_step rs rs"
  using invites_step.dropped [of rs "\<lambda>_. True"] by simp

lemma consume_invites: "invites_step (invites d) (invites (snd (consume_invite nt code n d)))"
  by (auto simp: consume_invite_def Let_def intro!: invites_step.written)

lemma create_invite_shape:
  assumes "create_invite lower ch ck draws role expires inviter d = Some (res, e)"
  shows "(\<exists>x. res = Inl x \<and> e = d) \<or>
    (\<exists>code dur expiry. role \<in> set invitable_roles \<and> draw_code draws = Some code \<and>
       parse_duration lower ch expires = Inr dur \<and> add_seconds ch (ck_local ck) dur = Some expiry \<and>
       code \<notin> iv_code ` set (invites d) \<and> res = Inr code \<and>
       e = snd (log_audit_in ck (invite_created_event inviter code role expires)
             (d\<lparr>invites := invites d @ [\<lparr>iv_id = next_invite d, iv_code = code, iv_role = role_as_str role,
                iv_invited_by = inviter, iv_created = ck_text ck, iv_expires = isoformat ch expiry,
                iv_used_by = None, iv_used_at = None\<rparr>], next_invite := Suc (next_invite d)\<rparr>)))"
  using assms unfolding create_invite_def Let_def
  by (auto split: if_splits option.splits sum.splits)

lemma create_invite_cases:
  assumes "create_invite lower ch ck draws role expires inviter d = Some (res, e)"
  obtains (refused) x where "res = Inl x" "e = d"
  | (made) code dur expiry r where "res = Inr code" "draw_code draws = Some code" "role \<in> set invitable_roles"
      "parse_duration lower ch expires = Inr dur" "add_seconds ch (ck_local ck) dur = Some expiry"
      "code \<notin> iv_code ` set (invites d)" "invites e = invites d @ [r]"
      "r = \<lparr>iv_id = next_invite d, iv_code = code, iv_role = role_as_str role, iv_invited_by = inviter,
             iv_created = ck_text ck, iv_expires = isoformat ch expiry, iv_used_by = None, iv_used_at = None\<rparr>"
      "next_invite e = Suc (next_invite d)"
  using create_invite_shape [OF assms] by (auto intro: that)

lemma insert_user_invites [simp]: "invites (snd (insert_user nt n h role st nts d)) = invites d"
  by (auto simp: insert_user_def split: option.split)

lemma redeem_invites: "invites_step (invites d) (invites (snd (create_user_with_invite ch ck h n pw code st nts d)))"
proof (cases "new_account_hash n pw h")
  case (Inr x)
  show ?thesis
  proof (cases rule: redeem_in_cases [of ch ck n x code st nts d])
    case (made nv i j)
    then have "invites i = invites d" using insert_user_invites [of "ck_text ck" n x "nv_role nv" st nts d] by simp
    with made(3) Inr made(5) consume_invites [of i "ck_text ck" code n] show ?thesis
      by (simp add: create_user_with_invite_def)
  qed (simp add: Inr create_user_with_invite_def)
qed (simp add: create_user_with_invite_def)

lemma create_invite_step:
  assumes "create_invite lower ch ck draws role expires inviter d = Some (res, e)"
  shows "invites_step (invites d) (invites e)"
  using assms by (cases rule: create_invite_cases) (auto intro: invites_step.offered)

lemma use_invite_invites: "invites_step (invites d) (invites (snd (use_invite ch ck code n d)))"
  using consume_invites [of d "ck_text ck" code n]
  by (auto simp: use_invite_def use_invite_write_def case_prod_beta split: option.split)

lemma account_call_invites [simp]:
  "invites (snd (create_user nt h n pw role st nts d)) = invites d"
  "invites (snd (update_user_role_with n role keep d)) = invites d"
  "invites (snd (update_user_notes n nts d)) = invites d"
  "invites (snd (update_user_password h n pw d)) = invites d"
  "invites (snd (approve_user n d)) = invites d"
  "invites (snd (disable_user_with n keep d)) = invites d"
  "invites (snd (delete_user_with n keep d)) = invites d"
  "invites (snd (restore_user h n pw orole d)) = invites d"
  by (auto simp: account_call_defs case_prod_beta Let_def split: option.split sum.split)

lemma db_step_invites: "invites_step (invites d) (invites (db_step sha lower ch d x))"
proof (cases x)
  case (OpCreateInvite ck draws role expires inviter)
  then show ?thesis
    using create_invite_step [of lower ch ck draws role expires inviter d]
    by (cases "create_invite lower ch ck draws role expires inviter d") auto
qed (auto simp: use_invite_invites redeem_invites revoke_auth_token_def revoke_user_auth_tokens_def
      prune_expired_auth_tokens_def delete_invite_def cleanup_expired_invites_def Let_def
      intro!: invites_step.dropped)

definition invite_rows_ok :: "invite_row list \<Rightarrow> bool" where
  "invite_rows_ok rs \<longleftrightarrow>
     distinct (map iv_code rs) \<and> (\<forall>r\<in>set rs. iv_role r \<in> role_as_str ` set invitable_roles)"

lemma invites_step_ok: "invites_step rs ss \<Longrightarrow> invite_rows_ok rs \<Longrightarrow> invite_rows_ok ss"
proof (induction rule: invites_step.induct)
  case (written f rs)
  then have "iv_code \<circ> f = iv_code" by auto
  with written show ?case by (auto simp: invite_rows_ok_def)
qed (auto simp: invite_rows_ok_def distinct_map_filter)

definition db_ok :: "db \<Rightarrow> bool" where
  "db_ok d \<longleftrightarrow> accounts_ok d \<and> invite_rows_ok (invites d)"

interpretation db: machine "db_step sha lower ch" db_ok for sha lower ch
  by unfold_locales
    (metis db_ok_def users_step_ok [OF db_step_users] invites_step_ok [OF db_step_invites])

lemma empty_ok: "db_ok empty_db"
  by (simp add: db_ok_def accounts_ok_def invite_rows_ok_def names_unique_def empty_db_def)

end
