(* ===== verification/Account_Book.thy ===== *)
theory Account_Book
  imports Db_Machine
begin

text \<open>
  What the accounts database promises, said without its tables: a book maps each name to its
  account and each code to its invite, and a call changes the entry of its name, of its code,
  or both at once (registration with an invite). The tables refine the book: every call of
  \<open>Db_Machine\<close> acts on \<open>book_of\<close> its state as \<open>book_step\<close> says. The theorems about accounts
  over time are proved of the book.
\<close>

record book =
  bk_acc :: "string \<Rightarrow> user_row option"
  bk_inv :: "string \<Rightarrow> invite_row option"
  bk_next_id :: nat
  bk_next_invite :: nat

definition book_of :: "db \<Rightarrow> book" where
  "book_of d = \<lparr>bk_acc = (\<lambda>n. find_user n d), bk_inv = (\<lambda>c. find_invite c d), bk_next_id = next_id d,
     bk_next_invite = next_invite d\<rparr>"

definition on_entry :: "('k \<Rightarrow> 'a option) \<Rightarrow> 'k \<Rightarrow> ('a \<Rightarrow> 'a) \<Rightarrow> 'k \<Rightarrow> 'a option" where
  "on_entry m k f = m(k := map_option f (m k))"

definition sole_admin :: "(string \<Rightarrow> user_row option) \<Rightarrow> string \<Rightarrow> bool" where
  "sole_admin m n \<longleftrightarrow>
     (\<exists>r. m n = Some r \<and> active_admin r) \<and> (\<forall>k r. m k = Some r \<and> active_admin r \<longrightarrow> k = n)"

definition edit_account :: "string \<Rightarrow> (user_row \<Rightarrow> user_row) \<Rightarrow> book \<Rightarrow> book" where
  "edit_account n f b = b\<lparr>bk_acc := on_entry (bk_acc b) n f\<rparr>"

definition edit_guarded :: "string \<Rightarrow> bool \<Rightarrow> (user_row \<Rightarrow> user_row) \<Rightarrow> book \<Rightarrow> book" where
  "edit_guarded n guarded f b = (if guarded \<and> sole_admin (bk_acc b) n then b else edit_account n f b)"

definition open_account :: "string \<Rightarrow> string \<Rightarrow> string \<Rightarrow> string \<Rightarrow> user_status \<Rightarrow> string \<Rightarrow> book \<Rightarrow> book" where
  "open_account nt n hash role st nts b =
     b\<lparr>bk_acc := (bk_acc b)(n \<mapsto> \<lparr>ur_id = bk_next_id b, ur_name = n, ur_hash = hash, ur_role = role,
          ur_status = status_as_str st, ur_notes = nts, ur_created = nt\<rparr>),
       bk_next_id := Suc (bk_next_id b)\<rparr>"

definition usable :: "chrono \<Rightarrow> naive \<Rightarrow> invite_row \<Rightarrow> bool" where
  "usable ch now r \<longleftrightarrow>
     iv_used_by r = None \<and> (case expires_at_local ch (iv_expires r) of Some e \<Rightarrow> naive_le now e | None \<Rightarrow> False)"

definition mark_used :: "string \<Rightarrow> string \<Rightarrow> invite_row \<Rightarrow> invite_row" where
  "mark_used nt n r = r\<lparr>iv_used_by := Some n, iv_used_at := Some nt\<rparr>"

fun book_step :: "(string \<Rightarrow> string) \<Rightarrow> chrono \<Rightarrow> book \<Rightarrow> db_op \<Rightarrow> book" where
  "book_step lower ch b (OpCreateUser ck h n pw role st nts) =
     (case new_account_hash n pw h of
        Inr hash \<Rightarrow> if bk_acc b n = None then open_account (ck_text ck) n hash (role_as_str role) st nts b else b
      | Inl _ \<Rightarrow> b)"
| "book_step lower ch b (OpRole n role keep) =
     edit_guarded n (role \<noteq> Admin \<and> keep = Keep) (\<lambda>r. r\<lparr>ur_role := role_as_str role\<rparr>) b"
| "book_step lower ch b (OpNotes n nts) = edit_account n (\<lambda>r. r\<lparr>ur_notes := nts\<rparr>) b"
| "book_step lower ch b (OpPassword h n pw) =
     (case h of
        Some x \<Rightarrow> if validate_password pw = None then edit_account n (\<lambda>r. r\<lparr>ur_hash := x\<rparr>) b else b
      | None \<Rightarrow> b)"
| "book_step lower ch b (OpApprove n) =
     edit_account n (\<lambda>r. if ur_status r = ''pending'' then r\<lparr>ur_status := ''active''\<rparr> else r) b"
| "book_step lower ch b (OpDisable n keep) = edit_guarded n (keep = Keep) (\<lambda>r. r\<lparr>ur_status := ''disabled''\<rparr>) b"
| "book_step lower ch b (OpDelete n keep) = edit_guarded n (keep = Keep) (\<lambda>r. r\<lparr>ur_status := ''deleted''\<rparr>) b"
| "book_step lower ch b (OpRestore h n pw role) =
     (case h of
        Some x \<Rightarrow>
          if validate_password pw = None
          then edit_account n (\<lambda>r. if ur_status r = ''deleted''
                 then r\<lparr>ur_status := ''active'', ur_hash := x,
                        ur_role := (case role of Some y \<Rightarrow> role_as_str y | None \<Rightarrow> ur_role r)\<rparr> else r) b
          else b
      | None \<Rightarrow> b)"
| "book_step lower ch b (OpCreateInvite ck draws role expires inviter) =
     (case (draw_code draws, parse_duration lower ch expires) of
        (Some code, Inr dur) \<Rightarrow>
          (case add_seconds ch (ck_local ck) dur of
             Some expiry \<Rightarrow>
               if role \<in> set invitable_roles \<and> bk_inv b code = None
               then b\<lparr>bk_inv := (bk_inv b)(code \<mapsto> \<lparr>iv_id = bk_next_invite b, iv_code = code,
                        iv_role = role_as_str role, iv_invited_by = inviter, iv_created = ck_text ck,
                        iv_expires = isoformat ch expiry, iv_used_by = None, iv_used_at = None\<rparr>),
                      bk_next_invite := Suc (bk_next_invite b)\<rparr>
               else b
           | None \<Rightarrow> b)
      | _ \<Rightarrow> b)"
| "book_step lower ch b (OpUseInvite ck code n) =
     (case bk_inv b code of
        Some r \<Rightarrow> if usable ch (ck_local ck) r
                  then b\<lparr>bk_inv := on_entry (bk_inv b) code (mark_used (ck_text ck) n)\<rparr> else b
      | None \<Rightarrow> b)"
| "book_step lower ch b (OpRedeem ck h n pw code st nts) =
     (case (new_account_hash n pw h, bk_inv b code) of
        (Inr hash, Some r) \<Rightarrow>
          if usable ch (ck_local ck) r \<and> bk_acc b n = None
          then (open_account (ck_text ck) n hash (iv_role r) st nts b)
                 \<lparr>bk_inv := on_entry (bk_inv b) code (mark_used (ck_text ck) n)\<rparr>
          else b
      | _ \<Rightarrow> b)"
| "book_step lower ch b (OpDeleteInvite code) = b\<lparr>bk_inv := (bk_inv b)(code := None)\<rparr>"
| "book_step lower ch b (OpCleanup now) =
     b\<lparr>bk_inv := (\<lambda>c. case bk_inv b c of
          Some r \<Rightarrow> if iv_used_by r = None \<and>
                       (case expires_at_local ch (iv_expires r) of Some e \<Rightarrow> \<not> naive_le now e | None \<Rightarrow> False)
                    then None else Some r
        | None \<Rightarrow> None)\<rparr>"
| "book_step lower ch b _ = b"

section \<open>The tables refine the book\<close>

lemma book_eq:
  "(book_of d = b) = ((\<forall>n. find_user n d = bk_acc b n) \<and> (\<forall>c. find_invite c d = bk_inv b c) \<and>
     next_id d = bk_next_id b \<and> next_invite d = bk_next_invite b)"
  by (cases b) (auto simp: book_of_def)

lemma book_fields [simp]:
  "bk_acc (book_of d) n = find_user n d" "bk_inv (book_of d) c = find_invite c d"
  "bk_next_id (book_of d) = next_id d" "bk_next_invite (book_of d) = next_invite d"
  by (simp_all add: book_of_def)

lemma book_of_cong:
  "users e = users d \<Longrightarrow> invites e = invites d \<Longrightarrow> next_id e = next_id d \<Longrightarrow> next_invite e = next_invite d \<Longrightarrow>
     book_of e = book_of d"
  by (simp add: book_of_def find_user_def find_invite_def)

lemma book_of_bump [simp]: "book_of (bump d) = book_of d"
  by (rule book_of_cong) simp_all

lemma book_of_drop [simp]: "book_of (drop_tokens n d) = book_of d"
  by (rule book_of_cong) (simp_all add: drop_tokens_def)

lemma next_invite_update [simp]: "next_invite (snd (update_users p f d)) = next_invite d"
  by (simp add: update_users_def)

lemma book_of_update:
  assumes "\<And>r. ur_name (f r) = ur_name r" "\<And>r. p r \<longleftrightarrow> ur_name r = n \<and> q r"
  shows "book_of (snd (update_users p f d)) = edit_account n (\<lambda>r. if q r then f r else r) (book_of d)"
proof -
  have "find_user k (snd (update_users p f d)) = on_entry (bk_acc (book_of d)) n (\<lambda>r. if q r then f r else r) k" for k
  proof (cases "find_user k d")
    case None
    then show ?thesis by (auto simp: find_user_update [OF assms(1)] on_entry_def)
  next
    case (Some r)
    then have "ur_name r = k" by (simp add: find_user_name)
    with Some show ?thesis by (auto simp: find_user_update [OF assms(1)] on_entry_def assms(2))
  qed
  then show ?thesis
    by (simp add: book_eq edit_account_def) (simp add: find_invite_def)
qed

lemma book_of_update_all:
  assumes "\<And>r. ur_name (f r) = ur_name r"
  shows "book_of (snd (update_users (\<lambda>r. ur_name r = n) f d)) = edit_account n f (book_of d)"
  using book_of_update [OF assms, where p = "\<lambda>r. ur_name r = n" and q = "\<lambda>_. True"] by simp

lemma sole_admin_of:
  assumes "names_unique d"
  shows "is_last_active_admin n d \<longleftrightarrow> sole_admin (bk_acc (book_of d)) n"
proof -
  have "filter (\<lambda>r. active_admin r \<and> ur_name r \<noteq> n) (users d) = [] \<longleftrightarrow>
      (\<forall>k r. find_user k d = Some r \<and> active_admin r \<longrightarrow> k = n)"
    unfolding filter_empty_conv
  proof safe
    fix k r assume "\<forall>r\<in>set (users d). \<not> (active_admin r \<and> ur_name r \<noteq> n)" "find_user k d = Some r" "active_admin r"
    then show "k = n" using find_user_name [of k d r] by blast
  next
    fix r assume "\<forall>k r. find_user k d = Some r \<and> active_admin r \<longrightarrow> k = n"
      "r \<in> set (users d)" "active_admin r" "ur_name r \<noteq> n"
    then show False using find_user_unique [OF assms, of r] by blast
  qed
  then show ?thesis
    by (auto simp: is_last_active_admin_def sole_admin_def split: option.split)
qed

lemma guard_is:
  assumes "names_unique d"
  shows "guard_last_admin n keep d = None \<longleftrightarrow> \<not> (keep = Keep \<and> sole_admin (bk_acc (book_of d)) n)"
  using sole_admin_of [OF assms] by (simp add: guard_last_admin_def)

lemma edit_guarded_cases:
  assumes "names_unique d"
  shows "book_of (snd (case (if g then guard_last_admin n keep d else None) of
           Some e \<Rightarrow> (Inl e, bump d) | None \<Rightarrow> (Inr c, e))) =
         (if g \<and> keep = Keep \<and> sole_admin (bk_acc (book_of d)) n then book_of d else book_of e)"
  using guard_is [OF assms, of n keep] by (auto split: option.split)

lemma book_of_insert:
  "book_of (snd (insert_user nt n h role st nts d)) =
     (if find_user n d = None then open_account nt n h (role_as_str role) st nts (book_of d) else book_of d)"
  by (auto simp: insert_user_def book_eq open_account_def find_user_def find_snoc find_invite_def
      split: option.split)

lemma find_invite_map:
  "(\<And>r. iv_code (f r) = iv_code r) \<Longrightarrow> find (\<lambda>r. iv_code r = c) (map f rs) = map_option f (find (\<lambda>r. iv_code r = c) rs)"
  by (induction rs) auto

lemma find_invite_code: "find_invite c d = Some r \<Longrightarrow> iv_code r = c \<and> r \<in> set (invites d)"
  by (auto simp: find_invite_def find_Some_iff)

lemma consume_count:
  assumes "distinct (map iv_code rs)" "find (\<lambda>r. iv_code r = code) rs = Some r"
  shows "length (filter (\<lambda>r. iv_code r = code \<and> iv_used_by r = None) rs) = (if iv_used_by r = None then 1 else 0)"
  using assms
proof (induction rs)
  case (Cons a rs)
  show ?case
  proof (cases "iv_code a = code")
    case True
    with Cons.prems have "filter (\<lambda>r. iv_code r = code \<and> iv_used_by r = None) rs = []"
      by (auto simp: filter_empty_conv image_iff)
    with True Cons.prems show ?thesis by auto
  qed (use Cons in auto)
qed simp

lemma book_of_consume:
  "book_of (snd (consume_invite nt code n d)) =
     (book_of d)\<lparr>bk_inv := on_entry (bk_inv (book_of d)) code
        (\<lambda>r. if iv_used_by r = None then mark_used nt n r else r)\<rparr>"
proof -
  let ?f = "\<lambda>r. if iv_used_by r = None then mark_used nt n r else r"
  have "find_invite c (snd (consume_invite nt code n d)) = on_entry (bk_inv (book_of d)) code ?f c" for c
  proof -
    have "find_invite c (snd (consume_invite nt code n d)) =
        map_option (\<lambda>r. if iv_code r = code \<and> iv_used_by r = None then mark_used nt n r else r) (find_invite c d)"
      using find_invite_map [of "\<lambda>r. if iv_code r = code \<and> iv_used_by r = None then mark_used nt n r else r" c "invites d"]
      by (simp add: consume_invite_def Let_def find_invite_def mark_used_def cong: if_cong)
    then show ?thesis
      using find_invite_code [of c d] by (cases "find_invite c d") (auto simp: on_entry_def)
  qed
  then show ?thesis
    by (simp add: book_eq) (simp add: find_user_def consume_invite_def Let_def)
qed

lemma role_read_back: "role_from_str (role_as_str role) = Inr role"
  by (cases role) (simp_all add: role_from_str_def all_roles_def)

lemma validate_usable:
  assumes "invite_rows_ok (invites d)" "find_invite code d = Some r" "usable ch now r"
  obtains nv where "validate_invite ch now code d = Some nv" "role_as_str (nv_role nv) = iv_role r"
    "nv_role nv \<in> set invitable_roles"
proof -
  from assms(1) find_invite_code [OF assms(2)] obtain role where
    role: "iv_role r = role_as_str role" "role \<in> set invitable_roles"
    by (auto simp: invite_rows_ok_def)
  then have "into_invite r = Inr \<lparr>nv_id = iv_id r, nv_code = iv_code r, nv_role = role, nv_created = iv_created r,
               nv_expires = iv_expires r, nv_used_by = iv_used_by r, nv_invited_by = iv_invited_by r\<rparr>"
    by (simp add: into_invite_def role_read_back)
  with assms role that show thesis
    by (auto simp: validate_invite_def get_invite_def invite_status_of_def usable_def split: option.splits)
qed

lemma validate_unusable:
  assumes "find_invite code d = Some r" "\<not> usable ch now r" "validate_invite ch now code d = Some nv"
  shows "iv_used_by r \<noteq> None"
proof
  assume "iv_used_by r = None"
  then show False using assms
    by (auto simp: validate_invite_def get_invite_def invite_status_of_def usable_def into_invite_def
        split: option.splits sum.splits if_splits)
qed

lemma validate_found: "validate_invite ch now code d = Some nv \<Longrightarrow> \<exists>r. find_invite code d = Some r"
  by (auto simp: validate_invite_def get_invite_def split: option.splits)

lemma consume_fst:
  assumes "invite_rows_ok (invites d)" "find_invite code d = Some r"
  shows "fst (consume_invite nt code n d) = (if iv_used_by r = None then 1 else 0)"
  using consume_count [of "invites d" code r] assms
  by (simp add: consume_invite_def Let_def invite_rows_ok_def find_invite_def)

lemma consume_none:
  "find_invite code d = Some r \<Longrightarrow> iv_used_by r = None \<Longrightarrow>
     book_of (snd (consume_invite nt code n d)) = (book_of d)\<lparr>bk_inv := on_entry (bk_inv (book_of d)) code (mark_used nt n)\<rparr>"
  by (simp add: book_of_consume on_entry_def)

lemma book_of_log [simp]: "book_of (snd (log_audit_in ck ev d)) = book_of d"
  by (rule book_of_cong) simp_all

lemma book_of_use:
  assumes "invite_rows_ok (invites d)"
  shows "book_of (snd (use_invite ch ck code n d)) = book_step lower ch (book_of d) (OpUseInvite ck code n)"
proof (cases "find_invite code d")
  case None
  then have "validate_invite ch (ck_local ck) code d = None" by (simp add: validate_invite_def get_invite_def)
  with None show ?thesis by (simp add: use_invite_def)
next
  case (Some r)
  show ?thesis
  proof (cases "usable ch (ck_local ck) r")
    case True
    then have "iv_used_by r = None" by (simp add: usable_def)
    with True consume_fst [OF assms Some, of "ck_text ck" n] consume_none [OF Some, of "ck_text ck" n] show ?thesis
      by (rule_tac validate_usable [OF assms Some True])
        (simp add: use_invite_def use_invite_write_def case_prod_beta Some)
  next
    case False
    with validate_unusable [OF Some False] consume_fst [OF assms Some, of "ck_text ck" n] show ?thesis
      by (cases "validate_invite ch (ck_local ck) code d")
        (auto simp: use_invite_def use_invite_write_def case_prod_beta Some)
  qed
qed

lemma redeem_in_book:
  assumes "invite_rows_ok (invites d)"
  shows "book_of (snd (redeem_in ch ck n hash code st nts d)) =
     (case find_invite code d of
        Some r \<Rightarrow>
          if usable ch (ck_local ck) r \<and> find_user n d = None
          then (open_account (ck_text ck) n hash (iv_role r) st nts (book_of d))
                 \<lparr>bk_inv := on_entry (bk_inv (book_of d)) code (mark_used (ck_text ck) n)\<rparr>
          else book_of d
      | None \<Rightarrow> book_of d)"
proof (cases "find_invite code d")
  case None
  then have "validate_invite ch (ck_local ck) code d = None" by (simp add: validate_invite_def get_invite_def)
  with None show ?thesis by (simp add: redeem_in_def)
next
  case (Some r)
  have ins: "invites (snd (insert_user nt n hash role st nts d)) = invites d" for nt role by simp
  show ?thesis
  proof (cases "usable ch (ck_local ck) r \<and> find_user n d = None")
    case True
    then have none: "iv_used_by r = None" by (simp add: usable_def)
    obtain nv where nv: "validate_invite ch (ck_local ck) code d = Some nv" "role_as_str (nv_role nv) = iv_role r"
      using validate_usable [OF assms Some] True by blast
    obtain i where i: "insert_user (ck_text ck) n hash (nv_role nv) st nts d = (Inr (next_id d), i)"
      "book_of i = open_account (ck_text ck) n hash (iv_role r) st nts (book_of d)" "invites i = invites d"
      using True book_of_insert [of "ck_text ck" n hash "nv_role nv" st nts d] ins [of "ck_text ck" "nv_role nv"] nv(2)
      by (cases rule: insert_user_cases [of n d "ck_text ck" hash "nv_role nv" st nts]) auto
    have f: "find_invite code i = Some r" using Some i(3) by (simp add: find_invite_def)
    have "bk_inv (open_account (ck_text ck) n hash (iv_role r) st nts (book_of d)) = bk_inv (book_of d)"
      by (simp add: open_account_def)
    with True Some nv i consume_fst [of i, OF _ f, of "ck_text ck" n] consume_none [OF f none, of "ck_text ck" n] assms none
    show ?thesis
      by (simp add: redeem_in_def case_prod_beta)
  next
    case False
    have "redeem_in ch ck n hash code st nts d = (Inl e, d) \<Longrightarrow> ?thesis" for e
      using False Some by auto
    moreover have "\<exists>e. redeem_in ch ck n hash code st nts d = (Inl e, d)"
    proof (cases rule: redeem_in_cases [of ch ck n hash code st nts d])
      case (made nv i j)
      then have u: "iv_used_by r \<noteq> None" using False validate_unusable [OF Some] by blast
      have "invites i = invites d" using ins [of "ck_text ck" "nv_role nv"] made(2) by simp
      then have "fst (consume_invite (ck_text ck) code n i) = 0"
        using consume_fst [of i code r] assms Some u by (simp add: find_invite_def)
      with made(3) show ?thesis by simp
    qed simp
    ultimately show ?thesis by blast
  qed
qed

lemma next_invite_calls [simp]:
  "next_invite (snd (insert_user nt n h role st nts d)) = next_invite d"
  "next_invite (snd (consume_invite nt code n d)) = next_invite d"
  by (auto simp: insert_user_def consume_invite_def Let_def split: option.split)

lemma next_invite_created:
  "create_invite lower ch ck draws role expires inviter d = Some (res, e) \<Longrightarrow> bk_acc (book_of e) = bk_acc (book_of d)"
  using create_invite_fields [of lower ch ck draws role expires inviter d res e]
  by (auto simp: book_of_def find_user_def)

lemma find_invite_None: "find_invite c d = None \<longleftrightarrow> c \<notin> iv_code ` set (invites d)"
  by (auto simp: find_invite_def find_None_iff)

lemma book_of_create_invite:
  "book_of (db_step sha lower ch d (OpCreateInvite ck draws role expires inviter)) =
     book_step lower ch (book_of d) (OpCreateInvite ck draws role expires inviter)"
proof (cases "role \<in> set invitable_roles")
  case True
  show ?thesis
  proof (cases "draw_code draws")
    case (Some code)
    show ?thesis
    proof (cases "parse_duration lower ch expires")
      case (Inr dur)
      show ?thesis
      proof (cases "add_seconds ch (ck_local ck) dur")
        case (Some expiry)
        show ?thesis
        proof (cases "find_invite code d")
          case None
          then have "code \<notin> iv_code ` set (invites d)" by (simp add: find_invite_None)
          with True \<open>draw_code draws = Some code\<close> Inr Some None show ?thesis
            by (simp add: create_invite_def Let_def)
              (auto simp: book_eq find_invite_def find_user_def find_snoc
                 split: option.split)
        next
          case (Some r)
          then have "code \<in> iv_code ` set (invites d)" using find_invite_None [of code d] by simp
          with True \<open>draw_code draws = Some code\<close> Inr Some \<open>add_seconds ch (ck_local ck) dur = Some expiry\<close>
          show ?thesis by (simp add: create_invite_def Let_def)
        qed
      qed (use True Some Inr in \<open>simp add: create_invite_def\<close>)
    qed (use True Some in \<open>simp add: create_invite_def\<close>)
  qed (use True in \<open>simp add: create_invite_def split: sum.split\<close>)
qed (simp add: create_invite_def split: option.split sum.split)

lemma edit_guarded_unfold:
  "edit_guarded n g f b = (if g \<and> sole_admin (bk_acc b) n then b else edit_account n f b)"
  by (simp add: edit_guarded_def)

lemma book_of_role:
  assumes "names_unique d"
  shows "book_of (snd (update_user_role_with n role keep d)) =
     edit_guarded n (role \<noteq> Admin \<and> keep = Keep) (\<lambda>r. r\<lparr>ur_role := role_as_str role\<rparr>) (book_of d)"
  using guard_is [OF assms, of n keep] book_of_update_all [of "\<lambda>r. r\<lparr>ur_role := role_as_str role\<rparr>" n d]
  by (auto simp: update_user_role_with_def edit_guarded_def case_prod_beta split: option.split)

lemma book_of_disable:
  assumes "names_unique d"
  shows "book_of (snd (disable_user_with n keep d)) =
     edit_guarded n (keep = Keep) (\<lambda>r. r\<lparr>ur_status := ''disabled''\<rparr>) (book_of d)"
  using guard_is [OF assms, of n keep] book_of_update_all [of "\<lambda>r. r\<lparr>ur_status := ''disabled''\<rparr>" n d]
  by (auto simp: disable_user_with_def edit_guarded_def case_prod_beta split: option.split)

lemma book_of_delete:
  assumes "names_unique d"
  shows "book_of (snd (delete_user_with n keep d)) =
     edit_guarded n (keep = Keep) (\<lambda>r. r\<lparr>ur_status := ''deleted''\<rparr>) (book_of d)"
proof -
  let ?f = "\<lambda>r. r\<lparr>ur_status := ''deleted''\<rparr>"
  have e: "(\<lambda>r. if ur_status r \<noteq> ''deleted'' then ?f r else r) = ?f"
    by (rule ext) (auto intro!: user_row.equality)
  have "book_of (snd (update_users (\<lambda>r. ur_name r = n \<and> ur_status r \<noteq> ''deleted'') ?f d)) =
      edit_account n (\<lambda>r. if ur_status r \<noteq> ''deleted'' then ?f r else r) (book_of d)"
    by (rule book_of_update) simp_all
  also have "\<dots> = edit_account n ?f (book_of d)" by (simp only: e)
  finally have "book_of (snd (update_users (\<lambda>r. ur_name r = n \<and> ur_status r \<noteq> ''deleted'') ?f d)) =
      edit_account n ?f (book_of d)" .
  then show ?thesis
    using guard_is [OF assms, of n keep]
    by (cases "guard_last_admin n keep d") (auto simp: delete_user_with_def edit_guarded_def case_prod_beta)
qed

lemma book_of_password:
  "book_of (snd (update_user_password h n pw d)) = book_step lower ch (book_of d) (OpPassword h n pw)"
  using book_of_update_all [of "\<lambda>r. r\<lparr>ur_hash := the h\<rparr>" n d]
  by (auto simp: update_user_password_def case_prod_beta Let_def split: option.split)

lemma book_of_approve:
  "book_of (snd (approve_user n d)) = book_step lower ch (book_of d) (OpApprove n)"
  using book_of_update [of "\<lambda>r. r\<lparr>ur_status := ''active''\<rparr>" "\<lambda>r. ur_name r = n \<and> ur_status r = ''pending''" n
      "\<lambda>r. ur_status r = ''pending''" d]
  by (simp add: approve_user_def case_prod_beta)

lemma book_of_restore:
  "book_of (snd (restore_user h n pw role d)) = book_step lower ch (book_of d) (OpRestore h n pw role)"
proof (cases h)
  case (Some x)
  then show ?thesis using book_of_update [of "\<lambda>r. r\<lparr>ur_status := ''active'', ur_hash := x,
        ur_role := (case role of Some x \<Rightarrow> role_as_str x | None \<Rightarrow> ur_role r)\<rparr>"
      "\<lambda>r. ur_name r = n \<and> ur_status r = ''deleted''" n "\<lambda>r. ur_status r = ''deleted''" d]
    by (simp add: restore_user_def case_prod_beta split: option.split)
qed (simp add: restore_user_def split: option.split)

lemma book_of_create:
  "book_of (snd (create_user (ck_text ck) h n pw role st nts d)) = book_step lower ch (book_of d) (OpCreateUser ck h n pw role st nts)"
  by (cases "new_account_hash n pw h") (simp_all add: create_user_def case_prod_beta book_of_insert)

lemma book_of_redeem:
  assumes "invite_rows_ok (invites d)"
  shows "book_of (snd (create_user_with_invite ch ck h n pw code st nts d)) =
     book_step lower ch (book_of d) (OpRedeem ck h n pw code st nts)"
  by (cases "new_account_hash n pw h")
    (simp_all add: create_user_with_invite_def case_prod_beta redeem_in_book [OF assms] split: option.split)

lemma find_filter_unique:
  "distinct (map f rs) \<Longrightarrow> find (\<lambda>r. f r = c) (filter P rs) =
     (case find (\<lambda>r. f r = c) rs of Some r \<Rightarrow> if P r then Some r else None | None \<Rightarrow> None)"
proof (induction rs)
  case (Cons a rs)
  show ?case
  proof (cases "f a = c")
    case True
    with Cons.prems have "find (\<lambda>r. f r = c) (filter P rs) = None"
      by (auto simp: find_None_iff image_iff)
    with True show ?thesis by simp
  qed (use Cons in simp)
qed simp

lemma book_of_cleanup:
  assumes "invite_rows_ok (invites d)"
  shows "book_of (snd (cleanup_expired_invites ch now d)) = book_step lower ch (book_of d) (OpCleanup now)"
  using find_filter_unique [of iv_code "invites d"] assms unfolding book_eq invite_rows_ok_def
  by (simp add: cleanup_expired_invites_def Let_def find_user_def find_invite_def split: option.split)

lemma book_of_delete_invite:
  "book_of (snd (delete_invite code d)) = book_step lower ch (book_of d) (OpDeleteInvite code)"
proof -
  have f: "find (\<lambda>r. iv_code r = c) (filter (\<lambda>r. iv_code r \<noteq> code) rs) = (if c = code then None else find (\<lambda>r. iv_code r = c) rs)"
    for c rs by (induction rs) auto
  show ?thesis unfolding book_eq by (auto simp: delete_invite_def find_user_def find_invite_def f)
qed

lemma step_refines:
  assumes "db_ok d"
  shows "book_of (db_step sha lower ch d x) = book_step lower ch (book_of d) x"
proof -
  have names: "names_unique d" and inv: "invite_rows_ok (invites d)"
    using assms by (auto simp: db_ok_def accounts_ok_def)
  show ?thesis
  proof (cases x)
    case (OpNotes n nts)
    then show ?thesis using book_of_update_all [of "\<lambda>r. r\<lparr>ur_notes := nts\<rparr>" n d] by (simp add: update_user_notes_def)
  next
    case (OpCreateInvite ck draws role expires inviter)
    then show ?thesis by (simp only: book_of_create_invite)
  next
    case (OpUseInvite ck code n)
    then show ?thesis by (simp only: db_step.simps book_of_use [OF inv])
  next
    case (OpRedeem ck h n pw code st nts)
    then show ?thesis by (simp only: db_step.simps book_of_redeem [OF inv])
  next
    case (OpCleanup now)
    then show ?thesis by (simp only: db_step.simps book_of_cleanup [OF inv])
  next
    case (OpPassword h n pw)
    then show ?thesis by (simp only: db_step.simps book_of_password)
  next
    case (OpRestore h n pw role)
    then show ?thesis by (simp only: db_step.simps book_of_restore)
  next
    case (OpApprove n)
    then show ?thesis by (simp only: db_step.simps book_of_approve)
  next
    case (OpDeleteInvite code)
    then show ?thesis by (simp only: db_step.simps book_of_delete_invite)
  next
    case (OpCreateUser ck h n pw role st nts)
    then show ?thesis by (simp only: db_step.simps book_of_create)
  qed (auto simp: book_of_role [OF names] book_of_disable [OF names] book_of_delete [OF names]
        create_auth_token_def resolve_auth_token_def revoke_auth_token_def revoke_user_auth_tokens_def
        prune_expired_auth_tokens_def Let_def intro!: book_of_cong split: option.split)
qed

text \<open>A property of the book that the calls of a run keep holds of the tables after the run.\<close>

lemma run_book:
  assumes "db_ok d" "P (book_of d)" "\<And>b x. P b \<Longrightarrow> x \<in> set xs \<Longrightarrow> P (book_step lower ch b x)"
  shows "P (book_of (db_run sha lower ch d xs))"
  using assms
proof (induction xs arbitrary: d)
  case (Cons x xs)
  have "P (book_of (db_step sha lower ch d x))"
    using Cons.prems by (simp add: step_refines)
  with Cons.IH [of "db_step sha lower ch d x"] Cons.prems db.step_inv show ?case by simp
qed simp

section \<open>Accounts over time\<close>

text \<open>A sample run: an admin is created, then an account that is disabled.\<close>

definition sample_clock :: clock where
  "sample_clock = \<lparr>ck_text = ''2026-10-08 12:00:00'', ck_cutoff = ''2026-09-08 12:00:00'', ck_mono = 0, ck_local = sample_time\<rparr>"

definition sample_ops :: "db_op list" where
  "sample_ops =
     [OpCreateUser sample_clock (Some ''h'') ''root'' ''password123'' Admin Active [],
      OpCreateUser sample_clock (Some ''h'') ''eve'' ''password123'' Registered Disabled []]"

abbreviation sample_run :: "db_op list \<Rightarrow> db" where
  "sample_run \<equiv> db_run (\<lambda>x. x) (\<lambda>x. x) sample_chrono empty_db"

lemma sample_ok: "db_ok (sample_run xs)"
  by (rule db.run_inv [OF empty_ok])

text \<open>
  C9: the users, invites and counters the SQL of every call leaves behind are, looked up by
  name and by code, what the abstract book prescribes: each call changes the entry of its own
  name or code only, a guarded change is refused exactly for the sole active admin, and
  registering with an invite opens the account and marks the invite in one step or does
  neither. It holds along every sequence of calls.
\<close>

theorem accounts_refine_book:
  assumes "db_ok d"
  shows "book_of (db_run sha lower ch d xs) = foldl (book_step lower ch) (book_of d) xs"
  using assms
proof (induction xs arbitrary: d)
  case (Cons x xs)
  then show ?case using db.step_inv [of d sha lower ch x] by (simp add: step_refines)
qed simp

theorem accounts_refine_book_witness:
  "book_of (sample_run sample_ops) = foldl (book_step (\<lambda>x. x) sample_chrono) (book_of empty_db) sample_ops"
  using accounts_refine_book [OF empty_ok] by blast

fun keeps_admin :: "db_op \<Rightarrow> bool" where
  "keeps_admin (OpRole n role keep) \<longleftrightarrow> role = Admin \<or> keep = Keep"
| "keeps_admin (OpDisable n keep) \<longleftrightarrow> keep = Keep"
| "keeps_admin (OpDelete n keep) \<longleftrightarrow> keep = Keep"
| "keeps_admin _ \<longleftrightarrow> True"

definition book_admin :: "book \<Rightarrow> bool" where
  "book_admin b \<longleftrightarrow> (\<exists>n r. bk_acc b n = Some r \<and> active_admin r)"

lemma book_admin_of:
  assumes "names_unique d"
  shows "book_admin (book_of d) \<longleftrightarrow> has_admin d"
proof
  assume "book_admin (book_of d)"
  then obtain n r where "find_user n d = Some r" "active_admin r" by (auto simp: book_admin_def)
  with find_user_name [of n d r] show "has_admin d" by (auto simp: has_admin_def list_ex_iff)
next
  assume "has_admin d"
  then obtain r where "r \<in> set (users d)" "active_admin r" by (auto simp: has_admin_def list_ex_iff)
  with find_user_unique [OF assms] show "book_admin (book_of d)" by (auto simp: book_admin_def)
qed

lemma admin_edit:
  assumes "book_admin b" "\<And>r. active_admin r \<Longrightarrow> active_admin (f r)"
  shows "book_admin (edit_account n f b)"
proof -
  from assms(1) obtain k r where kr: "bk_acc b k = Some r" "active_admin r" unfolding book_admin_def by blast
  then have "bk_acc (edit_account n f b) k = Some (if k = n then f r else r)"
    by (auto simp: edit_account_def on_entry_def)
  with kr assms(2) show ?thesis unfolding book_admin_def by (intro exI [of _ k] exI [of _ "if k = n then f r else r"]) simp
qed

lemma admin_edit_guarded:
  assumes "book_admin b" "g \<or> (\<forall>r. active_admin r \<longrightarrow> active_admin (f r))"
  shows "book_admin (edit_guarded n g f b)"
proof (cases "g \<and> \<not> sole_admin (bk_acc b) n")
  case True
  with assms(1) obtain k r where "bk_acc b k = Some r" "active_admin r" "k \<noteq> n"
    by (auto simp: book_admin_def sole_admin_def)
  then show ?thesis by (auto simp: book_admin_def edit_guarded_def edit_account_def on_entry_def)
qed (use assms admin_edit [of b f n] in \<open>auto simp: edit_guarded_def\<close>)

lemma admin_open:
  assumes "book_admin b" "bk_acc b n = None"
  shows "book_admin (open_account nt n hash role st nts b)"
proof -
  from assms obtain k r where "bk_acc b k = Some r" "active_admin r" unfolding book_admin_def by blast
  moreover from this assms(2) have "k \<noteq> n" by auto
  ultimately show ?thesis unfolding book_admin_def open_account_def by (intro exI [of _ k] exI [of _ r]) simp
qed

lemma admin_inv [simp]: "book_admin (b\<lparr>bk_inv := i\<rparr>) = book_admin b"
  by (simp add: book_admin_def)

lemma admin_acc: "book_admin b \<Longrightarrow> bk_acc c = bk_acc b \<Longrightarrow> book_admin c"
  by (simp add: book_admin_def)

lemma book_step_admin: "book_admin b \<Longrightarrow> keeps_admin x \<Longrightarrow> book_admin (book_step lower ch b x)"
proof (cases x)
  case (OpCreateInvite ck draws role expires inviter)
  then show "book_admin b \<Longrightarrow> keeps_admin x \<Longrightarrow> ?thesis"
    by (auto intro: admin_acc split: option.split sum.split)
next
  case (OpRedeem ck h n pw code st nts)
  then show "book_admin b \<Longrightarrow> keeps_admin x \<Longrightarrow> ?thesis"
    using admin_open [of b n "ck_text ck"] by (auto intro: admin_acc split: option.split sum.split)
qed (auto intro!: admin_edit admin_edit_guarded admin_open intro: admin_acc simp: active_admin_def split: option.split sum.split)

text \<open>
  C10: once the server has an active admin it keeps one, whatever calls are made in whatever
  order, as long as the demotions, disabling and deletions among them ask to keep the last
  admin, as the web admin's do.
\<close>

theorem an_admin_remains:
  assumes "db_ok d" "has_admin d" "list_all keeps_admin xs"
  shows "has_admin (db_run sha lower ch d xs)"
proof -
  have names: "names_unique d" "names_unique (db_run sha lower ch d xs)"
    using assms(1) db.run_inv [OF assms(1), of sha lower ch xs] by (auto simp: db_ok_def accounts_ok_def)
  have "book_admin (book_of (db_run sha lower ch d xs))"
  proof (rule run_book [OF assms(1)])
    show "book_admin (book_of d)" using names(1) assms(2) by (simp add: book_admin_of)
    fix b x assume "book_admin b" "x \<in> set xs"
    then show "book_admin (book_step lower ch b x)" using assms(3) by (auto simp: list_all_iff intro: book_step_admin)
  qed
  with names(2) show ?thesis by (simp add: book_admin_of)
qed

lemma sample_has_admin: "has_admin (sample_run sample_ops)"
  by code_simp

theorem an_admin_remains_witness:
  "has_admin (db_run (\<lambda>x. x) (\<lambda>x. x) sample_chrono (sample_run sample_ops) [OpDelete ''root'' Keep, OpDisable ''root'' Keep])"
  by (rule an_admin_remains [OF sample_ok sample_has_admin]) simp

definition deletes :: "string \<Rightarrow> db_op \<Rightarrow> bool" where
  "deletes n x \<longleftrightarrow> (case x of OpDelete m _ \<Rightarrow> m = n | _ \<Rightarrow> False)"

definition book_disabled :: "string \<Rightarrow> book \<Rightarrow> bool" where
  "book_disabled n b \<longleftrightarrow> (case bk_acc b n of Some r \<Rightarrow> ur_status r = ''disabled'' | None \<Rightarrow> False)"

lemma disabled_edit:
  assumes "book_disabled n b" "m = n \<longrightarrow> (\<forall>r. ur_status r = ''disabled'' \<longrightarrow> ur_status (f r) = ''disabled'')"
  shows "book_disabled n (edit_account m f b)"
  using assms by (auto simp: book_disabled_def edit_account_def on_entry_def split: option.splits)

lemma disabled_edit_guarded:
  assumes "book_disabled n b" "m = n \<longrightarrow> (\<forall>r. ur_status r = ''disabled'' \<longrightarrow> ur_status (f r) = ''disabled'')"
  shows "book_disabled n (edit_guarded m g f b)"
  using assms by (simp add: edit_guarded_def disabled_edit)

lemma disabled_open:
  "book_disabled n b \<Longrightarrow> bk_acc b m = None \<Longrightarrow> book_disabled n (open_account nt m hash role st nts b)"
  by (auto simp: book_disabled_def open_account_def split: option.splits)

lemma disabled_inv [simp]:
  "book_disabled n (b\<lparr>bk_inv := i\<rparr>) = book_disabled n b"
  "book_disabled n (b\<lparr>bk_inv := i, bk_next_invite := j\<rparr>) = book_disabled n b"
  by (simp_all add: book_disabled_def)

lemma book_step_disabled:
  "book_disabled n b \<Longrightarrow> \<not> deletes n x \<Longrightarrow> book_disabled n (book_step lower ch b x)"
  by (cases x)
    (auto simp: deletes_def intro!: disabled_edit disabled_edit_guarded disabled_open split: option.split sum.split)

lemma resolved_token:
  assumes "fst (resolve_auth_token sha now tok d) = Some u"
  shows "\<exists>t s. t \<in> set (tokens d) \<and> tk_hash t = sha tok \<and> now < tk_expires t \<and> find_user (tk_user t) d = Some s \<and>
           ur_status s = ''active'' \<and> raw_into_login s = Some u \<and> us_name u = tk_user t"
proof -
  from assms obtain t s where t: "find (\<lambda>t. tk_hash t = sha tok) (tokens d) = Some t"
    "find_user (tk_user t) d = Some s" "\<not> tk_expires t \<le> now" "ur_status s = ''active''" "raw_into_login s = Some u"
    by (fastforce simp: resolve_auth_token_def Let_def split: if_splits option.splits)
  then have "us_name u = ur_name s"
    by (auto simp: raw_into_login_def raw_into_user_def split: sum.splits option.splits)
  with t find_Some_mem [OF t(1)] find_user_name [OF t(2)] show ?thesis by fastforce
qed

lemma inactive_no_login:
  assumes "find_user n d = Some r" "ur_status r \<noteq> ''active''"
  shows "authenticate_user bv n pw d = None"
    and "fst (resolve_auth_token sha now tok d) = Some u \<Longrightarrow> us_name u \<noteq> n"
  using assms resolved_token [of sha now tok d u] by (auto simp: authenticate_user_def)

text \<open>
  a disabled account stays out for good: after any further calls, in any order, its
  password does not sign in and no token signs in as it. Only deleting the account (from where
  it can be restored with a new password) leads out of that state.
\<close>

theorem disabled_stays_out:
  assumes "db_ok d" "find_user n d = Some r" "ur_status r = ''disabled''" "list_all (\<lambda>x. \<not> deletes n x) xs"
  shows "authenticate_user bv n pw (db_run sha lower ch d xs) = None \<and>
     (\<forall>now tok u. fst (resolve_auth_token sha' now tok (db_run sha lower ch d xs)) = Some u \<longrightarrow> us_name u \<noteq> n)"
proof -
  have "book_disabled n (book_of (db_run sha lower ch d xs))"
  proof (rule run_book [OF assms(1)])
    show "book_disabled n (book_of d)" using assms(2,3) by (simp add: book_disabled_def)
  qed (use assms(4) in \<open>auto simp: list_all_iff intro: book_step_disabled\<close>)
  then obtain s where "find_user n (db_run sha lower ch d xs) = Some s" "ur_status s \<noteq> ''active''"
    by (auto simp: book_disabled_def split: option.splits)
  from inactive_no_login [OF this] show ?thesis by blast
qed

lemma sample_eve:
  "map_option ur_status (find_user ''eve'' (sample_run sample_ops)) = Some ''disabled''"
  by code_simp

theorem disabled_stays_out_witness:
  "authenticate_user (\<lambda>_ _. True) ''eve'' ''password123''
     (db_run (\<lambda>x. x) (\<lambda>x. x) sample_chrono (sample_run sample_ops)
        [OpApprove ''eve'', OpRestore (Some ''h'') ''eve'' ''password123'' (Some Admin)]) = None"
proof -
  from sample_eve obtain r where "find_user ''eve'' (sample_run sample_ops) = Some r" "ur_status r = ''disabled''"
    by auto
  moreover have "list_all (\<lambda>x. \<not> deletes ''eve'' x) [OpApprove ''eve'', OpRestore (Some ''h'') ''eve'' ''password123'' (Some Admin)]"
    by (simp add: deletes_def)
  ultimately show ?thesis using disabled_stays_out [OF sample_ok] by blast
qed

end
