(* ===== verification/Limiter.thy ===== *)
theory Limiter
  imports Rust_Prelude
begin

text \<open>
  \<open>bunko-server/src/http/limiter.rs\<close>: the failed-login limiter. Instants and durations are
  nanoseconds since an arbitrary origin (\<open>duration_since\<close> saturates, as subtraction of
  natural numbers does). The hash map is an association list with distinct keys; nothing
  depends on its order. Each operation holds the mutex, so it is one function on the table;
  \<open>allow_blocking\<close> releases it while it waits, and is given what it finds each time it is
  woken.
\<close>

record limiter =
  max_failures :: nat
  window :: nat
  block :: nat

record entry =
  failures :: "nat list"
  blocked_until :: "nat option"
  pending :: "nat list"

type_synonym limiter_map = "(string \<times> entry) list"

definition second :: nat where
  "second = 1000000000"

definition max_pending :: nat where
  "max_pending = 4"

definition pending_ttl :: nat where
  "pending_ttl = 60 * second"

definition max_keys :: nat where
  "max_keys = 10000"

definition default_limiter :: limiter where
  "default_limiter = \<lparr>max_failures = 10, window = 300 * second, block = 900 * second\<rparr>"

definition empty_entry :: entry where
  "empty_entry = \<lparr>failures = [], blocked_until = None, pending = []\<rparr>"

definition entry_live :: "nat \<Rightarrow> nat \<Rightarrow> entry \<Rightarrow> bool" where
  "entry_live now win e \<longleftrightarrow>
     (case blocked_until e of Some u \<Rightarrow> u > now | None \<Rightarrow> False) \<or>
     (failures e \<noteq> [] \<and> now - last (failures e) \<le> win)"

definition entry_age :: "nat \<Rightarrow> entry \<Rightarrow> nat" where
  "entry_age now e =
     (if failures e \<noteq> [] then last (failures e)
      else (case blocked_until e of Some u \<Rightarrow> u | None \<Rightarrow> now))"

text \<open>Sorting the pairs of age and key: by key, then stably by age.\<close>

definition evict :: "nat \<Rightarrow> nat \<Rightarrow> limiter_map \<Rightarrow> limiter_map" where
  "evict now win m =
     (let m = filter (\<lambda>(k, e). entry_live now win e) m in
      if length m < max_keys then m
      else
        let by_age = sort_key fst (sort_key snd (map (\<lambda>(k, e). (entry_age now e, k)) m));
            gone = map snd (take (max_keys div 10) by_age)
        in filter (\<lambda>(k, e). \<not> List.member gone k) m)"

text \<open>What \<open>check\<close> does with the entry of the key.\<close>

definition check_entry :: "limiter \<Rightarrow> nat \<Rightarrow> entry \<Rightarrow> (nat + bool) \<times> entry" where
  "check_entry lim now e =
     (let blocked = (case blocked_until e of Some u \<Rightarrow> u > now | None \<Rightarrow> False) in
      if blocked then (Inl ((the (blocked_until e) - now) div second + 1), e)
      else
        let e = e\<lparr>blocked_until := None,
                  failures := dropWhile (\<lambda>t. now - t > window lim) (failures e),
                  pending := dropWhile (\<lambda>t. now - t > pending_ttl) (pending e)\<rparr>
        in if length (failures e) \<ge> max_failures lim then
             (Inl (block lim div second), e\<lparr>failures := [], blocked_until := Some (now + block lim)\<rparr>)
           else if length (pending e) \<ge> max_pending then (Inr False, e)
           else (Inr True, e\<lparr>pending := pending e @ [now]\<rparr>))"

definition check :: "limiter \<Rightarrow> string \<Rightarrow> nat \<Rightarrow> limiter_map \<Rightarrow> (nat + bool) \<times> limiter_map" where
  "check lim key now m =
     (let m = (if map_of m key = None \<and> length m \<ge> max_keys then evict now (window lim) m else m);
          e = (case map_of m key of Some e \<Rightarrow> e | None \<Rightarrow> empty_entry);
          (res, e) = check_entry lim now e
      in (res, AList.update key e m))"

definition allow :: "limiter \<Rightarrow> string \<Rightarrow> nat \<Rightarrow> limiter_map \<Rightarrow> (nat + unit) \<times> limiter_map" where
  "allow lim key now m =
     (case check lim key now m of
        (Inr True, m) \<Rightarrow> (Inr (), m)
      | (Inr False, m) \<Rightarrow> (Inl 1, m)
      | (Inl retry, m) \<Rightarrow> (Inl retry, m))"

text \<open>\<open>wakes\<close>: the clock and the table at each wake-up before the deadline.\<close>

fun allow_blocking ::
  "limiter \<Rightarrow> string \<Rightarrow> nat \<Rightarrow> limiter_map \<Rightarrow> (nat \<times> limiter_map) list \<Rightarrow> (nat + unit) \<times> limiter_map" where
  "allow_blocking lim key now m wakes =
     (case check lim key now m of
        (Inr True, m) \<Rightarrow> (Inr (), m)
      | (Inr False, m) \<Rightarrow>
          (case wakes of
             [] \<Rightarrow> (Inl 1, m)
           | (now, m) # wakes \<Rightarrow> allow_blocking lim key now m wakes)
      | (Inl retry, m) \<Rightarrow> (Inl retry, m))"

definition resolve :: "string \<Rightarrow> bool \<Rightarrow> nat \<Rightarrow> limiter_map \<Rightarrow> limiter_map" where
  "resolve key failed now m =
     (case map_of m key of
        None \<Rightarrow> m
      | Some e \<Rightarrow>
          let e = e\<lparr>pending := tl (pending e)\<rparr>;
              e = (if failed then e\<lparr>failures := failures e @ [now]\<rparr>
                   else e\<lparr>failures := [], blocked_until := None\<rparr>)
          in if \<not> failed \<and> pending e = [] then AList.delete key m else AList.update key e m)"

definition record_failure :: "string \<Rightarrow> nat \<Rightarrow> limiter_map \<Rightarrow> limiter_map" where
  "record_failure key now m = resolve key True now m"

definition record_success :: "string \<Rightarrow> limiter_map \<Rightarrow> limiter_map" where
  "record_success key m = resolve key False 0 m"

section \<open>The limiter as a machine\<close>

datatype limiter_op = LCheck string nat | LFail string nat | LOk string

fun limiter_step :: "limiter \<Rightarrow> limiter_map \<Rightarrow> limiter_op \<Rightarrow> limiter_map" where
  "limiter_step lim m (LCheck key now) = snd (check lim key now m)"
| "limiter_step lim m (LFail key now) = record_failure key now m"
| "limiter_step lim m (LOk key) = record_success key m"

definition limiter_inv :: "limiter_map \<Rightarrow> bool" where
  "limiter_inv m \<longleftrightarrow>
     distinct (map fst m) \<and> length m \<le> max_keys \<and>
     (\<forall>(k, e)\<in>set m. length (pending e) \<le> max_pending)"

section \<open>Lemmas\<close>

lemma limiter_inv_filter: "limiter_inv m \<Longrightarrow> limiter_inv (filter P m)"
  by (auto simp: limiter_inv_def distinct_map_filter intro: le_trans [OF length_filter_le])

lemma limiter_inv_delete: "limiter_inv m \<Longrightarrow> limiter_inv (AList.delete key m)"
  by (simp add: AList.delete_eq limiter_inv_filter)

lemma limiter_inv_update:
  assumes "limiter_inv m" and "length (pending e) \<le> max_pending"
    and "map_of m key \<noteq> None \<or> length m < max_keys"
  shows "limiter_inv (AList.update key e m)"
  using assms unfolding limiter_inv_def
  by (auto simp: length_update distinct_update dest!: set_update_cases)

lemma limiter_inv_entry: "limiter_inv m \<Longrightarrow> map_of m key = Some e \<Longrightarrow> length (pending e) \<le> max_pending"
  by (auto simp: limiter_inv_def dest!: map_of_SomeD)

lemma head_in_take: "0 < n \<Longrightarrow> xs \<noteq> [] \<Longrightarrow> hd xs \<in> set (take n xs)"
  by (cases n; cases xs) auto

lemma evict_room:
  assumes "distinct (map fst m)" and "length m \<le> max_keys"
  shows "length (evict now win m) < max_keys"
proof -
  define m1 where "m1 = filter (\<lambda>(k, e). entry_live now win e) m"
  define age where "age = sort_key fst (sort_key snd (map (\<lambda>(k, e). (entry_age now e, k)) m1))"
  define n where "n = max_keys div 10"
  have n: "0 < n" by (simp add: n_def max_keys_def)
  show ?thesis
  proof (cases "length m1 < max_keys")
    case True
    then show ?thesis by (simp add: evict_def Let_def m1_def [symmetric])
  next
    case False
    then have "m1 \<noteq> []" by (auto simp: max_keys_def)
    then have ne: "age \<noteq> []" unfolding age_def by (metis length_0_conv length_map length_sort)
    have "set age = (\<lambda>(k, e). (entry_age now e, k)) ` set m1" by (simp add: age_def)
    with ne have "hd age \<in> (\<lambda>(k, e). (entry_age now e, k)) ` set m1" by (metis hd_in_set)
    then obtain k e where ke: "(k, e) \<in> set m1" "snd (hd age) = k" by auto
    have "snd (hd age) \<in> set (map snd (take n age))"
      using head_in_take [OF n ne] by simp
    then have "length (filter (\<lambda>(k, e). \<not> List.member (map snd (take n age)) k) m1) < length m1"
      using ke by (intro length_filter_less [OF ke(1)]) simp
    also have "length m1 \<le> max_keys"
      using assms(2) unfolding m1_def by (rule le_trans [OF length_filter_le])
    finally show ?thesis
      using False by (simp add: evict_def Let_def m1_def [symmetric] age_def [symmetric] n_def [symmetric])
  qed
qed

lemma limiter_inv_evict: "limiter_inv m \<Longrightarrow> limiter_inv (evict now win m)"
  by (simp add: evict_def Let_def limiter_inv_filter)

lemma length_dropWhile_bound: "length xs \<le> n \<Longrightarrow> length (dropWhile P xs) \<le> n"
  by (rule le_trans [OF length_dropWhile_le])

lemma check_entry_pending:
  "length (pending e) \<le> max_pending \<Longrightarrow> length (pending (snd (check_entry lim now e))) \<le> max_pending"
  by (auto simp: check_entry_def Let_def intro: length_dropWhile_bound le_antisym)

lemma check_inv: "limiter_inv m \<Longrightarrow> limiter_inv (snd (check lim key now m))"
proof -
  assume inv: "limiter_inv m"
  define m' where "m' = (if map_of m key = None \<and> length m \<ge> max_keys then evict now (window lim) m else m)"
  define e where "e = (case map_of m' key of Some e \<Rightarrow> e | None \<Rightarrow> empty_entry)"
  have m': "limiter_inv m'" using inv by (simp add: m'_def limiter_inv_evict)
  have "length (pending e) \<le> max_pending"
    using limiter_inv_entry [OF m'] by (auto simp: e_def empty_entry_def split: option.splits)
  moreover have "map_of m' key \<noteq> None \<or> length m' < max_keys"
    using inv evict_room by (auto simp: m'_def limiter_inv_def)
  ultimately have "limiter_inv (AList.update key (snd (check_entry lim now e)) m')"
    by (intro limiter_inv_update m' check_entry_pending)
  then show ?thesis
    by (auto simp: check_def Let_def m'_def [symmetric] e_def [symmetric] split: prod.splits)
qed

lemma resolve_inv: "limiter_inv m \<Longrightarrow> limiter_inv (resolve key failed now m)"
  by (auto simp: resolve_def Let_def split: option.splits
      intro!: limiter_inv_delete limiter_inv_update dest: limiter_inv_entry)

interpretation lim: machine "limiter_step lim" limiter_inv for lim
proof
  fix m op
  assume "limiter_inv m"
  then show "limiter_inv (limiter_step lim m op)"
    by (cases op) (auto simp: check_inv resolve_inv record_failure_def record_success_def)
qed

text \<open>How many guesses one key may still make before it is blocked.\<close>

definition guess_budget :: "limiter \<Rightarrow> entry \<Rightarrow> bool" where
  "guess_budget lim e \<longleftrightarrow> length (failures e) + length (pending e) \<le> max_failures lim + max_pending - 1"

text \<open>
  A run in which a failure is only reported for a check that is still counted as pending:
  the caller reports back within \<open>PENDING_TTL\<close>.
\<close>

fun timely :: "limiter \<Rightarrow> limiter_map \<Rightarrow> limiter_op list \<Rightarrow> bool" where
  "timely lim m [] = True"
| "timely lim m (op # ops) \<longleftrightarrow>
     (case op of
        LFail key _ \<Rightarrow> (case map_of m key of Some e \<Rightarrow> pending e \<noteq> [] | None \<Rightarrow> True)
      | _ \<Rightarrow> True) \<and> timely lim (limiter_step lim m op) ops"

lemma check_entry_budget:
  assumes "guess_budget lim e" and "0 < max_failures lim"
  shows "guess_budget lim (snd (check_entry lim now e))"
proof -
  note shorter = length_dropWhile_le [of "\<lambda>t. now - t > window lim" "failures e"]
    length_dropWhile_le [of "\<lambda>t. now - t > pending_ttl" "pending e"]
  show ?thesis
    using assms shorter
    by (simp add: check_entry_def Let_def guess_budget_def max_pending_def)
qed

lemma map_of_filter_Some: "distinct (map fst m) \<Longrightarrow> map_of (filter P m) k = Some v \<Longrightarrow> map_of m k = Some v"
  by (induction m) (auto split: if_splits dest: map_of_SomeD simp: rev_image_eqI)

lemma map_of_evict:
  "distinct (map fst m) \<Longrightarrow> map_of (evict now win m) k = Some v \<Longrightarrow> map_of m k = Some v"
  unfolding evict_def Let_def
  by (auto split: if_splits dest!: map_of_filter_Some simp: distinct_map_filter)

definition budgets :: "limiter \<Rightarrow> limiter_map \<Rightarrow> bool" where
  "budgets lim m \<longleftrightarrow> distinct (map fst m) \<and> (\<forall>key e. map_of m key = Some e \<longrightarrow> guess_budget lim e)"

lemma budgets_update:
  "budgets lim m \<Longrightarrow> guess_budget lim e \<Longrightarrow> budgets lim (AList.update key e m)"
  by (auto simp: budgets_def distinct_update AList.update_conv' split: if_splits)

lemma budgets_evict: "budgets lim m \<Longrightarrow> budgets lim (evict now win m)"
  by (auto simp: budgets_def dest: map_of_evict) (simp add: evict_def Let_def distinct_map_filter)

lemma budgets_check:
  assumes "budgets lim m" and "0 < max_failures lim"
  shows "budgets lim (snd (check lim key now m))"
proof -
  define m' where "m' = (if map_of m key = None \<and> length m \<ge> max_keys then evict now (window lim) m else m)"
  define e where "e = (case map_of m' key of Some e \<Rightarrow> e | None \<Rightarrow> empty_entry)"
  have m': "budgets lim m'" using assms(1) by (simp add: m'_def budgets_evict)
  then have "guess_budget lim e"
    by (auto simp: e_def budgets_def guess_budget_def empty_entry_def split: option.splits)
  then have "budgets lim (AList.update key (snd (check_entry lim now e)) m')"
    by (intro budgets_update m' check_entry_budget assms(2))
  then show ?thesis
    by (auto simp: check_def Let_def m'_def [symmetric] e_def [symmetric] split: prod.splits)
qed

lemma budgets_delete: "budgets lim m \<Longrightarrow> budgets lim (AList.delete key m)"
  by (auto simp: budgets_def delete_conv' distinct_delete split: if_splits)

lemma budgets_resolve:
  assumes "budgets lim m"
    and "failed \<Longrightarrow> (case map_of m key of Some e \<Rightarrow> pending e \<noteq> [] | None \<Rightarrow> True)"
  shows "budgets lim (resolve key failed now m)"
proof (cases "map_of m key")
  case (Some e)
  with assms have e: "guess_budget lim e" and "failed \<Longrightarrow> pending e \<noteq> []"
    by (auto simp: budgets_def)
  then show ?thesis
    using assms(1) Some
    by (cases "pending e") (auto simp: resolve_def Let_def guess_budget_def intro!: budgets_delete budgets_update)
qed (simp add: resolve_def assms(1))

lemma budgets_run:
  "timely lim m ops \<Longrightarrow> budgets lim m \<Longrightarrow> 0 < max_failures lim \<Longrightarrow> budgets lim (foldl (limiter_step lim) m ops)"
proof (induction ops arbitrary: m)
  case (Cons op ops)
  have "budgets lim (limiter_step lim m op)"
    using Cons.prems
    by (cases op) (auto simp: record_failure_def record_success_def intro!: budgets_check budgets_resolve)
  with Cons show ?case by simp
qed simp

text \<open>A key that is blocked until \<open>u\<close> stays blocked.\<close>

definition blocked_key :: "string \<Rightarrow> nat \<Rightarrow> limiter_map \<Rightarrow> bool" where
  "blocked_key key u m \<longleftrightarrow> (\<exists>e. map_of m key = Some e \<and> blocked_until e = Some u)"

fun op_before :: "string \<Rightarrow> nat \<Rightarrow> limiter_op \<Rightarrow> bool" where
  "op_before key u (LCheck k t) \<longleftrightarrow> t < u"
| "op_before key u (LFail k t) \<longleftrightarrow> True"
| "op_before key u (LOk k) \<longleftrightarrow> k \<noteq> key"

lemma check_entry_blocked:
  "blocked_until e = Some u \<Longrightarrow> t < u \<Longrightarrow> check_entry lim t e = (Inl ((u - t) div second + 1), e)"
  by (simp add: check_entry_def)

lemma check_blocked:
  assumes "blocked_key key u m" and "t < u"
  shows "fst (check lim key t m) = Inl ((u - t) div second + 1)"
  using assms by (auto simp: blocked_key_def check_def Let_def check_entry_blocked)

lemma check_keeps_block:
  "blocked_key key u m \<Longrightarrow> t < u \<Longrightarrow> blocked_key key u (snd (check lim key t m))"
  by (auto simp: blocked_key_def check_def Let_def AList.update_conv' check_entry_blocked)

text \<open>
  No key is evicted while the table has room: as long as the keys in it and the keys checked are
  at most \<^const>\<open>max_keys\<close>, however often each is.
\<close>

fun checked_key :: "limiter_op \<Rightarrow> string set" where
  "checked_key (LCheck k t) = {k}"
| "checked_key (LFail k t) = {}"
| "checked_key (LOk k) = {}"

definition roomy :: "string set \<Rightarrow> limiter_map \<Rightarrow> bool" where
  "roomy K m \<longleftrightarrow> finite K \<and> card K \<le> max_keys \<and> distinct (map fst m) \<and> fst ` set m \<subseteq> K"

lemma roomy_no_evict:
  assumes "roomy K m" "k \<in> K" "map_of m k = None"
  shows "length m < max_keys"
proof -
  have K: "finite K" "card K \<le> max_keys" using assms(1) by (simp_all add: roomy_def)
  have "fst ` set m \<subset> K" using assms by (auto simp: roomy_def map_of_eq_None_iff)
  from psubset_card_mono [OF K(1) this] K(2) have "card (fst ` set m) < max_keys" by simp
  moreover have "card (fst ` set m) = length m"
    using assms(1) distinct_card [of "map fst m"] by (simp add: roomy_def)
  ultimately show ?thesis by simp
qed

lemma roomy_update: "roomy K m \<Longrightarrow> k \<in> K \<Longrightarrow> roomy K (AList.update k e m)"
  by (auto simp: roomy_def distinct_update dest!: set_update_cases)

lemma roomy_delete: "roomy K m \<Longrightarrow> roomy K (AList.delete k m)"
  by (auto simp: roomy_def AList.delete_eq distinct_map_filter)

lemma blocked_key_step:
  assumes "blocked_key key u m" and "op_before key u op" and "roomy K m" and "checked_key op \<subseteq> K"
  shows "blocked_key key u (limiter_step lim m op) \<and> roomy K (limiter_step lim m op)"
proof (cases op)
  case (LCheck k t)
  with assms have m: "(if map_of m k = None \<and> length m \<ge> max_keys then evict t (window lim) m else m) = m"
    using roomy_no_evict [of K m k] by auto
  show ?thesis
  proof (cases "k = key")
    case True
    with LCheck assms m roomy_update [OF assms(3)] show ?thesis
      by (auto simp: blocked_key_def check_def Let_def AList.update_conv' check_entry_blocked split: prod.splits)
  next
    case False
    with LCheck assms m roomy_update [OF assms(3)] show ?thesis
      by (auto simp: blocked_key_def check_def Let_def AList.update_conv' split: prod.splits)
  qed
next
  case (LFail k t)
  have "map_of m k \<noteq> None \<Longrightarrow> k \<in> K" using assms(3) by (auto simp: roomy_def dest: map_of_SomeD)
  with LFail assms roomy_update [OF assms(3)] show ?thesis
    by (cases "k = key")
      (auto simp: blocked_key_def record_failure_def resolve_def Let_def AList.update_conv' split: option.splits)
next
  case (LOk k)
  have "map_of m k \<noteq> None \<Longrightarrow> k \<in> K" using assms(3) by (auto simp: roomy_def dest: map_of_SomeD)
  with LOk assms roomy_update [OF assms(3)] roomy_delete [OF assms(3)] show ?thesis
    by (auto simp: blocked_key_def record_success_def resolve_def Let_def AList.update_conv' delete_conv'
        split: option.splits)
qed

lemma blocked_key_run:
  "blocked_key key u m \<Longrightarrow> list_all (op_before key u) ops \<Longrightarrow> roomy K m \<Longrightarrow> \<Union> (checked_key ` set ops) \<subseteq> K \<Longrightarrow>
     blocked_key key u (foldl (limiter_step lim) m ops)"
proof (induction ops arbitrary: m)
  case (Cons op ops)
  from blocked_key_step [OF Cons.prems(1) _ Cons.prems(3), of op lim] Cons.prems(2,4) Cons.IH show ?case by simp
qed simp

lemma recent_survive: "length (filter (\<lambda>t. \<not> P t) xs) \<le> length (dropWhile P xs)"
  by (induction xs) auto

section \<open>Properties\<close>

text \<open>
  The table of the limiter stays bounded whatever the attempts: after any sequence of
  checks, failures and successes, in any order and for any keys, there are at most
  \<^const>\<open>max_keys\<close> keys, each once, and no key has more than \<^const>\<open>max_pending\<close> checks in
  flight.
\<close>

theorem limiter_bounded:
  "limiter_inv (foldl (limiter_step lim) [] ops)"
  by (rule lim.run_inv) (simp add: limiter_inv_def)

text \<open>
  No key gets more guesses than the limit and the checks in flight allow: as long as
  every failure is reported while its check still counts as pending, the failures and
  pending checks recorded for a key never exceed \<open>max_failures + MAX_PENDING - 1\<close> (13 with
  the defaults), however many requests run in parallel.
\<close>

theorem limiter_guess_bound:
  assumes "timely lim [] ops" and "0 < max_failures lim"
    and "map_of (foldl (limiter_step lim) [] ops) key = Some e"
  shows "length (failures e) + length (pending e) \<le> max_failures lim + max_pending - 1"
  using budgets_run [OF assms(1) _ assms(2)] assms(3)
  by (auto simp: budgets_def guess_budget_def)

theorem limiter_guess_bound_witness:
  "\<exists>e. map_of (foldl (limiter_step default_limiter) []
          [LCheck ''k'' 0, LCheck ''k'' 5, LFail ''k'' 7]) ''k'' = Some e \<and>
       length (failures e) + length (pending e) \<le> 13"
proof -
  have t: "timely default_limiter [] [LCheck ''k'' 0, LCheck ''k'' 5, LFail ''k'' 7]"
    by (simp add: check_def check_entry_def Let_def empty_entry_def default_limiter_def second_def
        pending_ttl_def max_pending_def max_keys_def)
  have e: "map_of (foldl (limiter_step default_limiter) [] [LCheck ''k'' 0, LCheck ''k'' 5, LFail ''k'' 7]) ''k'' =
      Some \<lparr>failures = [7], blocked_until = None, pending = [5]\<rparr>"
    by (simp add: check_def check_entry_def Let_def empty_entry_def default_limiter_def second_def
        pending_ttl_def max_pending_def max_keys_def record_failure_def resolve_def)
  have "0 < max_failures default_limiter" by (simp add: default_limiter_def)
  from limiter_guess_bound [OF t this e] e show ?thesis
    by (simp add: default_limiter_def max_pending_def)
qed

text \<open>
  C37: Once a key has \<open>max_failures\<close> failures within the window, its next check is refused and
  so is every check of it until the block has passed, whatever is checked and reported in between
  except a success of that very key, as long as no more than \<^const>\<open>max_keys\<close> different keys are in
  the table or checked: beyond that the table drops its oldest keys, blocked or not.
\<close>

theorem limiter_blocks:
  assumes "limiter_inv m" "map_of m key = Some e" and "blocked_until e = None"
    and "max_failures lim \<le> length (filter (\<lambda>t. now - t \<le> window lim) (failures e))"
    and "check lim key now m = (r, m')"
    and "list_all (op_before key (now + block lim)) ops"
    and "card (fst ` set m' \<union> \<Union> (checked_key ` set ops)) \<le> max_keys"
    and "t < now + block lim"
  shows "r = Inl (block lim div second) \<and>
         fst (check lim key t (foldl (limiter_step lim) m' ops)) = Inl ((now + block lim - t) div second + 1)"
proof -
  have "max_failures lim \<le> length (dropWhile (\<lambda>t. now - t > window lim) (failures e))"
    using assms(4) recent_survive [of "\<lambda>t. now - t > window lim" "failures e"] by (simp add: not_less)
  then have "\<exists>e'. check_entry lim now e = (Inl (block lim div second), e') \<and>
      blocked_until e' = Some (now + block lim)"
    using assms(3) by (simp add: check_entry_def Let_def)
  with assms(2,5) have r: "r = Inl (block lim div second)" and b: "blocked_key key (now + block lim) m'"
    by (auto simp: check_def Let_def blocked_key_def AList.update_conv')
  have "limiter_inv m'" using check_inv [OF assms(1), of lim key now] assms(5) by simp
  moreover have "finite (checked_key op)" for op by (cases op) auto
  ultimately have "roomy (fst ` set m' \<union> \<Union> (checked_key ` set ops)) m'"
    using assms(7) by (auto simp: roomy_def limiter_inv_def)
  from check_blocked [OF blocked_key_run [OF b assms(6) this] assms(8)] r show ?thesis by auto
qed

theorem limiter_blocks_witness:
  "fst (check default_limiter ''k'' (899 * second)
     (foldl (limiter_step default_limiter) [(''k'', \<lparr>failures = [], blocked_until = Some (900 * second), pending = []\<rparr>)]
        [LCheck ''x'' 5, LFail ''x'' 6, LCheck ''k'' 7, LFail ''k'' 8, LOk ''x''])) = Inl 2"
proof -
  let ?e = "\<lparr>failures = [0, 0, 0, 0, 0, 0, 0, 0, 0, 0], blocked_until = None, pending = []\<rparr>"
  let ?m' = "[(''k'', \<lparr>failures = [], blocked_until = Some (900 * second), pending = []\<rparr>)]"
  let ?ops = "[LCheck ''x'' 5, LFail ''x'' 6, LCheck ''k'' 7, LFail ''k'' 8, LOk ''x'']"
  have c: "check default_limiter ''k'' 0 [(''k'', ?e)] = (Inl 900, ?m')"
    by (simp add: check_def check_entry_def Let_def default_limiter_def second_def max_keys_def)
  have t: "899 * second < 0 + block default_limiter" by (simp add: default_limiter_def second_def)
  have i: "limiter_inv [(''k'', ?e)]" by (simp add: limiter_inv_def max_keys_def)
  have "list_all (op_before ''k'' (0 + block default_limiter)) ?ops" by (simp add: default_limiter_def second_def)
  from limiter_blocks [OF i _ _ _ c this _ t] show ?thesis
    by (simp add: default_limiter_def second_def max_keys_def insert_commute card_insert_if del: foldl.simps limiter_step.simps)
qed

end
