(* ===== verification/Auth.thy ===== *)
theory Auth
  imports Roles Auth_Paths Limiter
begin

text \<open>
  \<open>bunko-server/src/auth/mod.rs\<close>: who a request is from (\<open>authenticate\<close>) and whether it
  may go on (\<open>authorize\<close>, the decision table). The database side, \<open>AuthBackend\<close>, is a
  record of functions; \<open>b64_decode\<close> is the \<open>base64\<close> crate's standard decoder, \<open>pct_decode\<close>
  the percent decoder. The \<open>Authorization\<close> header is its text when it is visible ASCII.
\<close>

record auth_user =
  user_id :: int
  user_name :: string
  user_role :: role

record identity =
  id_user :: "auth_user option"
  id_error :: "string option"
  id_attempted :: "string option"
  id_bearer_failed :: bool
  id_owns_root :: bool

definition no_identity :: identity where
  "no_identity = \<lparr>id_user = None, id_error = None, id_attempted = None,
     id_bearer_failed = False, id_owns_root = False\<rparr>"

definition id_role :: "identity \<Rightarrow> role" where
  "id_role i = (case id_user i of Some u \<Rightarrow> user_role u | None \<Rightarrow> Anonymous)"

definition id_username :: "identity \<Rightarrow> string option" where
  "id_username i = map_option user_name (id_user i)"

definition authenticated :: "identity \<Rightarrow> bool" where
  "authenticated i \<longleftrightarrow> id_user i \<noteq> None"

definition id_caller :: "identity \<Rightarrow> caller option" where
  "id_caller i =
     map_option (\<lambda>u. \<lparr>caller_username = u, owns_cloud_root = id_owns_root i\<rparr>) (id_username i)"

record auth_backend =
  resolve_token :: "string \<Rightarrow> auth_user option"
  check_password :: "string \<Rightarrow> string \<Rightarrow> auth_user option"
  cached_login :: "string \<Rightarrow> string \<Rightarrow> auth_user option"
  can_user_delete :: "string \<Rightarrow> string \<Rightarrow> bool"
  can_user_edit_series :: "string \<Rightarrow> string \<Rightarrow> bool"
  physical_exists :: "string \<Rightarrow> caller option \<Rightarrow> bool"

section \<open>Authentication\<close>

datatype basic = NoBasic | MalformedBasic | Basic string string

definition parse_basic :: "(string \<Rightarrow> string option) \<Rightarrow> string \<Rightarrow> basic" where
  "parse_basic b64_decode hdr =
     (case strip_prefix ''Basic '' hdr of
        None \<Rightarrow> NoBasic
      | Some b64 \<Rightarrow>
          (case b64_decode (trim b64) of
             None \<Rightarrow> MalformedBasic
           | Some raw \<Rightarrow>
               if \<not> utf8_valid raw then MalformedBasic
               else
                 (case split_once_c CHR '':'' raw of
                    None \<Rightarrow> MalformedBasic
                  | Some (u, p) \<Rightarrow> Basic u p)))"

definition logged_in :: "auth_user \<Rightarrow> identity" where
  "logged_in u = no_identity\<lparr>id_user := Some u\<rparr>"

definition malformed_identity :: identity where
  "malformed_identity = no_identity\<lparr>id_error := Some ''Invalid authorization header''\<rparr>"

definition authenticate_without_io ::
  "(string \<Rightarrow> string option) \<Rightarrow> string option \<Rightarrow> auth_backend \<Rightarrow> identity option" where
  "authenticate_without_io b64_decode hdr backend =
     (case hdr of
        None \<Rightarrow> Some no_identity
      | Some value \<Rightarrow>
          if starts_with value ''Bearer '' then None
          else
            (case parse_basic b64_decode value of
               NoBasic \<Rightarrow> Some no_identity
             | MalformedBasic \<Rightarrow> Some malformed_identity
             | Basic u p \<Rightarrow> map_option logged_in (cached_login backend u p)))"

text \<open>
  \<open>now\<close> and \<open>wakes\<close> are what \<open>allow_blocking\<close> sees; \<open>after\<close> is the limiter's table and the
  clock when the password check is over, as a function of the table when it began: other
  requests run meanwhile.
\<close>

definition authenticate ::
  "(string \<Rightarrow> string option) \<Rightarrow> string option \<Rightarrow> string \<Rightarrow> auth_backend \<Rightarrow> limiter \<Rightarrow>
   nat \<Rightarrow> (nat \<times> limiter_map) list \<Rightarrow> (limiter_map \<Rightarrow> nat \<times> limiter_map) \<Rightarrow> limiter_map \<Rightarrow>
   identity \<times> limiter_map" where
  "authenticate b64_decode hdr client_ip backend lim now wakes after m =
     (case hdr of
        None \<Rightarrow> (no_identity, m)
      | Some value \<Rightarrow>
          (case strip_prefix ''Bearer '' value of
             Some tok \<Rightarrow>
               (case resolve_token backend (trim tok) of
                  Some u \<Rightarrow> (logged_in u, m)
                | None \<Rightarrow>
                    (no_identity\<lparr>id_error := Some ''Invalid or expired token'', id_bearer_failed := True\<rparr>, m))
           | None \<Rightarrow>
               (case parse_basic b64_decode value of
                  NoBasic \<Rightarrow> (no_identity, m)
                | MalformedBasic \<Rightarrow> (malformed_identity, m)
                | Basic u p \<Rightarrow>
                    (case cached_login backend u p of
                       Some user \<Rightarrow> (logged_in user, m)
                     | None \<Rightarrow>
                         let key = client_ip @ '':'' @ u in
                         (case allow_blocking lim key now m wakes of
                            (Inl retry, m) \<Rightarrow>
                              (no_identity
                                 \<lparr>id_error := Some (''Too many failed attempts. Retry in '' @ show_nat retry @ ''s''),
                                  id_attempted := Some u\<rparr>, m)
                          | (Inr _, m) \<Rightarrow>
                              let (later, m) = after m in
                              (case check_password backend u p of
                                 Some user \<Rightarrow> (logged_in user, record_success key m)
                               | None \<Rightarrow>
                                   (no_identity\<lparr>id_error := Some ''Invalid credentials'', id_attempted := Some u\<rparr>,
                                    record_failure key later m)))))))"

section \<open>Authorisation\<close>

record denied =
  d_status :: nat
  d_message :: string
  d_bearer :: bool

definition deny :: "nat \<Rightarrow> string \<Rightarrow> denied + unit" where
  "deny st msg = Inl \<lparr>d_status = st, d_message = msg, d_bearer = False\<rparr>"

record anonymous_access =
  browse :: bool
  download :: bool

definition need :: "identity \<Rightarrow> perm \<Rightarrow> string \<Rightarrow> denied + unit" where
  "need i p forbidden =
     (if has_perm (id_role i) p then Inr ()
      else if \<not> authenticated i then deny 401 ''Authentication required''
      else deny 403 forbidden)"

definition compiled_denied :: "identity \<Rightarrow> denied + unit" where
  "compiled_denied i =
     (if authenticated i then deny 403 ''Permission denied: this file is compiled by the server''
      else deny 401 ''Authentication required'')"

definition progress_write :: "identity \<Rightarrow> denied + unit" where
  "progress_write i =
     (if \<not> authenticated i then deny 401 ''Authentication required to save progress''
      else if \<not> has_perm (id_role i) WriteProgress then deny 403 ''Permission denied: cannot save progress''
      else if id_username i \<noteq> None then Inr ()
      else deny 403 (''Cannot write to other users'' @ CHR 0x27 # '' progress''))"

definition uploader_and :: "identity \<Rightarrow> (string \<Rightarrow> bool) \<Rightarrow> bool" where
  "uploader_and i P \<longleftrightarrow>
     id_role i = Uploader \<and> (case id_username i of Some u \<Rightarrow> P u | None \<Rightarrow> False)"

definition authorize_put :: "string \<Rightarrow> identity \<Rightarrow> auth_backend \<Rightarrow> denied + unit" where
  "authorize_put path i backend =
     (if is_progress_path path then progress_write i
      else
        (case series_title_from_series_file_path path of
           Some series \<Rightarrow>
             if \<not> authenticated i then deny 401 ''Authentication required''
             else if has_perm (id_role i) ModifyDelete then Inr ()
             else if uploader_and i (\<lambda>u. can_user_edit_series backend u series) then Inr ()
             else deny 403 ''Permission denied: cannot submit metadata updates for this series''
         | None \<Rightarrow>
             if is_compiled_metadata_path path then compiled_denied i
             else if is_library_path path then
               (case need i AddFiles ''Permission denied: cannot add files'' of
                  Inl d \<Rightarrow> Inl d
                | Inr _ \<Rightarrow>
                    if \<not> has_perm (id_role i) ModifyDelete \<and> physical_exists backend path (id_caller i) \<and>
                       \<not> (case id_username i of Some u \<Rightarrow> can_user_delete backend u path | None \<Rightarrow> False)
                    then deny 403 ''Permission denied: cannot replace a file another account uploaded''
                    else Inr ())
             else deny 403 ''Permission denied: unsupported target path''))"

definition rearranges :: "string list" where
  "rearranges = [''DELETE'', ''MOVE'', ''COPY'', ''PROPPATCH'', ''MKCOL'', ''LOCK'', ''UNLOCK'']"

definition authorize ::
  "(string \<Rightarrow> string) \<Rightarrow> string \<Rightarrow> string \<Rightarrow> string option \<Rightarrow> identity \<Rightarrow> anonymous_access \<Rightarrow> auth_backend \<Rightarrow>
   denied + unit" where
  "authorize pct_decode m path destination i anon backend =
     (let dest = Option.bind destination (destination_path pct_decode) in
      if m = ''OPTIONS'' then Inr ()
      else if id_error i \<noteq> None \<and> \<not> authenticated i then
        Inl \<lparr>d_status = (if contains_str (the (id_error i)) ''Too many failed attempts'' then 429 else 401),
             d_message = the (id_error i), d_bearer = id_bearer_failed i\<rparr>
      else if is_processor_path path then need i Process ''Processor access required''
      else if is_admin_path path then
        (if (m = ''GET'' \<or> m = ''HEAD'') \<and> \<not> contains_str path ''/api/'' then Inr ()
         else if is_invites_admin_api_path path then
           need i ManageInvites ''Invite management access required''
         else need i PermAdmin ''Admin access required'')
      else if m \<in> set rearranges \<and> is_compiled_metadata_path path then compiled_denied i
      else if (m = ''MOVE'' \<or> m = ''COPY'') \<and>
              (case dest of Some d \<Rightarrow> is_compiled_metadata_path d | None \<Rightarrow> False) then compiled_denied i
      else if m \<in> {''MOVE'', ''COPY'', ''LOCK'', ''UNLOCK'', ''PROPPATCH''} \<and>
              (is_history_path path \<or> (case dest of Some d \<Rightarrow> is_history_path d | None \<Rightarrow> False)) then
        (if \<not> authenticated i then deny 401 ''Authentication required''
         else deny 403 ''Permission denied: not supported for reading history'')
      else if m = ''GET'' \<or> m = ''HEAD'' \<or> m = ''PROPFIND'' then
        (if authenticated i then Inr ()
         else
           let refuse =
             (if m = ''PROPFIND'' then \<not> browse anon
              else if is_library_path path then \<not> download anon
              else \<not> browse anon \<and> (path = ''/'' \<or> path = ''/mokuro-reader''))
           in if refuse then deny 401 ''Authentication required'' else Inr ())
      else if m = ''PUT'' then authorize_put path i backend
      else if m = ''MKCOL'' then
        (if is_progress_path path then progress_write i
         else if is_library_path path then need i AddFiles ''Permission denied: cannot create directories''
         else deny 403 ''Permission denied: unsupported target path'')
      else if m = ''DELETE'' then
        (if is_progress_path path then progress_write i
         else if is_library_path path \<and> uploader_and i (\<lambda>u. can_user_delete backend u path) then Inr ()
         else need i ModifyDelete ''Permission denied: cannot modify or delete files'')
      else if m = ''MOVE'' \<or> m = ''COPY'' then
        (if is_progress_path path then progress_write i
         else need i ModifyDelete ''Permission denied: cannot modify or delete files'')
      else if m = ''LOCK'' \<or> m = ''UNLOCK'' then
        (if is_progress_path path then progress_write i else need i ModifyDelete ''Permission denied'')
      else if m = ''PROPPATCH'' then need i ModifyDelete ''Permission denied''
      else Inr ())"

section \<open>Lemmas\<close>

lemma need_ok [simp]: "need i p msg = Inr () \<longleftrightarrow> has_perm (id_role i) p"
  by (simp add: need_def deny_def)

lemma need_refused: "need i p msg = Inl d \<Longrightarrow> \<not> has_perm (id_role i) p"
  by (auto simp: need_def)

lemma deny_not_ok [simp]: "deny st msg \<noteq> Inr r"
  by (simp add: deny_def)

lemma compiled_denied_not_ok [simp]: "compiled_denied i \<noteq> Inr r"
  by (simp add: compiled_denied_def)

lemma progress_write_ok [simp]:
  "progress_write i = Inr () \<longleftrightarrow> authenticated i \<and> has_perm (id_role i) WriteProgress"
  by (auto simp: progress_write_def id_username_def authenticated_def)

lemma if_neqI: "(c \<Longrightarrow> x \<noteq> z) \<Longrightarrow> (\<not> c \<Longrightarrow> y \<noteq> z) \<Longrightarrow> (if c then x else y) \<noteq> z"
  by simp

lemma role_authenticated: "id_role i \<noteq> Anonymous \<Longrightarrow> authenticated i"
  by (auto simp: id_role_def authenticated_def split: option.splits)

lemma perm_authenticated: "p \<noteq> Read \<Longrightarrow> has_perm (id_role i) p \<Longrightarrow> authenticated i"
  by (rule role_authenticated) (cases p; auto)

lemma series_compiled: "series_title_from_series_file_path path = Some s \<Longrightarrow> is_compiled_metadata_path path"
  by (simp add: is_compiled_metadata_path_def is_series_file_path_def)

lemmas method_simps = rearranges_def Let_def

definition modify_rights :: "identity \<Rightarrow> auth_backend \<Rightarrow> string \<Rightarrow> bool" where
  "modify_rights i backend path \<longleftrightarrow>
     has_perm (id_role i) ModifyDelete \<or>
     (is_library_path path \<and> uploader_and i (\<lambda>u. can_user_delete backend u path))"

lemma authorize_put_ok:
  "authorize_put path i backend = Inr () \<longleftrightarrow>
     (if is_progress_path path then authenticated i \<and> has_perm (id_role i) WriteProgress
      else
        (case series_title_from_series_file_path path of
           Some series \<Rightarrow>
             authenticated i \<and>
             (has_perm (id_role i) ModifyDelete \<or> uploader_and i (\<lambda>u. can_user_edit_series backend u series))
         | None \<Rightarrow>
             \<not> is_compiled_metadata_path path \<and> is_library_path path \<and> has_perm (id_role i) AddFiles \<and>
             (has_perm (id_role i) ModifyDelete \<or> \<not> physical_exists backend path (id_caller i) \<or>
              (\<exists>u. id_username i = Some u \<and> can_user_delete backend u path))))"
  by (auto simp: authorize_put_def dest: need_refused simp del: has_perm.simps split: option.splits sum.splits)

section \<open>Properties\<close>

text \<open>
  C4: What an accepted write needs. For a path outside the admin and processor areas, a
  PUT, MKCOL, DELETE, MOVE, COPY, LOCK, UNLOCK or PROPPATCH is only let through for an
  authenticated account, and: in the account's own tree its role may save progress; a PUT
  elsewhere is to a library path, by a role that may add files, and replaces an existing
  file only when the role may modify files or the account uploaded it (a series file
  instead needs the right to modify or the ownership of the whole series); a DELETE
  elsewhere needs the right to modify, or an uploader's own upload; every other change
  needs the right to modify, MKCOL the right to add.
\<close>

theorem writes_authorized:
  assumes "authorize pct_decode m path destination i anon backend = Inr ()"
    and "m \<in> {''PUT'', ''MKCOL'', ''DELETE'', ''MOVE'', ''COPY'', ''LOCK'', ''UNLOCK'', ''PROPPATCH''}"
    and "\<not> is_processor_path path" and "\<not> is_admin_path path"
  shows "authenticated i \<and>
    (if is_progress_path path \<and> m \<noteq> ''PROPPATCH'' then has_perm (id_role i) WriteProgress
     else if m = ''PUT'' then
       (case series_title_from_series_file_path path of
          Some s \<Rightarrow>
            has_perm (id_role i) ModifyDelete \<or> uploader_and i (\<lambda>u. can_user_edit_series backend u s)
        | None \<Rightarrow>
            is_library_path path \<and> has_perm (id_role i) AddFiles \<and>
            (physical_exists backend path (id_caller i) \<longrightarrow>
               has_perm (id_role i) ModifyDelete \<or>
               (\<exists>u. id_username i = Some u \<and> can_user_delete backend u path)))
     else if m = ''MKCOL'' then is_library_path path \<and> has_perm (id_role i) AddFiles
     else if m = ''DELETE'' then modify_rights i backend path
     else has_perm (id_role i) ModifyDelete)"
proof -
  have auth: "has_perm (id_role i) AddFiles \<Longrightarrow> authenticated i" "has_perm (id_role i) ModifyDelete \<Longrightarrow> authenticated i"
    "uploader_and i P \<Longrightarrow> authenticated i" for P
    using perm_authenticated role_authenticated by (auto simp: uploader_and_def)
  show ?thesis
    using assms auth
    by (auto simp: authorize_def method_simps authorize_put_ok modify_rights_def
        simp del: has_perm.simps split: if_splits option.splits)
qed

definition demo_backend :: auth_backend where
  "demo_backend =
     \<lparr>resolve_token = (\<lambda>t. None),
      check_password = (\<lambda>u p. if p = ''pw'' then Some \<lparr>user_id = 1, user_name = u, user_role = Uploader\<rparr> else None),
      cached_login = (\<lambda>u p. None),
      can_user_delete = (\<lambda>u path. u = ''al''),
      can_user_edit_series = (\<lambda>u s. False),
      physical_exists = (\<lambda>path c. True)\<rparr>"

definition demo_identity :: identity where
  "demo_identity = logged_in \<lparr>user_id = 1, user_name = ''al'', user_role = Uploader\<rparr>"

theorem writes_authorized_witness:
  "modify_rights demo_identity demo_backend ''/mokuro-reader/S/v.cbz''"
proof -
  have "authorize id ''DELETE'' ''/mokuro-reader/S/v.cbz'' None demo_identity \<lparr>browse = True, download = True\<rparr>
      demo_backend = Inr ()" by code_simp
  moreover have "\<not> is_processor_path ''/mokuro-reader/S/v.cbz''" "\<not> is_admin_path ''/mokuro-reader/S/v.cbz''"
      "\<not> is_progress_path ''/mokuro-reader/S/v.cbz''" by code_simp+
  ultimately show ?thesis
    using writes_authorized [of id "''DELETE''" "''/mokuro-reader/S/v.cbz''" None demo_identity
        "\<lparr>browse = True, download = True\<rparr>" demo_backend] by simp
qed

text \<open>
  C32: Nobody, whatever the role, can delete, move, copy, lock or re-label a file the server
  compiles, nor put one in its place by MOVE or COPY, nor PUT the catalogue; and nobody can
  move, copy, lock or re-label anything in the reading history or move anything into it. The
  destination is the one the authorisation reads from the header.
\<close>

theorem protected_paths_refused:
  assumes "\<not> is_processor_path path" and "\<not> is_admin_path path"
    and "(m \<in> set rearranges \<and> is_compiled_metadata_path path) \<or>
         (m = ''PUT'' \<and> is_catalog_file_path path \<and> \<not> is_progress_path path) \<or>
         (m \<in> {''MOVE'', ''COPY'', ''LOCK'', ''UNLOCK'', ''PROPPATCH''} \<and> is_history_path path) \<or>
         (m \<in> {''MOVE'', ''COPY''} \<and> destination = Some h \<and> destination_path pct_decode h = Some dest \<and>
          (is_compiled_metadata_path dest \<or> is_history_path dest))"
  shows "\<exists>d. authorize pct_decode m path destination i anon backend = Inl d"
proof -
  have catalog: "series_title_from_series_file_path path = None \<and> is_compiled_metadata_path path"
    if "is_catalog_file_path path"
  proof -
    from that obtain r where r: "library_relative_normalized path = Some r" "eq_ignore_ascii_case r ''catalog.json''"
      by (auto simp: is_catalog_file_path_def split: option.splits)
    have "CHR ''/'' \<notin> set r"
    proof
      assume "CHR ''/'' \<in> set r"
      then have "ascii_lower CHR ''/'' \<in> set (to_ascii_lower r)" by (auto simp: to_ascii_lower_def)
      then have "ascii_lower CHR ''/'' \<in> set (to_ascii_lower ''catalog.json'')"
        using r(2) by (simp add: eq_ignore_ascii_case_def)
      moreover have "ascii_lower CHR ''/'' \<notin> set (to_ascii_lower ''catalog.json'')" by code_simp
      ultimately show False by blast
    qed
    then have "rsplit_once_c CHR ''/'' r = None" by (simp add: rsplit_once_c_None_iff)
    with that r(1) show ?thesis
      by (simp add: series_title_from_series_file_path_def is_compiled_metadata_path_def)
  qed
  have "authorize pct_decode m path destination i anon backend \<noteq> Inr ()"
    using assms(3)
  proof (elim disjE conjE)
    assume "m \<in> set rearranges" "is_compiled_metadata_path path"
    with assms(1,2) show ?thesis by (auto simp: authorize_def Let_def rearranges_def)
  next
    assume "m = ''PUT''" "is_catalog_file_path path" "\<not> is_progress_path path"
    with assms(1,2) catalog show ?thesis by (simp add: authorize_def Let_def rearranges_def authorize_put_ok)
  next
    assume "m \<in> {''MOVE'', ''COPY'', ''LOCK'', ''UNLOCK'', ''PROPPATCH''}" "is_history_path path"
    with assms(1,2) show ?thesis by (auto simp: authorize_def Let_def)
  next
    assume "m \<in> {''MOVE'', ''COPY''}" "destination = Some h" "destination_path pct_decode h = Some dest"
      "is_compiled_metadata_path dest"
    with assms(1,2) show ?thesis by (auto simp: authorize_def Let_def)
  next
    assume "m \<in> {''MOVE'', ''COPY''}" and d: "destination = Some h" "destination_path pct_decode h = Some dest"
      "is_history_path dest"
    then have m: "m = ''MOVE'' \<or> m = ''COPY''" by simp
    show ?thesis
      unfolding authorize_def Let_def using m d assms(1,2)
      by (intro if_neqI) auto
  qed
  then show ?thesis by (cases "authorize pct_decode m path destination i anon backend") auto
qed

theorem protected_paths_refused_witness:
  "\<exists>d. authorize id ''DELETE'' ''/mokuro-reader//Catalog.json'' None demo_identity
         \<lparr>browse = True, download = True\<rparr> demo_backend = Inl d"
proof -
  let ?p = "''/mokuro-reader//Catalog.json''"
  have c: "\<not> is_processor_path ?p" "\<not> is_admin_path ?p"
      "''DELETE'' \<in> set rearranges \<and> is_compiled_metadata_path ?p" by code_simp+
  show ?thesis by (rule protected_paths_refused [OF c(1,2)]) (use c(3) in blast)
qed

text \<open>
  A request decided without input or output is decided as the full authentication
  decides it: whenever the quick check answers, the full one gives the same identity and
  leaves the limiter untouched.
\<close>

theorem quick_authentication_agrees:
  assumes "authenticate_without_io b64_decode hdr backend = Some i"
  shows "authenticate b64_decode hdr client_ip backend lim now wakes after m = (i, m)"
  using assms
  by (auto simp: authenticate_without_io_def authenticate_def starts_with_def
      split: option.splits basic.splits if_splits)

theorem quick_authentication_agrees_witness:
  "authenticate Some (Some ''Digest x'') ''::1'' demo_backend default_limiter 0 [] (\<lambda>m. (0, m)) [] = (no_identity, [])"
proof -
  have "authenticate_without_io Some (Some ''Digest x'') demo_backend = Some no_identity" by code_simp
  then show ?thesis by (rule quick_authentication_agrees)
qed

text \<open>
  While a key is blocked its passwords are not even looked at: the answer is the same
  for every password checker, it is a refusal, and the table still holds the block.
\<close>

theorem blocked_password_not_checked:
  assumes "parse_basic b64_decode value = Basic u p" and "cached_login backend u p = None"
    and "blocked_key (client_ip @ '':'' @ u) until m" and "now < until"
  shows "\<exists>i m'. id_user i = None \<and> blocked_key (client_ip @ '':'' @ u) until m' \<and>
           (\<forall>check. authenticate b64_decode (Some value) client_ip (backend\<lparr>check_password := check\<rparr>)
              lim now wakes after m = (i, m'))"
proof -
  let ?key = "client_ip @ '':'' @ u"
  have basic: "strip_prefix ''Bearer '' value = None"
  proof (rule ccontr)
    assume "strip_prefix ''Bearer '' value \<noteq> None"
    then have "strip_prefix ''Basic '' value = None"
      by (auto simp: strip_prefix_Some_iff)
    with assms(1) show False by (simp add: parse_basic_def)
  qed
  obtain m' where c: "check lim ?key now m = (Inl ((until - now) div second + 1), m')"
    using check_blocked [OF assms(3,4), of lim] by (metis prod.collapse)
  then have "blocked_key ?key until m'"
    using check_keeps_block [OF assms(3,4), of lim] by simp
  moreover have "authenticate b64_decode (Some value) client_ip (backend\<lparr>check_password := check\<rparr>) lim now wakes after m =
      (no_identity
         \<lparr>id_error := Some (''Too many failed attempts. Retry in '' @ show_nat ((until - now) div second + 1) @ ''s''),
          id_attempted := Some u\<rparr>, m')" for check
    using assms(1,2) c by (simp add: authenticate_def basic)
  ultimately show ?thesis by (intro exI conjI allI) (auto simp: no_identity_def)
qed

theorem blocked_password_not_checked_witness:
  "id_user (fst (authenticate Some (Some ''Basic al:pw'') ''1'' demo_backend default_limiter 5 [] (\<lambda>m. (5, m))
     [(''1:al'', \<lparr>failures = [], blocked_until = Some 9, pending = []\<rparr>)])) = None"
proof -
  let ?m = "[(''1:al'', \<lparr>failures = [], blocked_until = Some 9, pending = []\<rparr>)]"
  have t: "trim ''al:pw'' = ''al:pw''" by (rule trim_solid) (simp add: solid_def)
  have u: "utf8_valid ''al:pw''" by code_simp
  have b: "parse_basic Some ''Basic al:pw'' = Basic ''al'' ''pw''"
    using t u by (simp add: parse_basic_def)
  have c: "cached_login demo_backend ''al'' ''pw'' = None" by (simp add: demo_backend_def)
  have k: "blocked_key (''1'' @ '':'' @ ''al'') 9 ?m" by (simp add: blocked_key_def)
  from blocked_password_not_checked [OF b c k, of 5 default_limiter "[]" "\<lambda>m. (5, m)"]
  obtain i m' where i: "id_user i = None" and
    a: "\<And>check. authenticate Some (Some ''Basic al:pw'') ''1'' (demo_backend\<lparr>check_password := check\<rparr>)
        default_limiter 5 [] (\<lambda>m. (5, m)) ?m = (i, m')" by (auto simp: max_keys_def)
  from a [of "check_password demo_backend"] i show ?thesis by simp
qed

end
