(* ===== verification/Login_Cache.thy ===== *)
theory Login_Cache
  imports Account_Book Auth "HOL-Library.AList"
begin

text \<open>
  \<open>bunko-server/src/backend.rs\<close>: the cache of verified Basic logins in front of the database.
  An entry holds the account, the \<open>users_version\<close> read before the password was checked and
  the instant it was stored (milliseconds); it answers while the version has not moved and for
  five minutes. A check reads the version, runs bcrypt and stores its entry in three steps, and
  a change of an account commits before it moves the version, so requests interleave: the
  machine below takes these steps in any order. The map is an association list; \<open>sha\<close> is
  SHA-256 and \<open>salt\<close> the random salt of the process. What the cache needs of the store is the
  locale \<open>versioned_login\<close>, and the database provides it.
\<close>

section \<open>The cache\<close>

definition login_ttl :: nat where "login_ttl = 300000"
definition login_cache_max :: nat where "login_cache_max = 1024"

type_synonym login_entries = "(string \<times> auth_user \<times> nat \<times> nat) list"

definition login_key :: "(string \<Rightarrow> string) \<Rightarrow> string \<Rightarrow> string \<Rightarrow> string \<Rightarrow> string" where
  "login_key sha salt username password = sha (salt @ username @ CHR 0x00 # password)"

definition to_auth :: "user \<Rightarrow> auth_user" where
  "to_auth u = \<lparr>user_id = int (us_id u), user_name = us_name u, user_role = us_role u\<rparr>"

definition entry_fresh :: "nat \<Rightarrow> nat \<Rightarrow> auth_user \<times> nat \<times> nat \<Rightarrow> bool" where
  "entry_fresh version now e = (case e of (_, v, at) \<Rightarrow> v = version \<and> now - at < login_ttl)"

definition cached_login_at :: "string \<Rightarrow> nat \<Rightarrow> nat \<Rightarrow> login_entries \<Rightarrow> auth_user option \<times> login_entries" where
  "cached_login_at key version now es =
     (case map_of es key of
        None \<Rightarrow> (None, es)
      | Some e \<Rightarrow> if entry_fresh version now e then (Some (fst e), es) else (None, AList.delete key es))"

definition remember :: "string \<Rightarrow> auth_user \<Rightarrow> nat \<Rightarrow> nat \<Rightarrow> login_entries \<Rightarrow> login_entries" where
  "remember key u version now es =
     (let es = (if length es \<ge> login_cache_max
                then let kept = filter (\<lambda>(_, e). entry_fresh version now e) es
                     in if length kept \<ge> login_cache_max then [] else kept
                else es)
      in AList.update key (u, version, now) es)"

definition check_password_at ::
  "(string \<Rightarrow> string \<Rightarrow> bool) \<Rightarrow> (string \<Rightarrow> string) \<Rightarrow> string \<Rightarrow> nat \<Rightarrow> string \<Rightarrow> string \<Rightarrow> db \<Rightarrow> login_entries \<Rightarrow>
     auth_user option \<times> login_entries" where
  "check_password_at bv sha salt now name pw d es =
     (let version = users_version d in
      case authenticate_user bv name pw d of
        None \<Rightarrow> (None, es)
      | Some u \<Rightarrow> (Some (to_auth u), remember (login_key sha salt name pw) (to_auth u) version now es))"

definition db_resolve_token :: "(string \<Rightarrow> string) \<Rightarrow> int \<Rightarrow> string \<Rightarrow> db \<Rightarrow> auth_user option \<times> db" where
  "db_resolve_token sha now tok d = (let (u, d) = resolve_auth_token sha now tok d in (map_option to_auth u, d))"

section \<open>The server around it\<close>

record 's server =
  sv_store :: 's
  sv_version :: nat
  sv_unbumped :: nat
  sv_cache :: login_entries
  sv_checks :: "(string \<times> string \<times> nat \<times> auth_user option option) list"
  sv_now :: nat

datatype 'op server_event =
    Commit 'op | Bumped | Tick nat | BeginCheck string string | Verify nat | Finish nat | Lookup string string

fun server_step ::
  "('s \<Rightarrow> 'op \<Rightarrow> 's) \<Rightarrow> ('s \<Rightarrow> 'op \<Rightarrow> bool) \<Rightarrow> ('s \<Rightarrow> string \<Rightarrow> string \<Rightarrow> auth_user option) \<Rightarrow>
     (string \<Rightarrow> string) \<Rightarrow> string \<Rightarrow> 's server \<Rightarrow> 'op server_event \<Rightarrow> 's server" where
  "server_step commit moves login sha salt sv (Commit x) =
     sv\<lparr>sv_store := commit (sv_store sv) x,
        sv_unbumped := sv_unbumped sv + (if moves (sv_store sv) x then 1 else 0)\<rparr>"
| "server_step commit moves login sha salt sv Bumped =
     (if sv_unbumped sv = 0 then sv
      else sv\<lparr>sv_version := Suc (sv_version sv), sv_unbumped := sv_unbumped sv - 1\<rparr>)"
| "server_step commit moves login sha salt sv (Tick n) = sv\<lparr>sv_now := sv_now sv + n\<rparr>"
| "server_step commit moves login sha salt sv (BeginCheck n p) =
     sv\<lparr>sv_checks := sv_checks sv @ [(n, p, sv_version sv, None)]\<rparr>"
| "server_step commit moves login sha salt sv (Verify i) =
     (if i < length (sv_checks sv)
      then (case sv_checks sv ! i of
              (n, p, v, None) \<Rightarrow> sv\<lparr>sv_checks := (sv_checks sv)[i := (n, p, v, Some (login (sv_store sv) n p))]\<rparr>
            | _ \<Rightarrow> sv)
      else sv)"
| "server_step commit moves login sha salt sv (Finish i) =
     (if i < length (sv_checks sv)
      then (case sv_checks sv ! i of
              (n, p, v, Some (Some u)) \<Rightarrow>
                sv\<lparr>sv_cache := remember (login_key sha salt n p) u v (sv_now sv) (sv_cache sv),
                   sv_checks := take i (sv_checks sv) @ drop (Suc i) (sv_checks sv)\<rparr>
            | (_, _, _, Some None) \<Rightarrow> sv\<lparr>sv_checks := take i (sv_checks sv) @ drop (Suc i) (sv_checks sv)\<rparr>
            | _ \<Rightarrow> sv)
      else sv)"
| "server_step commit moves login sha salt sv (Lookup n p) =
     sv\<lparr>sv_cache := snd (cached_login_at (login_key sha salt n p) (sv_version sv) (sv_now sv) (sv_cache sv))\<rparr>"

text \<open>A login that was verified under version \<open>v\<close>, as of now.\<close>

definition still_good ::
  "('s \<Rightarrow> string \<Rightarrow> string \<Rightarrow> auth_user option) \<Rightarrow> 's server \<Rightarrow> string \<Rightarrow> string \<Rightarrow> auth_user \<Rightarrow> nat \<Rightarrow> bool" where
  "still_good login sv n p u v \<longleftrightarrow>
     v \<le> sv_version sv \<and> CHR 0x00 \<notin> set n \<and>
     (v = sv_version sv \<and> sv_unbumped sv = 0 \<longrightarrow> login (sv_store sv) n p = Some u)"

definition cache_inv ::
  "('s \<Rightarrow> string \<Rightarrow> string \<Rightarrow> auth_user option) \<Rightarrow> (string \<Rightarrow> string) \<Rightarrow> string \<Rightarrow> ('s \<Rightarrow> bool) \<Rightarrow> 's server \<Rightarrow> bool" where
  "cache_inv login sha salt store_ok sv \<longleftrightarrow>
     store_ok (sv_store sv) \<and> distinct (map fst (sv_cache sv)) \<and> length (sv_cache sv) \<le> login_cache_max \<and>
     (\<forall>(k, u, v, at)\<in>set (sv_cache sv). \<exists>n p. k = login_key sha salt n p \<and> still_good login sv n p u v) \<and>
     (\<forall>(n, p, v, r)\<in>set (sv_checks sv). v \<le> sv_version sv \<and>
        (\<forall>u. r = Some (Some u) \<longrightarrow> still_good login sv n p u v))"

section \<open>What the cache needs of the store\<close>

locale versioned_login =
  fixes commit :: "'s \<Rightarrow> 'op \<Rightarrow> 's"
    and moves :: "'s \<Rightarrow> 'op \<Rightarrow> bool"
    and login :: "'s \<Rightarrow> string \<Rightarrow> string \<Rightarrow> auth_user option"
    and inv :: "'s \<Rightarrow> bool"
  assumes commit_inv: "inv s \<Longrightarrow> inv (commit s x)"
    and quiet: "inv s \<Longrightarrow> \<not> moves s x \<Longrightarrow> login (commit s x) n p = login s n p"
    and plain_name: "inv s \<Longrightarrow> login s n p = Some u \<Longrightarrow> CHR 0x00 \<notin> set n"
begin

lemma good_commit:
  "inv (sv_store sv) \<Longrightarrow> still_good login sv n p u v \<Longrightarrow>
     still_good login (server_step commit moves login sha salt sv (Commit x)) n p u v"
  by (auto simp: still_good_def quiet)

lemma good_mono:
  assumes "still_good login sv n p u v" "sv_store sv' = sv_store sv"
    "sv_version sv' = sv_version sv \<and> sv_unbumped sv' = sv_unbumped sv \<or> sv_version sv < sv_version sv'"
  shows "still_good login sv' n p u v"
  using assms by (auto simp: still_good_def)

lemma delete_bounds:
  "length (AList.delete k es) \<le> length es" "distinct (map fst es) \<Longrightarrow> distinct (map fst (AList.delete k es))"
  by (simp_all add: length_delete_le distinct_delete)

lemma cached_login_inv:
  assumes "cached_login_at k v now es = (r, es')"
  shows "set es' \<subseteq> set es" "length es' \<le> length es" "distinct (map fst es) \<Longrightarrow> distinct (map fst es')"
  using assms by (auto simp: cached_login_at_def delete_bounds AList.delete_eq distinct_map_filter split: option.splits if_splits)

lemma remember_set: "set (remember k u v now es) \<subseteq> insert (k, u, v, now) (set es)"
proof -
  have upd: "set (AList.update k x fs) \<subseteq> insert (k, x) (set fs)" for x and fs :: login_entries
    by (induction fs) auto
  show ?thesis unfolding remember_def Let_def
    by (rule order_trans [OF upd]) auto
qed

lemma update_length: "length (AList.update k x fs) \<le> Suc (length fs)"
  by (induction fs) auto

lemma remember_bounds:
  assumes "distinct (map fst es)" "length es \<le> login_cache_max"
  shows "distinct (map fst (remember k u v now es))" "length (remember k u v now es) \<le> login_cache_max"
proof -
  define fs where "fs = (if length es \<ge> login_cache_max
                then let kept = filter (\<lambda>(_, e). entry_fresh v now e) es
                     in if length kept \<ge> login_cache_max then [] else kept
                else es)"
  have "distinct (map fst fs)" "length fs < login_cache_max"
    using assms by (auto simp: fs_def Let_def distinct_map_filter login_cache_max_def)
  moreover have "remember k u v now es = AList.update k (u, v, now) fs"
    by (simp add: remember_def fs_def Let_def)
  ultimately show "distinct (map fst (remember k u v now es))" "length (remember k u v now es) \<le> login_cache_max"
    using update_length [of k "(u, v, now)" fs] by (simp_all add: distinct_update)
qed

lemma inv_parts:
  assumes "cache_inv login sha salt inv sv"
  shows "inv (sv_store sv)" "distinct (map fst (sv_cache sv))" "length (sv_cache sv) \<le> login_cache_max"
    "(k, u, v, at) \<in> set (sv_cache sv) \<Longrightarrow> \<exists>n p. k = login_key sha salt n p \<and> still_good login sv n p u v"
    "(n, p, v, r) \<in> set (sv_checks sv) \<Longrightarrow> v \<le> sv_version sv"
    "(n, p, v, Some (Some u)) \<in> set (sv_checks sv) \<Longrightarrow> still_good login sv n p u v"
  using assms unfolding cache_inv_def by fast+

text \<open>A step that keeps the logins known good keeps the invariant when it only drops or adds good ones.\<close>

lemma inv_keep:
  assumes old: "cache_inv login sha salt inv sv"
    and store: "inv (sv_store sv')"
    and good: "\<And>n p u v. still_good login sv n p u v \<Longrightarrow> still_good login sv' n p u v"
    and version: "sv_version sv \<le> sv_version sv'"
    and cache: "set (sv_cache sv') \<subseteq> set (sv_cache sv)" "distinct (map fst (sv_cache sv'))"
      "length (sv_cache sv') \<le> length (sv_cache sv)"
    and checks: "\<And>n p v r. (n, p, v, r) \<in> set (sv_checks sv') \<Longrightarrow>
        (n, p, v, r) \<in> set (sv_checks sv) \<or>
        v \<le> sv_version sv' \<and> (\<forall>u. r = Some (Some u) \<longrightarrow> still_good login sv' n p u v)"
  shows "cache_inv login sha salt inv sv'"
proof -
  have "v \<le> sv_version sv' \<and> (\<forall>u. r = Some (Some u) \<longrightarrow> still_good login sv' n p u v)"
    if "(n, p, v, r) \<in> set (sv_checks sv')" for n p v r
    using checks [OF that] inv_parts(5,6) [OF old] good version by (blast intro: order_trans)
  moreover have "\<exists>n p. k = login_key sha salt n p \<and> still_good login sv' n p u v"
    if "(k, u, v, at) \<in> set (sv_cache sv')" for k u v at
    using inv_parts(4) [OF old] that good cache(1) by blast
  moreover have "length (sv_cache sv') \<le> login_cache_max" using inv_parts(3) [OF old] cache(3) by simp
  ultimately show ?thesis
    using store cache(2) unfolding cache_inv_def by blast
qed

lemma commit_step:
  assumes "cache_inv login sha salt inv sv"
  shows "cache_inv login sha salt inv (server_step commit moves login sha salt sv (Commit x))"
  by (rule inv_keep [OF assms])
    (use inv_parts(1,2) [OF assms] in \<open>auto simp: still_good_def quiet intro: commit_inv\<close>)

lemma finish_inv:
  assumes old: "cache_inv login sha salt inv sv" and sub: "set cs \<subseteq> set (sv_checks sv)"
    and good: "still_good login sv n p u v"
  shows "cache_inv login sha salt inv
     (sv\<lparr>sv_cache := remember (login_key sha salt n p) u v (sv_now sv) (sv_cache sv), sv_checks := cs\<rparr>)"
proof -
  let ?sv = "sv\<lparr>sv_cache := remember (login_key sha salt n p) u v (sv_now sv) (sv_cache sv), sv_checks := cs\<rparr>"
  have g: "still_good login ?sv a b x w = still_good login sv a b x w" for a b x w
    by (simp add: still_good_def)
  have "\<exists>n p. k = login_key sha salt n p \<and> still_good login ?sv n p x w" if "(k, x, w, at) \<in> set (sv_cache ?sv)" for k x w at
  proof (cases "(k, x, w, at) \<in> set (sv_cache sv)")
    case True
    then show ?thesis using inv_parts(4) [OF old] g by blast
  next
    case False
    with that remember_set [of "login_key sha salt n p" u v "sv_now sv" "sv_cache sv"]
    have "k = login_key sha salt n p" "x = u" "w = v" by auto
    with good g show ?thesis by blast
  qed
  moreover have "w \<le> sv_version ?sv \<and> (\<forall>x. r = Some (Some x) \<longrightarrow> still_good login ?sv a b x w)"
    if "(a, b, w, r) \<in> set (sv_checks ?sv)" for a b w r
  proof -
    from that sub have "(a, b, w, r) \<in> set (sv_checks sv)" by auto
    with inv_parts(5,6) [OF old] g show ?thesis by auto
  qed
  moreover have "inv (sv_store ?sv)" "distinct (map fst (sv_cache ?sv))" "length (sv_cache ?sv) \<le> login_cache_max"
    using inv_parts(1) [OF old] remember_bounds [OF inv_parts(2,3) [OF old]] by simp_all
  ultimately show ?thesis unfolding cache_inv_def by blast
qed

lemma step_inv:
  assumes "cache_inv login sha salt inv sv"
  shows "cache_inv login sha salt inv (server_step commit moves login sha salt sv ev)"
proof (cases ev)
  case (Commit x)
  with commit_step [OF assms] show ?thesis by simp
next
  case Bumped
  show ?thesis unfolding Bumped
    by (rule inv_keep [OF assms]) (use inv_parts(1,2) [OF assms] in \<open>auto simp: still_good_def\<close>)
next
  case (Tick n)
  show ?thesis unfolding Tick
    by (rule inv_keep [OF assms]) (use inv_parts(1,2) [OF assms] in \<open>auto simp: still_good_def\<close>)
next
  case (BeginCheck n p)
  show ?thesis unfolding BeginCheck
    by (rule inv_keep [OF assms]) (use inv_parts(1,2) [OF assms] in \<open>auto simp: still_good_def\<close>)
next
  case (Lookup n p)
  obtain r es where r: "cached_login_at (login_key sha salt n p) (sv_version sv) (sv_now sv) (sv_cache sv) = (r, es)"
    by fastforce
  show ?thesis unfolding Lookup
    by (rule inv_keep [OF assms])
      (use inv_parts(1,2) [OF assms] r cached_login_inv [OF r] in \<open>auto simp: still_good_def\<close>)
next
  case (Verify i)
  show ?thesis
  proof (cases "i < length (sv_checks sv) \<and> snd (snd (snd (sv_checks sv ! i))) = None")
    case True
    then obtain n p v where c: "i < length (sv_checks sv)" "sv_checks sv ! i = (n, p, v, None)"
      by (cases "sv_checks sv ! i") auto
    then have "(n, p, v, None) \<in> set (sv_checks sv)" by (metis nth_mem)
    with inv_parts(5) [OF assms] have v: "v \<le> sv_version sv" by blast
    show ?thesis unfolding Verify
    proof (rule inv_keep [OF assms])
      fix a b w r
      assume "(a, b, w, r) \<in> set (sv_checks (server_step commit moves login sha salt sv (Verify i)))"
      then have "(a, b, w, r) \<in> set (sv_checks sv) \<or> (a, b, w, r) = (n, p, v, Some (login (sv_store sv) n p))"
        using c set_update_subset_insert [of "sv_checks sv" i "(n, p, v, Some (login (sv_store sv) n p))"] by auto
      then show "(a, b, w, r) \<in> set (sv_checks sv) \<or>
          w \<le> sv_version (server_step commit moves login sha salt sv (Verify i)) \<and>
          (\<forall>u. r = Some (Some u) \<longrightarrow> still_good login (server_step commit moves login sha salt sv (Verify i)) a b u w)"
        using c v plain_name [OF inv_parts(1) [OF assms]] by (auto simp: still_good_def)
    qed (use inv_parts(1,2) [OF assms] c in \<open>auto simp: still_good_def\<close>)
  next
    case False
    then have "server_step commit moves login sha salt sv (Verify i) = sv"
      by (auto split: option.split prod.split)
    with assms show ?thesis by (simp only: Verify)
  qed
next
  case (Finish i)
  let ?cs = "take i (sv_checks sv) @ drop (Suc i) (sv_checks sv)"
  have sub: "set ?cs \<subseteq> set (sv_checks sv)" by (auto dest: in_set_takeD in_set_dropD)
  have drop: "cache_inv login sha salt inv (sv\<lparr>sv_checks := ?cs\<rparr>)"
    by (rule inv_keep [OF assms]) (use inv_parts(1,2) [OF assms] sub in \<open>auto simp: still_good_def\<close>)
  obtain n p v r where c: "sv_checks sv ! i = (n, p, v, r)" by (cases "sv_checks sv ! i")
  show ?thesis
  proof (cases "i < length (sv_checks sv)")
    case True
    then have mem: "(n, p, v, r) \<in> set (sv_checks sv)" using c by (metis nth_mem)
    consider "r = None" | "r = Some None" | u where "r = Some (Some u)" by (cases r; cases "the r") auto
    then show ?thesis
    proof cases
      case 3
      with mem inv_parts(6) [OF assms] have "still_good login sv n p u v" by blast
      from finish_inv [OF assms sub this] 3 True c show ?thesis by (simp add: Finish)
    qed (use assms drop True c in \<open>simp_all add: Finish\<close>)
  qed (use assms in \<open>simp add: Finish\<close>)
qed

end

sublocale versioned_login \<subseteq> srv: machine "server_step commit moves login sha salt" "cache_inv login sha salt inv"
  for sha salt
  by unfold_locales (rule step_inv)

section \<open>The database provides it\<close>

definition login_view :: "(string \<Rightarrow> string \<Rightarrow> bool) \<Rightarrow> db \<Rightarrow> string \<Rightarrow> string \<Rightarrow> auth_user option" where
  "login_view bv d n p = map_option to_auth (authenticate_user bv n p d)"

definition db_moves :: "(string \<Rightarrow> string) \<Rightarrow> (string \<Rightarrow> string) \<Rightarrow> chrono \<Rightarrow> db \<Rightarrow> db_op \<Rightarrow> bool" where
  "db_moves sha lower ch d x \<longleftrightarrow> users_version (db_step sha lower ch d x) \<noteq> users_version d"

lemma login_view_cong: "users e = users d \<Longrightarrow> login_view bv e n p = login_view bv d n p"
  by (simp add: login_view_def authenticate_user_def find_user_def cong: option.case_cong)

lemma login_view_notes: "login_view bv (snd (update_user_notes m nts d)) n p = login_view bv d n p"
proof -
  have "map_option to_auth (raw_into_login (r\<lparr>ur_notes := nts\<rparr>)) = map_option to_auth (raw_into_login r)" for r
    by (auto simp: raw_into_login_def raw_into_user_def to_auth_def split: sum.split option.split)
  then show ?thesis
    using find_user_update [of "\<lambda>r. r\<lparr>ur_notes := nts\<rparr>" n "\<lambda>r. ur_name r = m" d]
    by (auto simp: login_view_def authenticate_user_def update_user_notes_def split: option.split)
qed

lemma bumping_calls [simp]:
  "users_version (snd (create_user nt h n pw role st nts d)) = Suc (users_version d)"
  "users_version (snd (update_user_role_with n role keep d)) = Suc (users_version d)"
  "users_version (snd (update_user_password h n pw d)) = Suc (users_version d)"
  "users_version (snd (approve_user n d)) = Suc (users_version d)"
  "users_version (snd (disable_user_with n keep d)) = Suc (users_version d)"
  "users_version (snd (delete_user_with n keep d)) = Suc (users_version d)"
  "users_version (snd (restore_user h n pw orole d)) = Suc (users_version d)"
  by (auto simp: account_call_defs case_prod_beta Let_def insert_user_def split: option.split sum.split)

lemma redeem_bumps [simp]: "users_version (snd (create_user_with_invite ch ck h n pw code st nts d)) = Suc (users_version d)"
proof -
  have "users_version (snd (redeem_in ch ck n x code st nts d)) = users_version d" for x
  proof (cases rule: redeem_in_cases [of ch ck n x code st nts d])
    case (made nv i j)
    then have "users_version j = users_version i" "users_version i = users_version d"
      using consume_invite_fields(4) [of "ck_text ck" code n i] by (auto simp: insert_user_def)
    with made(5) show ?thesis by simp
  qed simp
  then show ?thesis by (auto simp: create_user_with_invite_def case_prod_beta split: sum.split)
qed

lemma db_quiet:
  assumes "\<not> db_moves sha lower ch d x"
  shows "login_view bv (db_step sha lower ch d x) n p = login_view bv d n p"
proof (cases x)
  case (OpNotes m nts)
  then show ?thesis by (simp add: login_view_notes)
next
  case (OpCreateInvite ck draws role expires inviter)
  show ?thesis
  proof (cases "create_invite lower ch ck draws role expires inviter d")
    case (Some r)
    with OpCreateInvite create_invite_fields [of lower ch ck draws role expires inviter d "fst r" "snd r"]
    show ?thesis by (auto simp: case_prod_beta intro: login_view_cong)
  qed (use OpCreateInvite in simp)
qed (use assms in \<open>auto simp: db_moves_def revoke_auth_token_def revoke_user_auth_tokens_def
      prune_expired_auth_tokens_def delete_invite_def cleanup_expired_invites_def Let_def intro!: login_view_cong\<close>)

lemma db_plain_name:
  assumes "db_ok d" "login_view bv d n p = Some u"
  shows "CHR 0x00 \<notin> set n"
proof -
  obtain r where "find_user n d = Some r"
    using assms(2) by (auto simp: login_view_def authenticate_user_def split: option.splits)
  with find_user_name [of n d r] assms(1) have "validate_username n = None"
    by (auto simp: db_ok_def accounts_ok_def)
  then show ?thesis
    by (auto simp: validate_username_def list_all_iff is_ascii_alnum_def is_ascii_digit_def
        is_ascii_lower_def is_ascii_upper_def less_eq_char_def less_char_def dest!: bspec [of _ _ "CHR 0x00"] split: if_splits)
qed

interpretation dbl: versioned_login "db_step sha lower ch" "db_moves sha lower ch" "login_view bv" db_ok
  for sha lower ch bv
  by unfold_locales (rule db.step_inv db_quiet db_plain_name, assumption+)+

text \<open>A server that has just started.\<close>

definition started :: "db \<Rightarrow> nat \<Rightarrow> db server" where
  "started d now = \<lparr>sv_store = d, sv_version = 0, sv_unbumped = 0, sv_cache = [], sv_checks = [], sv_now = now\<rparr>"

lemma started_inv: "db_ok d \<Longrightarrow> cache_inv (login_view bv) sha salt db_ok (started d now)"
  by (simp add: cache_inv_def started_def login_cache_max_def)

lemma key_split:
  assumes "inj sha" "login_key sha salt n p = login_key sha salt m q" "CHR 0x00 \<notin> set n" "CHR 0x00 \<notin> set m"
  shows "n = m \<and> p = q"
proof -
  have eq: "n @ CHR 0x00 # p = m @ CHR 0x00 # q" using assms(1,2) by (simp add: login_key_def inj_eq)
  have "takeWhile (\<lambda>c. c \<noteq> CHR 0x00) (k @ CHR 0x00 # x) = k" if "CHR 0x00 \<notin> set k" for k x
    using that by (induction k) auto
  from this [OF assms(3), of p] this [OF assms(4), of q] eq have "n = m" by simp
  with eq show ?thesis by simp
qed

text \<open>
  C5: at every moment at which no account change is between its commit and its version move,
  however the steps of account changes, password checks and lookups interleaved before, an answer
  of the login cache is what checking the password against the database now would give: no demotion,
  password change, disabling or deletion whose version move is done leaves the old login behind.
  Within that short window the answer may still be the old one (\<open>stale_until_bumped\<close>). The salted
  hash is assumed free of collisions, and the name free of NUL bytes.
\<close>

theorem cached_login_current:
  assumes "db_ok d" "inj hash" "CHR 0x00 \<notin> set n"
    and "sv = foldl (server_step (db_step sha lower ch) (db_moves sha lower ch) (login_view bv) hash salt) (started d t) evs"
    and "sv_unbumped sv = 0"
    and "fst (cached_login_at (login_key hash salt n p) (sv_version sv) (sv_now sv) (sv_cache sv)) = Some u"
  shows "login_view bv (sv_store sv) n p = Some u"
proof -
  have inv: "cache_inv (login_view bv) hash salt db_ok sv"
    unfolding assms(4) by (rule dbl.srv.run_inv [OF started_inv [OF assms(1)]])
  from assms(6) obtain at where "(login_key hash salt n p, u, sv_version sv, at) \<in> set (sv_cache sv)"
    by (fastforce simp: cached_login_at_def entry_fresh_def dest: map_of_SomeD split: option.splits if_splits)
  then obtain m q where "login_key hash salt n p = login_key hash salt m q"
    "still_good (login_view bv) sv m q u (sv_version sv)"
    using dbl.inv_parts(4) [OF inv] by blast
  with key_split [OF assms(2) _ assms(3), of salt p m q] assms(5) show ?thesis by (auto simp: still_good_def)
qed

lemma sample_login:
  "login_view (\<lambda>_ _. True) (sample_run sample_ops) ''root'' ''pw'' =
     Some \<lparr>user_id = 1, user_name = ''root'', user_role = Admin\<rparr>"
  by code_simp

theorem cached_login_current_witness:
  "\<exists>(sv :: db server) u. fst (cached_login_at (login_key (\<lambda>x. x) ''salt'' ''root'' ''pw'') (sv_version sv) (sv_now sv) (sv_cache sv)) = Some u \<and>
     login_view (\<lambda>_ _. True) (sv_store sv) ''root'' ''pw'' = Some u"
proof -
  let ?evs = "[BeginCheck ''root'' ''pw'', Verify 0, Finish 0] :: db_op server_event list"
  define sv where "sv = foldl (server_step (db_step (\<lambda>x. x) (\<lambda>x. x) sample_chrono)
      (db_moves (\<lambda>x. x) (\<lambda>x. x) sample_chrono) (login_view (\<lambda>_ _. True)) (\<lambda>x. x) ''salt'')
      (started (sample_run sample_ops) 0) ?evs"
  have sv: "sv_unbumped sv = 0"
    "fst (cached_login_at (login_key (\<lambda>x. x) ''salt'' ''root'' ''pw'') (sv_version sv) (sv_now sv) (sv_cache sv)) =
       Some \<lparr>user_id = 1, user_name = ''root'', user_role = Admin\<rparr>"
    by (simp_all add: sv_def started_def sample_login remember_def login_cache_max_def cached_login_at_def
        entry_fresh_def login_ttl_def login_key_def del: db_step.simps foldl.simps(2) add: foldl_Cons)
  have "inj (\<lambda>x::string. x)" "CHR 0x00 \<notin> set ''root''" by (simp_all add: inj_def)
  from cached_login_current [OF sample_ok this sv_def sv] sv(2) show ?thesis
    by (intro exI conjI)
qed

text \<open>Between the commit and the version move the cache does answer as before the change.\<close>

lemma sample_deleted:
  "login_view (\<lambda>_ _. True) (db_step (\<lambda>x. x) (\<lambda>x. x) sample_chrono (sample_run sample_ops) (OpDelete ''root'' Allow)) ''root'' ''pw'' = None"
  "db_moves (\<lambda>x. x) (\<lambda>x. x) sample_chrono (sample_run sample_ops) (OpDelete ''root'' Allow)"
  by code_simp+

lemma stale_until_bumped:
  "let run = foldl (server_step (db_step (\<lambda>x. x) (\<lambda>x. x) sample_chrono)
         (db_moves (\<lambda>x. x) (\<lambda>x. x) sample_chrono) (login_view (\<lambda>_ _. True)) (\<lambda>x. x) ''salt'')
         (started (sample_run sample_ops) 0);
       answer = (\<lambda>sv. fst (cached_login_at (login_key (\<lambda>x. x) ''salt'' ''root'' ''pw'') (sv_version sv) (sv_now sv) (sv_cache sv)));
       logged_in = [BeginCheck ''root'' ''pw'', Verify 0, Finish 0];
       committed = logged_in @ [Commit (OpDelete ''root'' Allow)]
   in answer (run committed) = answer (run logged_in) \<and> answer (run logged_in) \<noteq> None \<and>
      login_view (\<lambda>_ _. True) (sv_store (run committed)) ''root'' ''pw'' = None \<and>
      answer (run (committed @ [Bumped])) = None"
  by (simp add: started_def sample_login sample_deleted remember_def login_cache_max_def cached_login_at_def
      entry_fresh_def login_ttl_def login_key_def del: db_step.simps foldl.simps(2) add: foldl_Cons)

end
