(* ===== verification/Account_Life.thy ===== *)
theory Account_Life
  imports Account_Book
begin

text \<open>
  Sessions and invites over time, on \<open>Db_Machine\<close>: a signed-out session stays out, and an
  invite makes one account, of the role it was made for, or leaves no trace; and how long an
  invite is good (\<open>create_invite\<close>, \<open>validate_invite\<close> and \<open>pytime.rs\<close> together).
\<close>

section \<open>Sessions\<close>

definition makes_token :: "(string \<Rightarrow> string) \<Rightarrow> string \<Rightarrow> string \<Rightarrow> db_op \<Rightarrow> bool" where
  "makes_token sha n tok x \<longleftrightarrow>
     (case x of OpCreateToken t _ m _ _ _ \<Rightarrow> m = n \<and> sha t = sha tok | _ \<Rightarrow> False)"

definition no_session :: "string \<Rightarrow> string \<Rightarrow> db \<Rightarrow> bool" where
  "no_session n h d \<longleftrightarrow> list_all (\<lambda>t. tk_user t = n \<longrightarrow> tk_hash t \<noteq> h) (tokens d)"

lemma insert_user_tokens [simp]: "tokens (snd (insert_user nt n h role st nts d)) = tokens d"
  by (auto simp: insert_user_def split: option.split)

lemma redeem_tokens [simp]: "tokens (snd (redeem_in ch ck n h code st nts d)) = tokens d"
proof (cases rule: redeem_in_cases [of ch ck n h code st nts d])
  case (made nv i j)
  then have "tokens j = tokens i" "tokens i = tokens d"
    using consume_invite_fields(3) [of "ck_text ck" code n i] insert_user_tokens [of "ck_text ck" n h "nv_role nv" st nts d]
    by simp_all
  with made(5) show ?thesis by simp
qed simp

lemma no_session_step:
  assumes "no_session n (sha tok) d" "\<not> makes_token sha n tok x"
  shows "no_session n (sha tok) (db_step sha lower ch d x)"
proof (cases x)
  case (OpCreateInvite ck draws role expires inviter)
  show ?thesis
  proof (cases "create_invite lower ch ck draws role expires inviter d")
    case (Some r)
    with OpCreateInvite assms create_invite_fields [of lower ch ck draws role expires inviter d "fst r" "snd r"]
    show ?thesis by (simp add: no_session_def case_prod_beta)
  qed (use OpCreateInvite assms in simp)
next
  case (OpResolve now tok)
  with assms show ?thesis
    by (auto simp: no_session_def resolve_auth_token_def Let_def list_all_iff split: option.split)
next
  case (OpRedeem ck h m pw code st nts)
  with assms show ?thesis
    by (auto simp: no_session_def create_user_with_invite_def case_prod_beta split: sum.split)
qed (use assms in \<open>auto simp: no_session_def makes_token_def account_call_defs case_prod_beta Let_def list_all_iff
      create_auth_token_def revoke_auth_token_def revoke_user_auth_tokens_def prune_expired_auth_tokens_def
      delete_invite_def cleanup_expired_invites_def split: option.splits sum.splits if_splits\<close>)

lemma no_session_run:
  "no_session n (sha tok) d \<Longrightarrow> list_all (\<lambda>x. \<not> makes_token sha n tok x) xs \<Longrightarrow>
     no_session n (sha tok) (db_run sha lower ch d xs)"
  by (induction xs arbitrary: d) (auto intro: no_session_step)

text \<open>
  C14: signing out is final: after a password change that took place, a deletion that was not
  refused or a sign-out everywhere, no token made before names the account any more, whatever
  is called afterwards: not even when the account is restored, made anew or signed in again, as
  long as none of the new random tokens has the hash of the old one.
\<close>

theorem sessions_end:
  assumes "fst (update_user_password h n pw d) = Inr True \<and> e = snd (update_user_password h n pw d) \<or>
      fst (delete_user_with n keep d) = Inr gone \<and> e = snd (delete_user_with n keep d) \<or>
      e = snd (revoke_user_auth_tokens n d)"
    and "list_all (\<lambda>x. \<not> makes_token sha n tok x) xs"
    and "fst (resolve_auth_token sha now tok (db_run sha lower ch e xs)) = Some u"
  shows "us_name u \<noteq> n"
proof -
  have "no_session n (sha tok) e" using assms(1)
    by (auto simp: no_session_def list_all_iff revoke_user_auth_tokens_def update_user_password_def
        delete_user_with_def case_prod_beta Let_def split: option.splits if_splits)
  from no_session_run [OF this assms(2), of lower ch] resolved_token [OF assms(3)] show ?thesis
    by (auto simp: no_session_def list_all_iff)
qed

definition sample_session :: db where
  "sample_session = sample_run (sample_ops @ [OpCreateToken ''t'' 5 ''root'' Web [] None])"

lemma sample_session_live:
  "fst (update_user_password (Some ''new'') ''root'' ''password456'' sample_session) = Inr True"
  "map_option us_name (fst (resolve_auth_token (\<lambda>x. x) 7 ''t'' sample_session)) = Some ''root''"
  by code_simp+

definition resumed_session :: db where
  "resumed_session = db_run (\<lambda>x. x) (\<lambda>x. x) sample_chrono
     (snd (update_user_password (Some ''new'') ''root'' ''password456'' sample_session))
     [OpCreateToken ''t2'' 6 ''root'' Web [] None]"

lemma resumed_session_live:
  "map_option us_name (fst (resolve_auth_token (\<lambda>x. x) 7 ''t2'' resumed_session)) = Some ''root''"
  "map_option us_name (fst (resolve_auth_token (\<lambda>x. x) 7 ''t'' resumed_session)) \<in> {None, Some ''root''}"
  by code_simp+

theorem sessions_end_witness:
  "fst (resolve_auth_token (\<lambda>x. x) 7 ''t'' resumed_session) = None"
proof (rule ccontr)
  assume "fst (resolve_auth_token (\<lambda>x. x) 7 ''t'' resumed_session) \<noteq> None"
  then obtain u where u: "fst (resolve_auth_token (\<lambda>x. x) 7 ''t'' resumed_session) = Some u" by auto
  with resumed_session_live(2) have "us_name u = ''root''" by simp
  moreover have "us_name u \<noteq> ''root''"
    using sessions_end [where xs = "[OpCreateToken ''t2'' 6 ''root'' Web [] None]" and d = sample_session
        and sha = "\<lambda>x. x" and n = "''root''" and tok = "''t''"] sample_session_live(1) u
    by (fastforce simp: makes_token_def resumed_session_def)
  ultimately show False by simp
qed

section \<open>Invites\<close>

definition same_tables :: "db \<Rightarrow> db \<Rightarrow> bool" where
  "same_tables d e \<longleftrightarrow>
     users e = users d \<and> next_id e = next_id d \<and> tokens e = tokens d \<and> invites e = invites d \<and>
     next_invite e = next_invite d \<and> audits e = audits d \<and> next_audit e = next_audit d"

lemma validate_role:
  assumes "invite_rows_ok (invites d)" "validate_invite ch now code d = Some nv"
  shows "\<exists>r. find_invite code d = Some r \<and> iv_role r = role_as_str (nv_role nv) \<and> nv_role nv \<in> set invitable_roles"
proof -
  obtain r where r: "find_invite code d = Some r" "into_invite r = Inr nv"
    using assms(2) by (auto simp: validate_invite_def get_invite_def split: option.splits sum.splits if_splits)
  with assms(1) find_invite_code [OF r(1)] obtain role where
    "iv_role r = role_as_str role" "role \<in> set invitable_roles" by (auto simp: invite_rows_ok_def)
  with r show ?thesis by (auto simp: into_invite_def role_read_back)
qed

lemma consume_one:
  assumes "consume_invite nt code n d = (1, e)" "invite_rows_ok (invites d)"
  shows "\<exists>r. find_invite code d = Some r \<and> iv_used_by r = None"
proof (cases "find_invite code d")
  case None
  then have "code \<notin> iv_code ` set (invites d)" by (simp add: find_invite_None)
  then have "filter (\<lambda>r. iv_code r = code \<and> iv_used_by r = None) (invites d) = []" by (auto simp: filter_empty_conv)
  with assms(1) show ?thesis by (simp add: consume_invite_def Let_def)
next
  case (Some r)
  with consume_fst [OF assms(2) Some, of nt n] assms(1) show ?thesis by (cases "iv_used_by r") auto
qed

lemma redeem_effect:
  assumes "db_ok d" "create_user_with_invite ch ck h n pw code st nts d = (res, e)"
  shows "(case res of
      Inl _ \<Rightarrow> same_tables d e
    | Inr (uid, role) \<Rightarrow>
        find_user n d = None \<and> validate_username n = None \<and> validate_password pw = None \<and> role \<in> set invitable_roles \<and>
        (\<exists>r. find_invite code d = Some r \<and> iv_used_by r = None \<and> iv_role r = role_as_str role \<and>
             find_invite code e = Some (mark_used (ck_text ck) n r)) \<and>
        (\<forall>c. c \<noteq> code \<longrightarrow> find_invite c e = find_invite c d) \<and> tokens e = tokens d \<and>
        users e = users d @ [\<lparr>ur_id = uid, ur_name = n, ur_hash = the h, ur_role = role_as_str role,
                             ur_status = status_as_str st, ur_notes = nts, ur_created = ck_text ck\<rparr>])"
proof (cases "new_account_hash n pw h")
  case (Inl x)
  with assms(2) show ?thesis by (auto simp: create_user_with_invite_def same_tables_def)
next
  case (Inr hash)
  then have valid: "validate_username n = None" "validate_password pw = None" "the h = hash"
    by (auto simp: new_account_hash_def split: if_splits option.splits)
  show ?thesis
  proof (cases rule: redeem_in_cases [of ch ck n hash code st nts d])
    case (refused x)
    with Inr assms(2) show ?thesis by (auto simp: create_user_with_invite_def same_tables_def)
  next
    case (made nv i j)
    have inv: "invite_rows_ok (invites d)" using assms(1) by (simp add: db_ok_def)
    have i: "invites i = invites d" "users i = users d @ [\<lparr>ur_id = next_id d, ur_name = n, ur_hash = hash,
         ur_role = role_as_str (nv_role nv), ur_status = status_as_str st, ur_notes = nts, ur_created = ck_text ck\<rparr>]"
      using made(2,4) by (auto simp: insert_user_def)
    have fi: "find_invite c i = find_invite c d" for c by (simp add: find_invite_def i)
    obtain r where r: "find_invite code d = Some r" "iv_used_by r = None"
      using consume_one [OF made(3)] inv i(1) fi by auto
    from validate_role [OF inv made(1)] r(1) have role: "iv_role r = role_as_str (nv_role nv)" "nv_role nv \<in> set invitable_roles"
      by auto
    have e: "res = Inr (next_id d, nv_role nv)" "users e = users j" "invites e = invites j" "tokens e = tokens j"
      using Inr assms(2) made(5) by (auto simp: create_user_with_invite_def)
    have j: "users j = users i" "tokens j = tokens d"
      using consume_invite_fields(1,3) [of "ck_text ck" code n i] made(3)
        insert_user_tokens [of "ck_text ck" n hash "nv_role nv" st nts d] made(2) by simp_all
    have "find_invite c e = bk_inv (book_of j) c" for c using e(3) by (simp add: find_invite_def)
    moreover have "bk_inv (book_of j) = on_entry (bk_inv (book_of i)) code (mark_used (ck_text ck) n)"
      using consume_none [of code i r "ck_text ck" n] made(3) r fi by simp
    ultimately have inve: "find_invite c e = on_entry (bk_inv (book_of d)) code (mark_used (ck_text ck) n) c" for c
      by (simp add: on_entry_def fi)
    show ?thesis using e j i made(4) valid role r inve by (auto simp: on_entry_def)
  qed
qed

text \<open>
  registering with an invite happens whole or not at all: an error leaves every table as it
  was; otherwise exactly one account is added, under a free valid name, with a role an invite
  may carry and the invite was made for, and exactly that invite, unused until then, is marked
  as used by it. No token is made.
\<close>

theorem redeem_all_or_nothing:
  assumes "db_ok d" "create_user_with_invite ch ck h n pw code st nts d = (res, e)"
  shows "(case res of
      Inl _ \<Rightarrow> same_tables d e
    | Inr (uid, role) \<Rightarrow>
        find_user n d = None \<and> validate_username n = None \<and> validate_password pw = None \<and> role \<in> set invitable_roles \<and>
        (\<exists>r. find_invite code d = Some r \<and> iv_used_by r = None \<and> iv_role r = role_as_str role \<and>
             find_invite code e = Some (mark_used (ck_text ck) n r)) \<and>
        (\<forall>c. c \<noteq> code \<longrightarrow> find_invite c e = find_invite c d) \<and> tokens e = tokens d \<and>
        users e = users d @ [\<lparr>ur_id = uid, ur_name = n, ur_hash = the h, ur_role = role_as_str role,
                             ur_status = status_as_str st, ur_notes = nts, ur_created = ck_text ck\<rparr>])"
  using redeem_effect [OF assms] .

definition sample_guest :: "db_op list" where
  "sample_guest = sample_ops @ [OpCreateInvite sample_clock [''-x'', ''code''] Uploader ''365d'' (Some ''root'')]"

definition sample_redeem :: "(db_error + nat \<times> role) \<times> db" where
  "sample_redeem = create_user_with_invite sample_chrono sample_clock (Some ''h'') ''guest'' ''password123'' ''code'' Active []
     (sample_run sample_guest)"

lemma sample_redeemed: "fst sample_redeem = Inr (3, Uploader)"
  by code_simp

theorem redeem_all_or_nothing_witness:
  "\<exists>r. find_invite ''code'' (sample_run sample_guest) = Some r \<and>
       find_invite ''code'' (snd sample_redeem) = Some (mark_used (ck_text sample_clock) ''guest'' r)"
  using redeem_all_or_nothing [OF sample_ok, of sample_chrono sample_clock "Some ''h''" "''guest''" "''password123''"
      "''code''" Active "[]" "sample_guest" "fst sample_redeem" "snd sample_redeem"] sample_redeemed
  by (auto simp: sample_redeem_def)

text \<open>A used code stays used, or goes away, unless a later invite draws the same code.\<close>

definition draws_code :: "string \<Rightarrow> db_op \<Rightarrow> bool" where
  "draws_code c x \<longleftrightarrow> (case x of OpCreateInvite _ draws _ _ _ \<Rightarrow> draw_code draws = Some c | _ \<Rightarrow> False)"

definition spent :: "string \<Rightarrow> book \<Rightarrow> bool" where
  "spent c b \<longleftrightarrow> (case bk_inv b c of Some r \<Rightarrow> iv_used_by r \<noteq> None | None \<Rightarrow> True)"

lemma spent_cong: "bk_inv b' c = bk_inv b c \<Longrightarrow> spent c b' = spent c b"
  by (simp add: spent_def)

lemma spent_acc [simp]:
  "spent c (edit_account n f b) = spent c b" "spent c (edit_guarded n g f b) = spent c b"
  "spent c (open_account nt n hash role st nts b) = spent c b"
  by (auto intro!: spent_cong simp: edit_account_def edit_guarded_def open_account_def)

lemma spent_mark: "spent c b \<Longrightarrow> spent c (b'\<lparr>bk_inv := on_entry (bk_inv b) code (mark_used nt n)\<rparr>)"
  by (auto simp: spent_def on_entry_def mark_used_def split: option.splits)

lemma book_step_spent:
  assumes "spent c b" "\<not> draws_code c x"
  shows "spent c (book_step lower ch b x)"
proof (cases x)
  case (OpCreateInvite ck draws role expires inviter)
  with assms show ?thesis by (auto simp: draws_code_def spent_def split: option.splits sum.splits)
next
  case (OpCleanup now)
  with assms show ?thesis by (auto simp: spent_def split: option.splits)
next
  case (OpDeleteInvite code)
  with assms show ?thesis by (auto simp: spent_def split: option.splits)
qed (use assms in \<open>auto intro: spent_mark split: option.split sum.split\<close>)

text \<open>
  C8: an invite makes at most one account: once it has been redeemed, every further
  registration with its code, after any other calls and by whomever, is refused and adds no
  account (as long as no new invite draws the same random code).
\<close>

theorem invite_redeemed_once:
  assumes "db_ok d" "create_user_with_invite ch ck h n pw code st nts d = (Inr (uid, role), e)"
    and "list_all (\<lambda>x. \<not> draws_code code x) xs"
    and "create_user_with_invite ch' ck' h' n' pw' code st' nts' (db_run sha lower ch e xs) = (res, f)"
  shows "(\<exists>err. res = Inl err) \<and> same_tables (db_run sha lower ch e xs) f"
proof -
  let ?g = "db_run sha lower ch e xs"
  have ok: "db_ok e" using db.step_inv [OF assms(1), of sha lower ch "OpRedeem ck h n pw code st nts"] assms(2) by simp
  have okg: "db_ok ?g" by (rule db.run_inv [OF ok])
  obtain r where r: "find_invite code e = Some (mark_used (ck_text ck) n r)"
    using redeem_effect [OF assms(1,2)] by auto
  have "spent code (book_of ?g)"
  proof (rule run_book [OF ok])
    show "spent code (book_of e)" using r by (simp add: spent_def mark_used_def)
  qed (use assms(3) in \<open>auto simp: list_all_iff intro: book_step_spent\<close>)
  then show ?thesis
    using redeem_effect [OF okg assms(4)] by (auto simp: spent_def split: sum.splits prod.splits)
qed

theorem invite_redeemed_once_witness:
  "\<exists>err. fst (create_user_with_invite sample_chrono sample_clock (Some ''h'') ''other'' ''password123'' ''code'' Active []
     (snd sample_redeem)) = Inl err"
proof -
  have "create_user_with_invite sample_chrono sample_clock (Some ''h'') ''guest'' ''password123'' ''code'' Active []
     (sample_run sample_guest) = (Inr (3, Uploader), snd sample_redeem)"
    using sample_redeemed unfolding sample_redeem_def by (metis prod.collapse)
  from invite_redeemed_once [OF sample_ok this, where xs = "[]"] show ?thesis
    by (metis foldl_Nil list.pred_inject(1) prod.collapse)
qed

section \<open>How long an invite is good\<close>

lemma parse_duration_positive:
  assumes "chrono_laws ch" "parse_duration lower ch s = Inr dur"
  shows "0 < dur"
proof -
  from assms(2) obtain v where "0 < v"
    "try_hours ch v = Some dur \<or> try_days ch v = Some dur \<or> try_weeks ch v = Some dur"
    by (auto simp: parse_duration_def Let_def case_prod_beta not_le split: if_splits option.splits)
  with assms(1) have "dur = v * 3600 \<or> dur = v * 86400 \<or> dur = v * 604800"
    unfolding chrono_laws_def by blast
  with \<open>0 < v\<close> show ?thesis by auto
qed

text \<open>
  Adding a whole number of seconds to a date-time chrono can hold, of year 1 or later, gives one
  that is of year 1 or later again, or is out of range.
\<close>

definition chrono_sums :: "chrono \<Rightarrow> bool" where
  "chrono_sums ch \<longleftrightarrow>
     (\<forall>t n s. naive_ok ch t \<and> 1 \<le> nd_year t \<and> 0 \<le> n \<and> add_seconds ch t n = Some s \<longrightarrow>
        naive_ok ch s \<and> 1 \<le> nd_year s)"

text \<open>
  C36: an invite just created is good from then until the moment its duration ends on the local
  clock, that moment included, and not later, although its end is stored as text and read back:
  but one whose end lies beyond the year 9999, which is accepted, is never good. The clock shows
  a date of year 1 or later, and chrono is as documented (\<open>chrono_laws\<close>, \<open>chrono_sums\<close>).
\<close>

theorem invite_valid_until:
  assumes "chrono_laws ch" "chrono_sums ch" "naive_ok ch (ck_local ck)" "1 \<le> nd_year (ck_local ck)"
    and "create_invite lower ch ck draws role expires inviter d = Some (Inr code, e)"
  shows "\<exists>dur expiry. parse_duration lower ch expires = Inr dur \<and> 0 < dur \<and>
     add_seconds ch (ck_local ck) dur = Some expiry \<and>
     (\<forall>now. validate_invite ch now code e \<noteq> None \<longleftrightarrow> nd_year expiry \<le> 9999 \<and> naive_le now expiry)"
  using assms(5)
proof (cases rule: create_invite_cases)
  case (made code' dur expiry r)
  have dur: "0 < dur" by (rule parse_duration_positive [OF assms(1) made(4)])
  from made have f: "find_invite code e = Some r"
    by (auto simp: find_invite_def find_snoc find_None_iff split: option.split dest: find_Some_mem)
  have into: "into_invite r = Inr \<lparr>nv_id = iv_id r, nv_code = iv_code r, nv_role = role, nv_created = iv_created r,
      nv_expires = isoformat ch expiry, nv_used_by = None, nv_invited_by = iv_invited_by r\<rparr>"
    by (simp add: into_invite_def made role_read_back)
  have "naive_ok ch expiry" "1 \<le> nd_year expiry"
    using assms(2-4) made(5) dur unfolding chrono_sums_def by (meson less_imp_le)+
  from iso_roundtrip [OF assms(1) this]
  have "validate_invite ch now code e \<noteq> None \<longleftrightarrow> nd_year expiry \<le> 9999 \<and> naive_le now expiry" for now
    by (simp add: validate_invite_def get_invite_def f into invite_status_of_def expires_at_local_def)
  with made(4,5) dur show ?thesis by blast
qed simp

text \<open>
  A chrono on which the theorem runs: the Gregorian calendar, counted day by day up to chrono's
  last year, and sums that carry the seconds of the day. Week dates, which no stored end has, are
  left out.
\<close>

definition leap_year :: "int \<Rightarrow> bool" where
  "leap_year y \<longleftrightarrow> y mod 4 = 0 \<and> (y mod 100 \<noteq> 0 \<or> y mod 400 = 0)"

definition month_days :: "int \<Rightarrow> nat \<Rightarrow> nat" where
  "month_days y m =
     (if m = 2 then (if leap_year y then 29 else 28) else if List.member [4, 6, 9, 11] m then 30 else 31)"

definition calendar_day :: "int \<Rightarrow> nat \<Rightarrow> nat \<Rightarrow> bool" where
  "calendar_day y m d \<longleftrightarrow> 1 \<le> m \<and> m \<le> 12 \<and> 1 \<le> d \<and> d \<le> month_days y m"

definition next_day :: "naive \<Rightarrow> naive" where
  "next_day t =
     (if nd_day t < month_days (nd_year t) (nd_month t) then t\<lparr>nd_day := nd_day t + 1\<rparr>
      else if nd_month t < 12 then t\<lparr>nd_month := nd_month t + 1, nd_day := 1\<rparr>
      else t\<lparr>nd_year := nd_year t + 1, nd_month := 1, nd_day := 1\<rparr>)"

definition calendar_add :: "naive \<Rightarrow> int \<Rightarrow> naive option" where
  "calendar_add t n =
     (let total = n + int (nd_hour t) * 3600 + int (nd_minute t) * 60 + int (nd_second t);
          rest = total mod 86400;
          u = (next_day ^^ (nat (total div 86400))) t
      in if total < 0 \<or> nd_year u > 262142 then None
         else Some (u\<lparr>nd_hour := nat (rest div 3600), nd_minute := nat (rest mod 3600 div 60),
                      nd_second := nat (rest mod 60)\<rparr>))"

definition calendar_chrono :: chrono where
  "calendar_chrono = sample_chrono
     \<lparr>ymd_ok := calendar_day, add_seconds := calendar_add,
      year_text := (\<lambda>y. if 0 \<le> y \<and> y \<le> 9999 then pad 4 (nat y)
        else (if y < 0 then CHR ''-'' else CHR ''+'') # pad 4 (nat \<bar>y\<bar>))\<rparr>"

lemma month_days_bounds: "28 \<le> month_days y m" "month_days y m \<le> 31"
  by (simp_all add: month_days_def)

lemma next_day_ok:
  assumes "naive_ok calendar_chrono t"
  shows "naive_ok calendar_chrono (next_day t) \<and> nd_year t \<le> nd_year (next_day t)"
proof -
  have "1 \<le> month_days y m" for y m using month_days_bounds(1) [of y m] by simp
  moreover have "nd_day t < month_days (nd_year t) (nd_month t) \<Longrightarrow> nd_day t < 99"
    using month_days_bounds(2) [of "nd_year t" "nd_month t"] by simp
  ultimately show ?thesis
    using assms by (auto simp: naive_ok_def calendar_chrono_def calendar_day_def next_day_def)
qed

lemma next_days_ok:
  "naive_ok calendar_chrono t \<Longrightarrow>
     naive_ok calendar_chrono ((next_day ^^ k) t) \<and> nd_year t \<le> nd_year ((next_day ^^ k) t)"
  by (induction k) (auto dest: next_day_ok)

lemma calendar_add_ok:
  assumes "naive_ok calendar_chrono t" "calendar_add t n = Some s"
  shows "naive_ok calendar_chrono s \<and> nd_year t \<le> nd_year s"
proof -
  define total where "total = n + int (nd_hour t) * 3600 + int (nd_minute t) * 60 + int (nd_second t)"
  define u where "u = (next_day ^^ (nat (total div 86400))) t"
  define rest where "rest = total mod 86400"
  have s: "s = u\<lparr>nd_hour := nat (rest div 3600), nd_minute := nat (rest mod 3600 div 60),
      nd_second := nat (rest mod 60)\<rparr>"
    using assms(2) unfolding calendar_add_def Let_def total_def [symmetric] u_def [symmetric] rest_def [symmetric]
    by (simp split: if_splits)
  have "rest < 86400" by (simp add: rest_def)
  then have "nat (rest div 3600) < 24" "nat (rest mod 3600 div 60) < 60" "nat (rest mod 60) < 60"
    by linarith+
  moreover have "naive_ok calendar_chrono u \<and> nd_year t \<le> nd_year u"
    unfolding u_def by (rule next_days_ok [OF assms(1)])
  ultimately show ?thesis by (simp add: s naive_ok_def)
qed

lemma calendar_chrono_laws: "chrono_laws calendar_chrono" "chrono_sums calendar_chrono"
proof -
  show "chrono_laws calendar_chrono"
    by (simp add: chrono_laws_def calendar_chrono_def sample_chrono_def)
  have "add_seconds calendar_chrono = calendar_add" by (simp add: calendar_chrono_def)
  then show "chrono_sums calendar_chrono"
    unfolding chrono_sums_def using calendar_add_ok by (metis order_trans)
qed

definition clock_at :: "int \<Rightarrow> nat \<Rightarrow> nat \<Rightarrow> clock" where
  "clock_at y m d = sample_clock\<lparr>ck_local := sample_time\<lparr>nd_year := y, nd_month := m, nd_day := d\<rparr>\<rparr>"

abbreviation calendar_invite :: "int \<Rightarrow> nat \<Rightarrow> nat \<Rightarrow> string \<Rightarrow> ((db_error + string) \<times> db) option" where
  "calendar_invite y m d dur \<equiv>
     create_invite (\<lambda>x. x) calendar_chrono (clock_at y m d) [''code''] Uploader dur None empty_db"

lemma clock_at_ok:
  "calendar_day y m d \<Longrightarrow> d \<le> 31 \<Longrightarrow> naive_ok calendar_chrono (ck_local (clock_at y m d))"
  "nd_year (ck_local (clock_at y m d)) = y"
  by (auto simp: clock_at_def naive_ok_def calendar_chrono_def calendar_day_def sample_time_def)

lemma calendar_durations:
  "parse_duration (\<lambda>x. x) calendar_chrono ''1w'' = Inr 604800"
  "parse_duration (\<lambda>x. x) calendar_chrono ''48h'' = Inr 172800"
  "calendar_day 2028 2 25" "calendar_day 9999 12 30" "draw_code [''code''] = Some ''code''"
  by code_simp+

lemma calendar_sums:
  "calendar_add (ck_local (clock_at 2028 2 25)) 604800 = Some (ck_local (clock_at 2028 3 3))"
  "map_option nd_year (calendar_add (ck_local (clock_at 9999 12 30)) 172800) = Some 10000"
  by (simp_all add: calendar_add_def clock_at_def sample_time_def numeral_eq_Suc next_day_def month_days_def
      leap_year_def)

lemma calendar_invites:
  "map_option fst (calendar_invite 2028 2 25 ''1w'') = Some (Inr ''code'')"
  "map_option fst (calendar_invite 9999 12 30 ''48h'') = Some (Inr ''code'')"
  using calendar_durations calendar_sums
  by (auto simp: create_invite_def invitable_roles_def calendar_chrono_def empty_db_def)

theorem invite_valid_until_witness:
  "\<exists>e f. calendar_invite 2028 2 25 ''1w'' = Some (Inr ''code'', e) \<and>
         (\<forall>now. validate_invite calendar_chrono now ''code'' e \<noteq> None \<longleftrightarrow> naive_le now (ck_local (clock_at 2028 3 3))) \<and>
         calendar_invite 9999 12 30 ''48h'' = Some (Inr ''code'', f) \<and>
         (\<forall>now. validate_invite calendar_chrono now ''code'' f = None)"
proof -
  have add: "add_seconds calendar_chrono = calendar_add" by (simp add: calendar_chrono_def)
  from calendar_invites obtain e f where
    e: "calendar_invite 2028 2 25 ''1w'' = Some (Inr ''code'', e)" and
    f: "calendar_invite 9999 12 30 ''48h'' = Some (Inr ''code'', f)"
    by auto
  have "\<forall>now. validate_invite calendar_chrono now ''code'' e \<noteq> None \<longleftrightarrow> naive_le now (ck_local (clock_at 2028 3 3))"
    using invite_valid_until [OF calendar_chrono_laws clock_at_ok(1) _ e] calendar_durations(1,3) calendar_sums(1)
    by (simp add: clock_at_ok(2) add)
  moreover have "\<forall>now. validate_invite calendar_chrono now ''code'' f = None"
    using invite_valid_until [OF calendar_chrono_laws clock_at_ok(1) _ f] calendar_durations(2,4) calendar_sums(2)
    by (auto simp: clock_at_ok(2) add)
  ultimately show ?thesis using e f by blast
qed

end
