(* ===== verification/Db_Uploads.thy ===== *)
theory Db_Uploads
  imports Db_Accounts
begin

text \<open>
  \<open>bunko-db/src/uploads.rs\<close>: who uploaded a volume, and what follows: who may delete or
  replace its files and who may edit its series. The table is a list of rows. Parameters:
  \<open>lower\<close> (\<open>char::to_lowercase\<close> of one character), \<open>lower_str\<close> (\<open>str::to_lowercase\<close>) and
  \<open>nfc\<close> (Unicode normalisation). Texts are UTF-8; \<open>chars\<close> cuts them into characters.
\<close>

record volume_row =
  vu_key :: string
  vu_user :: string
  vu_at :: string
  vu_modified_by :: "string option"
  vu_modified_at :: string

section \<open>Keys\<close>

function chars :: "string \<Rightarrow> string list" where
  "chars [] = []"
| "chars (b # bs) = (b # takeWhile cont_byte bs) # chars (dropWhile cont_byte bs)"
  by pat_completeness auto
termination
  by (relation "measure length") (auto simp: le_imp_less_Suc length_dropWhile_le)

definition strip_suffix_ci :: "(string \<Rightarrow> string) \<Rightarrow> string \<Rightarrow> string \<Rightarrow> string option" where
  "strip_suffix_ci lower s suffix =
     (let cs = chars s; n = length (chars suffix) in
      if length cs < n then None
      else if list_all2 (\<lambda>c want. lower c = want) (drop (length cs - n) cs) (chars suffix)
      then Some (concat (take (length cs - n) cs)) else None)"

definition normalize_volume_key :: "(string \<Rightarrow> string) \<Rightarrow> string \<Rightarrow> string option" where
  "normalize_volume_key lower path =
     (let cleaned = trim_c CHR ''/'' path in
      if cleaned = [] then None
      else if strip_suffix_ci lower cleaned ''.cbz'' \<noteq> None then Some cleaned
      else
        (case List.map_filter (strip_suffix_ci lower cleaned) [''.mokuro.gz'', ''.mokuro'', ''.webp'', ''.nocover''] of
           [] \<Rightarrow> None
         | stem # _ \<Rightarrow> Some (stem @ ''.cbz'')))"

definition strip_suffix :: "string \<Rightarrow> string \<Rightarrow> string option" where
  "strip_suffix suf s = map_option rev (strip_prefix (rev suf) (rev s))"

definition layer_ok :: "string \<Rightarrow> bool" where
  "layer_ok layer \<longleftrightarrow> 1 \<le> length layer \<and> length layer \<le> 32 \<and>
     list_all (\<lambda>b. is_ascii_lower b \<or> is_ascii_digit b \<or> b = CHR ''-'') layer \<and> list_ex is_ascii_lower layer"

definition layer_sidecar_volume_path :: "string \<Rightarrow> string option" where
  "layer_sidecar_volume_path path =
     (let name = (case strip_suffix ''.gz'' path of Some s \<Rightarrow> s | None \<Rightarrow> path) in
      case strip_suffix ''.mokuro'' name of
        None \<Rightarrow> None
      | Some middle \<Rightarrow>
          (case rsplit_once_c CHR ''.'' middle of
             None \<Rightarrow> None
           | Some (stem, layer) \<Rightarrow>
               if stem = [] \<or> \<not> layer_ok layer \<or> CHR ''/'' \<in> set layer then None else Some (stem @ ''.cbz'')))"

text \<open>White space runs become one space; \<open>in_space\<close> is the loop's flag.\<close>

fun collapse :: "bool \<Rightarrow> string list \<Rightarrow> string list" where
  "collapse in_space [] = []"
| "collapse in_space (c # cs) =
     (if c \<in> set py_spaces then (if in_space then collapse True cs else '' '' # collapse True cs)
      else c # collapse False cs)"

definition fold_series_title_key :: "(string \<Rightarrow> string) \<Rightarrow> (string \<Rightarrow> string) \<Rightarrow> string \<Rightarrow> string" where
  "fold_series_title_key nfc lower_str title =
     lower_str (concat (collapse False (chars (py_strip (nfc title)))))"

section \<open>The table\<close>

definition is_archive :: "(string \<Rightarrow> string) \<Rightarrow> string \<Rightarrow> bool" where
  "is_archive lower path \<longleftrightarrow> strip_suffix_ci lower (trim_c CHR ''/'' path) ''.cbz'' \<noteq> None"

definition stamp_rows :: "string \<Rightarrow> string \<Rightarrow> string \<Rightarrow> volume_row list \<Rightarrow> volume_row list" where
  "stamp_rows now key user t =
     map (\<lambda>r. if vu_key r = key then r\<lparr>vu_modified_by := Some user, vu_modified_at := now\<rparr> else r) t"

definition record_volume_upload ::
  "(string \<Rightarrow> string) \<Rightarrow> string \<Rightarrow> string \<Rightarrow> string \<Rightarrow> volume_row list \<Rightarrow> volume_row list" where
  "record_volume_upload lower now path user t =
     (case normalize_volume_key lower path of
        None \<Rightarrow> t
      | Some key \<Rightarrow>
          if is_archive lower path \<and> key \<notin> vu_key ` set t
          then t @ [\<lparr>vu_key = key, vu_user = user, vu_at = now, vu_modified_by = Some user, vu_modified_at = now\<rparr>]
          else stamp_rows now key user t)"

definition owner_of :: "string \<Rightarrow> volume_row list \<Rightarrow> string option" where
  "owner_of key t = map_option vu_user (find (\<lambda>r. vu_key r = key) t)"

definition get_volume_owner :: "(string \<Rightarrow> string) \<Rightarrow> string \<Rightarrow> volume_row list \<Rightarrow> string option" where
  "get_volume_owner lower path t =
     (case normalize_volume_key lower path of None \<Rightarrow> None | Some key \<Rightarrow> owner_of key t)"

definition can_user_delete_library_path :: "(string \<Rightarrow> string) \<Rightarrow> string \<Rightarrow> string \<Rightarrow> volume_row list \<Rightarrow> bool" where
  "can_user_delete_library_path lower user virtual_path t =
     (case strip_prefix ''/mokuro-reader/'' virtual_path of
        None \<Rightarrow> False
      | Some rst \<Rightarrow>
          let relative = trim_c CHR ''/'' rst in
          if relative = [] \<or> (CHR ''/'' \<notin> set relative \<and> CHR ''.'' \<notin> set relative) then False
          else
            let owner = get_volume_owner lower relative t;
                owner = (case owner of
                           Some _ \<Rightarrow> owner
                         | None \<Rightarrow>
                             (case layer_sidecar_volume_path relative of
                                Some parent \<Rightarrow> get_volume_owner lower parent t
                              | None \<Rightarrow> None))
            in owner = Some user)"

definition folder_owners :: "volume_row list \<Rightarrow> (string \<times> string) list" where
  "folder_owners t =
     List.map_filter (\<lambda>(user, key). map_option (\<lambda>(folder, _). (folder, user)) (split_once_c CHR ''/'' key))
       (remdups (map (\<lambda>r. (vu_user r, vu_key r)) t))"

definition series_owners ::
  "(string \<Rightarrow> string) \<Rightarrow> (string \<Rightarrow> string) \<Rightarrow> string \<Rightarrow> volume_row list \<Rightarrow> string set" where
  "series_owners nfc lower_str title t =
     (let prefix = trim_c CHR ''/'' title in
      if prefix = [] then {}
      else
        let target = fold_series_title_key nfc lower_str prefix in
        set (map snd (filter (\<lambda>(folder, _). fold_series_title_key nfc lower_str folder = target) (folder_owners t))))"

definition can_user_edit_series ::
  "(string \<Rightarrow> string) \<Rightarrow> (string \<Rightarrow> string) \<Rightarrow> string \<Rightarrow> string \<Rightarrow> volume_row list \<Rightarrow> bool" where
  "can_user_edit_series nfc lower_str user title t =
     (let owners = series_owners nfc lower_str title t in card owners = 1 \<and> user \<in> owners)"

text \<open>\<open>by_key\<close>: for each folded name the owners and the spellings seen so far.\<close>

definition add_owned ::
  "(string \<Rightarrow> string) \<Rightarrow> (string \<times> string) \<Rightarrow> (string \<Rightarrow> (string set \<times> string set) option) \<Rightarrow>
     (string \<Rightarrow> (string set \<times> string set) option)" where
  "add_owned fld fo by_key =
     (case fo of (folder, owner) \<Rightarrow>
        let (owners, folders) = (case by_key (fld folder) of Some e \<Rightarrow> e | None \<Rightarrow> ({}, {}))
        in by_key(fld folder \<mapsto> (insert owner owners, insert folder folders)))"

definition list_series_owned_by ::
  "(string \<Rightarrow> string) \<Rightarrow> (string \<Rightarrow> string) \<Rightarrow> string \<Rightarrow> volume_row list \<Rightarrow> string list" where
  "list_series_owned_by nfc lower_str user t =
     (let by_key = fold (add_owned (fold_series_title_key nfc lower_str)) (folder_owners t) Map.empty;
          keys = map (fold_series_title_key nfc lower_str \<circ> fst) (folder_owners t)
      in sorted_list_of_set
           (\<Union>k\<in>set keys. case by_key k of
              Some (owners, folders) \<Rightarrow> if card owners = 1 \<and> user \<in> owners then folders else {}
            | None \<Rightarrow> {}))"

definition forget_volume_upload :: "(string \<Rightarrow> string) \<Rightarrow> string \<Rightarrow> volume_row list \<Rightarrow> volume_row list" where
  "forget_volume_upload lower path t =
     (case normalize_volume_key lower path of None \<Rightarrow> t | Some key \<Rightarrow> filter (\<lambda>r. vu_key r \<noteq> key) t)"

definition under_head :: "string \<Rightarrow> string \<Rightarrow> bool" where
  "under_head head key \<longleftrightarrow> concat (take (length (chars head)) (chars key)) = head"

definition forget_volume_uploads_under_prefix :: "string \<Rightarrow> volume_row list \<Rightarrow> nat \<times> volume_row list" where
  "forget_volume_uploads_under_prefix library_prefix t =
     (let prefix = trim_c CHR ''/'' library_prefix in
      if prefix = [] then (0, t)
      else
        let head = prefix @ ''/'' in
        (length (filter (\<lambda>r. under_head head (vu_key r)) t), filter (\<lambda>r. \<not> under_head head (vu_key r)) t))"

text \<open>\<open>INSERT ... ON CONFLICT(volume_key) DO UPDATE\<close> of every column.\<close>

definition upsert_row :: "volume_row \<Rightarrow> volume_row list \<Rightarrow> volume_row list" where
  "upsert_row m t =
     (if vu_key m \<in> vu_key ` set t then map (\<lambda>x. if vu_key x = vu_key m then m else x) t else t @ [m])"

definition rename_volume_upload ::
  "(string \<Rightarrow> string) \<Rightarrow> string \<Rightarrow> string \<Rightarrow> string \<Rightarrow> volume_row list \<Rightarrow> volume_row list" where
  "rename_volume_upload lower now old new t =
     (case (normalize_volume_key lower old, normalize_volume_key lower new) of
        (Some old_key, Some new_key) \<Rightarrow>
          if old_key = new_key then t
          else
            (case find (\<lambda>r. vu_key r = old_key) t of
               None \<Rightarrow> t
             | Some r \<Rightarrow>
                 let moved = \<lparr>vu_key = new_key, vu_user = vu_user r, vu_at = vu_at r,
                              vu_modified_by = vu_modified_by r, vu_modified_at = now\<rparr>
                 in filter (\<lambda>x. vu_key x \<noteq> old_key) (upsert_row moved t))
      | _ \<Rightarrow> t)"

section \<open>The owner of a volume over time\<close>

datatype upload_op =
    URecord string string string
  | URename string string string
  | UForget string
  | UForgetUnder string

fun upload_step :: "(string \<Rightarrow> string) \<Rightarrow> volume_row list \<Rightarrow> upload_op \<Rightarrow> volume_row list" where
  "upload_step lower t (URecord now path user) = record_volume_upload lower now path user t"
| "upload_step lower t (URename now old new) = rename_volume_upload lower now old new t"
| "upload_step lower t (UForget path) = forget_volume_upload lower path t"
| "upload_step lower t (UForgetUnder prefix) = snd (forget_volume_uploads_under_prefix prefix t)"

fun moves_key :: "(string \<Rightarrow> string) \<Rightarrow> string \<Rightarrow> upload_op \<Rightarrow> bool" where
  "moves_key lower k (URecord _ _ _) \<longleftrightarrow> False"
| "moves_key lower k (URename _ old new) \<longleftrightarrow>
     normalize_volume_key lower old = Some k \<or> normalize_volume_key lower new = Some k"
| "moves_key lower k (UForget path) \<longleftrightarrow> normalize_volume_key lower path = Some k"
| "moves_key lower k (UForgetUnder prefix) \<longleftrightarrow> under_head (trim_c CHR ''/'' prefix @ ''/'') k"

lemma owner_stamp [simp]: "owner_of k (stamp_rows now key user t) = owner_of k t"
  by (induction t) (auto simp: owner_of_def stamp_rows_def)

lemma owner_append: "owner_of k (t @ [r]) = (case owner_of k t of None \<Rightarrow> if vu_key r = k then Some (vu_user r) else None | Some u \<Rightarrow> Some u)"
  by (simp add: owner_of_def find_snoc split: option.split)

lemma owner_None: "owner_of k t = None \<longleftrightarrow> k \<notin> vu_key ` set t"
  by (auto simp: owner_of_def find_None_iff)

lemma owner_filter: "P k \<Longrightarrow> owner_of k (filter (\<lambda>r. P (vu_key r)) t) = owner_of k t"
  by (induction t) (auto simp: owner_of_def)

lemma owner_overwrite:
  "k \<noteq> vu_key m \<Longrightarrow> owner_of k (map (\<lambda>x. if vu_key x = vu_key m then m else x) t) = owner_of k t"
  by (induction t) (auto simp: owner_of_def)

lemma owner_record:
  "owner_of k (record_volume_upload lower now path user t) =
     (if owner_of k t = None \<and> normalize_volume_key lower path = Some k \<and> is_archive lower path then Some user
      else owner_of k t)"
  using owner_None [of k t]
  by (cases "owner_of k t") (auto simp: record_volume_upload_def owner_append split: option.split)

lemma owner_upsert: "k \<noteq> vu_key m \<Longrightarrow> owner_of k (upsert_row m t) = owner_of k t"
  by (auto simp: upsert_row_def owner_overwrite owner_append split: option.split)

lemma owner_rename:
  assumes "\<not> moves_key lower k (URename now old new)"
  shows "owner_of k (rename_volume_upload lower now old new t) = owner_of k t"
proof -
  have "k \<noteq> o' \<Longrightarrow> k \<noteq> vu_key m \<Longrightarrow> owner_of k (filter (\<lambda>x. vu_key x \<noteq> o') (upsert_row m t)) = owner_of k t" for o' m
    using owner_filter [of "\<lambda>x. x \<noteq> o'" k] owner_upsert [of k m t] by simp
  then show ?thesis using assms by (auto simp: rename_volume_upload_def Let_def split: option.split)
qed

lemma owner_kept_step:
  assumes "owner_of k t = Some u" "\<not> moves_key lower k x"
  shows "owner_of k (upload_step lower t x) = Some u"
proof (cases x)
  case (URename now old new)
  with assms owner_rename [of lower k now old new t] show ?thesis by simp
next
  case (UForget path)
  with assms owner_filter [of "\<lambda>y. y \<noteq> the (normalize_volume_key lower path)" k t] show ?thesis
    by (auto simp: forget_volume_upload_def split: option.split)
next
  case (UForgetUnder prefix)
  with assms owner_filter [of "\<lambda>y. \<not> under_head (trim_c CHR ''/'' prefix @ ''/'') y" k t] show ?thesis
    by (auto simp: forget_volume_uploads_under_prefix_def Let_def)
qed (use assms in \<open>simp add: owner_record\<close>)

text \<open>
  the first account to upload a volume's archive owns it, and keeps it: whatever anyone
  uploads, renames or forgets afterwards, in any order, the owner is the same until the volume
  itself is renamed, replaced by a rename or forgotten.
\<close>

theorem uploader_keeps_volume:
  assumes "normalize_volume_key lower path = Some k" "is_archive lower path"
    and "list_all (\<lambda>x. \<not> moves_key lower k x) xs"
  shows "owner_of k (foldl (upload_step lower) (record_volume_upload lower now path u t) xs) =
     (case owner_of k t of Some first \<Rightarrow> Some first | None \<Rightarrow> Some u)"
proof -
  have run: "owner_of k s = Some w \<Longrightarrow> owner_of k (foldl (upload_step lower) s xs) = Some w" for s w
    using assms(3) by (induction xs arbitrary: s) (auto simp: owner_kept_step)
  have "owner_of k (record_volume_upload lower now path u t) =
      Some (case owner_of k t of Some first \<Rightarrow> first | None \<Rightarrow> u)"
    using assms(1,2) by (auto simp: owner_record split: option.split)
  from run [OF this] show ?thesis by (simp split: option.split)
qed

theorem uploader_keeps_volume_witness:
  "owner_of ''S/V.cbz'' (foldl (upload_step (\<lambda>c. c)) (record_volume_upload (\<lambda>c. c) [] ''S/V.cbz'' ''alice'' [])
     [URecord [] ''S/V.cbz'' ''bob'', URecord [] ''S/V.mokuro'' ''bob'', URename [] ''S/W.cbz'' ''S/X.cbz'']) = Some ''alice''"
proof -
  have "normalize_volume_key (\<lambda>c. c) ''S/V.cbz'' = Some ''S/V.cbz''" "is_archive (\<lambda>c. c) ''S/V.cbz''"
    "list_all (\<lambda>x. \<not> moves_key (\<lambda>c. c) ''S/V.cbz'' x)
       [URecord [] ''S/V.cbz'' ''bob'', URecord [] ''S/V.mokuro'' ''bob'', URename [] ''S/W.cbz'' ''S/X.cbz'']"
    by code_simp+
  from uploader_keeps_volume [OF this, of "[]" "''alice''" "[]"] show ?thesis by (simp add: owner_of_def)
qed

section \<open>The files of a volume\<close>

lemma concat_chars [simp]: "concat (chars s) = s"
  by (induction s rule: chars.induct) auto

lemma chars_append:
  assumes "b = [] \<or> \<not> cont_byte (hd b)"
  shows "chars (a @ b) = chars a @ chars b"
proof (induction a rule: chars.induct)
  case (2 x xs)
  have "takeWhile cont_byte (xs @ b) = takeWhile cont_byte xs \<and> dropWhile cont_byte (xs @ b) = dropWhile cont_byte xs @ b"
    using assms by (induction xs) (cases b, auto)+
  with 2 show ?case by simp
qed simp

definition ascii :: "string \<Rightarrow> bool" where
  "ascii s \<longleftrightarrow> list_all (\<lambda>c. \<not> cont_byte c) s"

lemma chars_ascii: "ascii s \<Longrightarrow> chars s = map (\<lambda>c. [c]) s"
proof (induction s)
  case (Cons c s)
  then have "takeWhile cont_byte s = []" "dropWhile cont_byte s = s" by (cases s; auto simp: ascii_def)+
  with Cons show ?case by (simp add: ascii_def)
qed simp

lemma ascii_hd: "ascii s \<Longrightarrow> s = [] \<or> \<not> cont_byte (hd s)"
  by (cases s) (auto simp: ascii_def)

text \<open>\<open>lower\<close> leaves a lower-case suffix as it is.\<close>

definition keeps :: "(string \<Rightarrow> string) \<Rightarrow> string \<Rightarrow> bool" where
  "keeps lower s \<longleftrightarrow> ascii s \<and> list_all (\<lambda>c. lower [c] = [c]) s"

lemma strip_suffix_same: "keeps lower suf \<Longrightarrow> strip_suffix_ci lower (st @ suf) suf = Some st"
  by (auto simp: strip_suffix_ci_def Let_def chars_append [OF ascii_hd] keeps_def list_all2_conv_all_nth list_all_length
      chars_ascii)

lemma strip_suffix_differs:
  assumes "keeps lower t" "keeps lower u" "length t = length u" "t \<noteq> u"
  shows "strip_suffix_ci lower (a @ t) (b @ u) = None"
proof (rule ccontr)
  assume "strip_suffix_ci lower (a @ t) (b @ u) \<noteq> None"
  then have all: "list_all2 (\<lambda>c want. lower c = want) (drop (length (chars a @ chars t) - length (chars b @ chars u)) (chars a @ chars t)) (chars b @ chars u)"
    using assms by (auto simp: strip_suffix_ci_def Let_def chars_append [OF ascii_hd] keeps_def split: if_splits)
  then have "length (chars b) + length (chars u) \<le> length (chars a) + length (chars t)"
    by (auto dest: list_all2_lengthD)
  then have "drop (length (chars a @ chars t) - length (chars b @ chars u)) (chars a @ chars t) =
      drop (length (chars a) - length (chars b)) (chars a) @ chars t"
    using assms by (simp add: chars_ascii keeps_def)
  with all have "list_all2 (\<lambda>c want. lower c = want) (chars t) (chars u)"
    using assms(1-3) by (auto simp: list_all2_append2 list_all2_append chars_ascii keeps_def
        dest: list_all2_lengthD)
  then have "t = u" using assms(1-3)
    by (auto simp: chars_ascii keeps_def list_all2_conv_all_nth list_all_length intro!: nth_equalityI)
  with assms(4) show False ..
qed

definition volume_suffixes :: "string list" where
  "volume_suffixes = [''.cbz'', ''.mokuro.gz'', ''.mokuro'', ''.webp'', ''.nocover'']"

lemma key_of_file:
  assumes "st \<noteq> []" "hd st \<noteq> CHR ''/''" "list_all (keeps lower) volume_suffixes" "suf \<in> set volume_suffixes"
  shows "normalize_volume_key lower (st @ suf) = Some (st @ ''.cbz'')"
proof -
  have k: "keeps lower ''.cbz''" "keeps lower ''.mokuro.gz''" "keeps lower ''.mokuro''" "keeps lower ''.webp''" "keeps lower ''.nocover''"
    using assms(3) by (auto simp: volume_suffixes_def)
  then have tails: "keeps lower ''o''" "keeps lower ''z''" "keeps lower ''gz''" "keeps lower ''bz''" "keeps lower ''p''" "keeps lower ''r''"
    by (auto simp: keeps_def ascii_def)
  have d: "strip_suffix_ci lower (a @ ''o'') (b @ ''z'') = None" "strip_suffix_ci lower (a @ ''gz'') (b @ ''bz'') = None"
    "strip_suffix_ci lower (a @ ''p'') (b @ ''z'') = None" "strip_suffix_ci lower (a @ ''p'') (b @ ''o'') = None"
    "strip_suffix_ci lower (a @ ''r'') (b @ ''z'') = None" "strip_suffix_ci lower (a @ ''r'') (b @ ''o'') = None"
    "strip_suffix_ci lower (a @ ''r'') (b @ ''p'') = None" for a b
    using tails by (auto intro!: strip_suffix_differs)
  have trim: "trim_c CHR ''/'' (st @ suf) = st @ suf"
    using assms by (intro trim_c_id) (auto simp: volume_suffixes_def)
  consider "suf = ''.cbz''" | "suf = ''.mokuro.gz''" | "suf = ''.mokuro''" | "suf = ''.webp''" | "suf = ''.nocover''"
    using assms(4) by (auto simp: volume_suffixes_def)
  then show ?thesis
  proof cases
    case 1
    with trim strip_suffix_same [OF k(1), of st] show ?thesis by (simp add: normalize_volume_key_def)
  next
    case 2
    with trim strip_suffix_same [OF k(2), of st] d(2) [of "st @ ''.mokuro.''" "''.c''"] show ?thesis
      by (simp add: normalize_volume_key_def List.map_filter_def)
  next
    case 3
    with trim strip_suffix_same [OF k(3), of st] d(1) [of "st @ ''.mokur''" "''.cb''"] d(1) [of "st @ ''.mokur''" "''.mokuro.g''"]
    show ?thesis by (simp add: normalize_volume_key_def List.map_filter_def)
  next
    case 4
    with trim strip_suffix_same [OF k(4), of st] d(3) [of "st @ ''.web''" "''.cb''"] d(3) [of "st @ ''.web''" "''.mokuro.g''"]
      d(4) [of "st @ ''.web''" "''.mokur''"]
    show ?thesis by (simp add: normalize_volume_key_def List.map_filter_def)
  next
    case 5
    with trim strip_suffix_same [OF k(5), of st] d(5) [of "st @ ''.nocove''" "''.cb''"] d(5) [of "st @ ''.nocove''" "''.mokuro.g''"]
      d(6) [of "st @ ''.nocove''" "''.mokur''"] d(7) [of "st @ ''.nocove''" "''.web''"]
    show ?thesis by (simp add: normalize_volume_key_def List.map_filter_def)
  qed
qed

lemma archive_is_archive:
  "st \<noteq> [] \<Longrightarrow> hd st \<noteq> CHR ''/'' \<Longrightarrow> keeps lower ''.cbz'' \<Longrightarrow> is_archive lower (st @ ''.cbz'')"
  using strip_suffix_same [of lower "''.cbz''" st] trim_c_id [of "st @ ''.cbz''" "CHR ''/''"]
  by (simp add: is_archive_def)

lemma may_delete_iff:
  assumes "st \<noteq> []" "hd st \<noteq> CHR ''/''" "list_all (keeps lower) volume_suffixes" "suf \<in> set volume_suffixes"
    and "owner_of (st @ ''.cbz'') t = Some u"
  shows "can_user_delete_library_path lower n (''/mokuro-reader/'' @ st @ suf) t \<longleftrightarrow> n = u"
proof -
  have trim: "trim_c CHR ''/'' (st @ suf) = st @ suf"
    using assms(1,2,4) by (intro trim_c_id) (auto simp: volume_suffixes_def)
  have "CHR ''.'' \<in> set suf" using assms(4) by (auto simp: volume_suffixes_def)
  moreover have "strip_prefix ''/mokuro-reader/'' (''/mokuro-reader/'' @ st @ suf) = Some (st @ suf)" by simp
  ultimately show ?thesis
    using trim assms(1) key_of_file [OF assms(1-4)] assms(5)
    by (auto simp: can_user_delete_library_path_def get_volume_owner_def Let_def)
qed

text \<open>
  uploading a volume gives its uploader, and nobody else, the right to delete and replace
  the archive and each of its side files (OCR data, cover, no-cover mark), when no one owned the
  volume before; when someone did, the right stays with the owner alone.
\<close>

theorem uploader_rights:
  assumes "st \<noteq> []" "hd st \<noteq> CHR ''/''" "list_all (keeps lower) volume_suffixes" "suf \<in> set volume_suffixes"
  shows "can_user_delete_library_path lower n (''/mokuro-reader/'' @ st @ suf)
      (record_volume_upload lower now (st @ ''.cbz'') u t) \<longleftrightarrow>
    n = (case owner_of (st @ ''.cbz'') t of Some first \<Rightarrow> first | None \<Rightarrow> u)"
proof (rule may_delete_iff [OF assms])
  have "keeps lower ''.cbz''" using assms(3) by (simp add: volume_suffixes_def)
  then show "owner_of (st @ ''.cbz'') (record_volume_upload lower now (st @ ''.cbz'') u t) =
      Some (case owner_of (st @ ''.cbz'') t of Some first \<Rightarrow> first | None \<Rightarrow> u)"
    using archive_is_archive [OF assms(1,2)] key_of_file [OF assms(1-3), of "''.cbz''"]
    by (simp add: owner_record volume_suffixes_def split: option.split)
qed

theorem uploader_rights_witness:
  "can_user_delete_library_path (\<lambda>c. c) ''alice'' ''/mokuro-reader/S/V.mokuro''
     (record_volume_upload (\<lambda>c. c) [] ''S/V.cbz'' ''alice'' []) \<and>
   \<not> can_user_delete_library_path (\<lambda>c. c) ''bob'' ''/mokuro-reader/S/V.mokuro''
     (record_volume_upload (\<lambda>c. c) [] ''S/V.cbz'' ''alice'' [])"
proof -
  have "list_all (keeps (\<lambda>c. c)) volume_suffixes" "''.mokuro'' \<in> set volume_suffixes" by code_simp+
  from uploader_rights [OF _ _ this, of "''S/V''" _ "[]" "''alice''" "[]"] show ?thesis by (simp add: owner_of_def)
qed

text \<open>
  A layer file of a volume belongs to the volume's uploader only while no archive carries the
  layer's name: whoever uploads \<open>S/V.hayai.cbz\<close> takes the layer \<open>S/V.hayai.mokuro\<close> of somebody
  else's \<open>S/V.cbz\<close> over.
\<close>

lemma layer_taken_over:
  fixes t :: "volume_row list"
  defines "t \<equiv> record_volume_upload (\<lambda>c. c) [] ''S/V.cbz'' ''alice'' []"
  shows "can_user_delete_library_path (\<lambda>c. c) ''alice'' ''/mokuro-reader/S/V.hayai.mokuro'' t"
    and "\<not> can_user_delete_library_path (\<lambda>c. c) ''bob'' ''/mokuro-reader/S/V.hayai.mokuro'' t"
    and "can_user_delete_library_path (\<lambda>c. c) ''bob'' ''/mokuro-reader/S/V.hayai.mokuro''
           (record_volume_upload (\<lambda>c. c) [] ''S/V.hayai.cbz'' ''bob'' t)"
    and "\<not> can_user_delete_library_path (\<lambda>c. c) ''alice'' ''/mokuro-reader/S/V.hayai.mokuro''
           (record_volume_upload (\<lambda>c. c) [] ''S/V.hayai.cbz'' ''bob'' t)"
  unfolding t_def by code_simp+

section \<open>Series\<close>

lemma add_owned_at:
  "add_owned fld (f, u) m k =
     (if fld f = k then (let (us, fs) = (case m k of Some e \<Rightarrow> e | None \<Rightarrow> ({}, {})) in Some (insert u us, insert f fs))
      else m k)"
  by (auto simp: add_owned_def Let_def case_prod_beta)

text \<open>The entry of a key after the pass: the owners and the spellings of all its folders.\<close>

definition join_entries :: "(string set \<times> string set) option \<Rightarrow> (string \<times> string) set \<Rightarrow> (string set \<times> string set) option" where
  "join_entries e xs =
     (if xs = {} then e
      else let (us, fs) = (case e of Some e \<Rightarrow> e | None \<Rightarrow> ({}, {})) in Some (us \<union> snd ` xs, fs \<union> fst ` xs))"

lemma join_insert: "join_entries (Some (insert u us, insert f fs)) xs = join_entries (Some (us, fs)) (insert (f, u) xs)"
  "join_entries (Some ({}, {})) (insert x xs) = join_entries None (insert x xs)"
  by (auto simp: join_entries_def)

lemma fold_add_owned:
  "fold (add_owned fld) xs m k = join_entries (m k) {x \<in> set xs. fld (fst x) = k}"
proof (induction xs arbitrary: m)
  case (Cons x xs)
  obtain f u where x: "x = (f, u)" by fastforce
  have parts: "{y \<in> set (x # xs). fld (fst y) = k} =
      (if fld f = k then insert (f, u) {y \<in> set xs. fld (fst y) = k} else {y \<in> set xs. fld (fst y) = k})"
    by (auto simp: x)
  have "fold (add_owned fld) (x # xs) m k = join_entries (add_owned fld (f, u) m k) {y \<in> set xs. fld (fst y) = k}"
    by (simp add: Cons.IH x)
  also have "\<dots> = join_entries (m k) {y \<in> set (x # xs). fld (fst y) = k}"
    unfolding parts by (cases "m k") (auto simp: add_owned_at join_insert)
  finally show ?case .
qed (simp add: join_entries_def)

text \<open>
  the list of the series an account may edit, built in one pass over the table, holds a
  folder exactly when a tracked volume lies in it and the check made at each edit accepts it.
\<close>

theorem owned_series_agree:
  assumes "folder \<noteq> []" "CHR ''/'' \<notin> set folder"
  shows "folder \<in> set (list_series_owned_by nfc ls user t) \<longleftrightarrow>
     folder \<in> fst ` set (folder_owners t) \<and> can_user_edit_series nfc ls user folder t"
proof -
  let ?fld = "fold_series_title_key nfc ls"
  let ?fo = "folder_owners t"
  have trim: "trim_c CHR ''/'' folder = folder"
    using assms by (intro trim_c_id) (metis hd_in_set last_in_set)
  have owners: "series_owners nfc ls folder t = snd ` {x \<in> set ?fo. ?fld (fst x) = ?fld folder}"
    using assms(1) by (auto simp: series_owners_def Let_def trim image_iff)
  define good where "good k = (let os = snd ` {x \<in> set ?fo. ?fld (fst x) = k} in card os = 1 \<and> user \<in> os)" for k
  have entry: "fold (add_owned ?fld) ?fo Map.empty k =
      Some (snd ` {x \<in> set ?fo. ?fld (fst x) = k}, fst ` {x \<in> set ?fo. ?fld (fst x) = k})"
    if "k \<in> (\<lambda>x. ?fld (fst x)) ` set ?fo" for k
    using that by (auto simp: fold_add_owned join_entries_def)
  have "set (list_series_owned_by nfc ls user t) =
      (\<Union>k\<in>(\<lambda>x. ?fld (fst x)) ` set ?fo. if good k then fst ` {x \<in> set ?fo. ?fld (fst x) = k} else {})"
    using entry by (auto simp: list_series_owned_by_def Let_def good_def comp_def)
  also have "\<dots> = {f \<in> fst ` set ?fo. good (?fld f)}"
    by (auto split: if_splits)
  finally show ?thesis
    by (auto simp: can_user_edit_series_def Let_def owners good_def)
qed

theorem owned_series_agree_witness:
  "''S'' \<in> set (list_series_owned_by (\<lambda>x. x) (\<lambda>x. x) ''alice'' (record_volume_upload (\<lambda>c. c) [] ''S/V.cbz'' ''alice'' []))"
proof -
  have "''S'' \<in> fst ` set (folder_owners (record_volume_upload (\<lambda>c. c) [] ''S/V.cbz'' ''alice'' []))"
    "can_user_edit_series (\<lambda>x. x) (\<lambda>x. x) ''alice'' ''S'' (record_volume_upload (\<lambda>c. c) [] ''S/V.cbz'' ''alice'' [])"
    by code_simp+
  with owned_series_agree [of "''S''"] show ?thesis by simp
qed

end
