(* ===== verification/Dav_Effects.thy ===== *)
theory Dav_Effects
  imports Dav_Lock_Methods Write_Locks
begin

text \<open>
  What the WebDAV methods that write share: the calls they make on the disk, the hooks they
  fire (\<open>bunko-dav/src/hooks.rs\<close>), the effects they collect and the audit targets
  (\<open>methods/mod.rs\<close>), and the side files of an archive (\<open>sidecars.rs\<close>). A handler's blocking
  part is an operation on a world: the state of the disk, the lock and dead-property tables,
  the effects collected so far, the trace of everything done and the damage seen in uploads. The operating system is a
  parameter: \<open>sys\<close> answers a call and gives the next state, in which whatever other requests
  did meanwhile may be included; \<open>view\<close> is what can be read in a state, \<open>held\<close> the keys of the
  write locks others hold in it. An operation is \<open>None\<close> when its fuel runs out.
\<close>

section \<open>The world\<close>

datatype fs_call =
    RemoveFile fs_path
  | RemoveDirAll fs_path
  | Rename fs_path fs_path
  | CreateDirAll fs_path
  | CopyFile fs_path fs_path
  | CopyTimes fs_path fs_path
  | CreateNew fs_path
  | WriteTo fs_path string
  | FlushFile fs_path
  | SyncFile fs_path

datatype io_kind =
    IoNotFound | IoPermissionDenied | IoAlreadyExists | IoStorageFull | IoQuotaExceeded
  | IoUnsupported | IoInvalidInput | IoReadOnly | IoOther

record io_error =
  io_kind :: io_kind
  io_text :: string
  io_os :: "int option"

datatype hook =
    Audit string "string option" string string "(string \<times> string) list"
  | ForgetUpload string
  | ForgetUuid string
  | ForgetSidecarsOf string
  | ForgetSidecar string
  | RenameUpload string string
  | ForgetUploadsUnder string
  | ForgetSidecarsUnder string
  | ForgetUuidsUnder string
  | RenameSidecarsUnder string string
  | RenameUuidsUnder string string
  | PrimaryLeaving string fs_path
  | ArchivesRemoved "fs_path list"
  | ArchiveArrived fs_path
  | LibraryChanged "fs_path list"
  | RecordUpload string string bool
  | AskFollowUp fs_path string string

datatype act = Sys fs_call "io_error option" | Hook hook | Invalidate "string list"

record effects =
  eff_removed :: "fs_path list"
  eff_arrived :: "fs_path list"
  eff_listings :: "string list"
  eff_changed :: "fs_path list"

definition no_effects :: effects where
  "no_effects = \<lparr>eff_removed = [], eff_arrived = [], eff_listings = [], eff_changed = []\<rparr>"

record 's env =
  the_roots :: roots
  view :: "'s \<Rightarrow> disk"
  same_file :: "'s \<Rightarrow> fs_path \<Rightarrow> fs_path \<Rightarrow> bool"
  held :: "'s \<Rightarrow> lock_key list"
  sys :: "fs_call \<Rightarrow> 's \<Rightarrow> (io_error + unit) \<times> 's"
  lower_str :: "string \<Rightarrow> string"
  fold_name :: "string \<Rightarrow> string"
  pid :: nat

record 's world =
  os_state :: 's
  tables :: dav_state
  eff :: effects
  trace :: "act list"
  damaged :: "(string \<times> string \<times> nat) list"

type_synonym ('s, 'a) op = "'s world \<Rightarrow> ((dav_error + 'a) \<times> 's world) option"

section \<open>Operations\<close>

definition ret :: "'a \<Rightarrow> ('s, 'a) op" where
  "ret x w = Some (Inr x, w)"

definition fail :: "dav_error \<Rightarrow> ('s, 'a) op" where
  "fail e w = Some (Inl e, w)"

definition bind_op :: "('s, 'a) op \<Rightarrow> ('a \<Rightarrow> ('s, 'b) op) \<Rightarrow> ('s, 'b) op" where
  "bind_op m k w =
     (case m w of
        None \<Rightarrow> None
      | Some (Inl e, w) \<Rightarrow> Some (Inl e, w)
      | Some (Inr x, w) \<Rightarrow> k x w)"

fun block :: "('s, unit) op list \<Rightarrow> ('s, unit) op" where
  "block [] = ret ()"
| "block (m # ms) = bind_op m (\<lambda>_. block ms)"

definition when_op :: "bool \<Rightarrow> ('s, unit) op \<Rightarrow> ('s, unit) op" where
  "when_op b m = (if b then m else ret ())"

definition for_each :: "('b \<Rightarrow> ('s, unit) op) \<Rightarrow> 'b list \<Rightarrow> ('s, unit) op" where
  "for_each f xs = block (map f xs)"

text \<open>
  Reading the disk, and deciding on what is read. What other requests do to the disk happens at
  calls; reads with no call between them see one state.
\<close>

definition look :: "('s \<Rightarrow> 'a) \<Rightarrow> ('a \<Rightarrow> ('s, 'b) op) \<Rightarrow> ('s, 'b) op" where
  "look f k w = k (f (os_state w)) w"

definition no_fuel :: "('s, 'a) op" where
  "no_fuel w = None"

definition of_io :: "io_error \<Rightarrow> dav_error" where
  "of_io e = (if io_kind e = IoPermissionDenied then dav_error_new 403 (io_text e)
              else dav_error_new 500 (io_text e))"

text \<open>One call, with its outcome as a value; \<open>io\<close> passes an error on, \<open>io_ignored\<close> drops it.\<close>

definition sys_op :: "'s env \<Rightarrow> fs_call \<Rightarrow> ('s, io_error option) op" where
  "sys_op e c w =
     (let (r, s) = sys e c (os_state w); err = (case r of Inl er \<Rightarrow> Some er | Inr _ \<Rightarrow> None)
      in Some (Inr err, w\<lparr>os_state := s, trace := trace w @ [Sys c err]\<rparr>))"

definition io :: "'s env \<Rightarrow> fs_call \<Rightarrow> ('s, unit) op" where
  "io e c = bind_op (sys_op e c) (\<lambda>r. case r of None \<Rightarrow> ret () | Some er \<Rightarrow> fail (of_io er))"

definition io_ignored :: "'s env \<Rightarrow> fs_call \<Rightarrow> ('s, unit) op" where
  "io_ignored e c = bind_op (sys_op e c) (\<lambda>_. ret ())"

definition hook :: "hook \<Rightarrow> ('s, unit) op" where
  "hook h w = Some (Inr (), w\<lparr>trace := trace w @ [Hook h]\<rparr>)"

definition note_eff :: "(effects \<Rightarrow> effects) \<Rightarrow> ('s, unit) op" where
  "note_eff f w = Some (Inr (), w\<lparr>eff := f (eff w)\<rparr>)"

definition exists_at :: "'s env \<Rightarrow> fs_path \<Rightarrow> 's \<Rightarrow> bool" where
  "exists_at e p s = (stat_of (view e s) p \<noteq> None)"

definition is_file_at :: "'s env \<Rightarrow> fs_path \<Rightarrow> 's \<Rightarrow> bool" where
  "is_file_at e p s = (case stat_of (view e s) p of None \<Rightarrow> False | Some st \<Rightarrow> \<not> is_dir st)"

definition is_dir_at :: "'s env \<Rightarrow> fs_path \<Rightarrow> 's \<Rightarrow> bool" where
  "is_dir_at e p s = (case stat_of (view e s) p of None \<Rightarrow> False | Some st \<Rightarrow> is_dir st)"

section \<open>Names\<close>

definition path_name :: "fs_path \<Rightarrow> string" where
  "path_name p = (if p = [] then [] else last p)"

definition is_cbz :: "fs_path \<Rightarrow> bool" where
  "is_cbz p = eq_ignore_ascii_case (py_suffix (path_name p)) ''.cbz''"

definition rel_of :: "'s env \<Rightarrow> fs_path \<Rightarrow> string option" where
  "rel_of e p = library_rel (the_roots e) p"

definition volume_extensions :: "string list" where
  "volume_extensions = [''.cbz'', ''.cbr'', ''.zip'', ''.rar'']"

definition is_layer_id :: "string \<Rightarrow> bool" where
  "is_layer_id s \<longleftrightarrow> s \<noteq> [] \<and> length s \<le> 32 \<and>
     list_all (\<lambda>b. is_ascii_lower b \<or> is_ascii_digit b \<or> b = CHR ''-'') s"

definition without_suffix :: "string \<Rightarrow> string \<Rightarrow> string" where
  "without_suffix suf s = take (length s - length suf) s"

definition split_layer_sidecar :: "string \<Rightarrow> (string \<times> string) option" where
  "split_layer_sidecar name =
     (let name = (if ends_with name ''.gz'' then without_suffix ''.gz'' name else name) in
      if \<not> ends_with name ''.mokuro'' then None
      else
        (case rsplit_once_c CHR ''.'' (without_suffix ''.mokuro'' name) of
           None \<Rightarrow> None
         | Some (stem, layer) \<Rightarrow>
             if stem = [] then None else if is_layer_id layer then Some (stem, layer) else None))"

definition volume_stems :: "(string \<Rightarrow> string) \<Rightarrow> string list \<Rightarrow> string list" where
  "volume_stems lower names =
     List.map_filter
       (\<lambda>name.
         case find (\<lambda>ext. ends_with (lower name) ext \<and> length (lower name) = length name) volume_extensions of
           None \<Rightarrow> None
         | Some ext \<Rightarrow> Some (without_suffix ext name))
       names"

definition siblings :: "'s env \<Rightarrow> fs_path \<Rightarrow> 's \<Rightarrow> fs_path list" where
  "siblings e cbz s =
     (if cbz = [] then []
      else
        let stem = py_stem (path_name cbz);
            dir = butlast cbz;
            fixed = map (\<lambda>suf. dir @ [stem @ suf]) [''.mokuro'', ''.mokuro.gz'', ''.webp'', ''.nocover'']
        in
        (case dir_names (view e s) dir of
           None \<Rightarrow> fixed
         | Some names \<Rightarrow>
             let names = sort names;
                 others = filter (\<lambda>o'. o' \<noteq> stem) (volume_stems (lower_str e) names)
             in fixed @
                map (\<lambda>n. dir @ [n])
                  (filter
                    (\<lambda>n. case split_layer_sidecar n of
                           None \<Rightarrow> False
                         | Some (st, layer) \<Rightarrow>
                             st = stem \<and> \<not> List.member others (stem @ ''.'' @ layer))
                    names)))"

definition primary_sidecar_stem :: "(string \<Rightarrow> string) \<Rightarrow> string \<Rightarrow> string option" where
  "primary_sidecar_stem lower name =
     (let low = lower name in
      if length low \<noteq> length name then None
      else if ends_with low ''.mokuro.gz'' then Some (without_suffix ''.mokuro.gz'' name)
      else if ends_with low ''.mokuro'' then Some (without_suffix ''.mokuro'' name)
      else None)"

section \<open>Audit\<close>

definition is_own_path :: "string \<Rightarrow> bool" where
  "is_own_path vpath = (case classify vpath of TProgress _ \<Rightarrow> True | _ \<Rightarrow> False)"

definition in_reader :: "string \<Rightarrow> string" where
  "in_reader rel = CHR ''/'' # reader_root @ CHR ''/'' # rel"

definition file_audit_target :: "'s env \<Rightarrow> string \<Rightarrow> fs_path \<Rightarrow> string \<times> string" where
  "file_audit_target e vpath phys =
     (case rel_of e phys of
        Some rel \<Rightarrow> (''library'', in_reader rel)
      | None \<Rightarrow>
          let norm = normalize vpath in
          (if is_own_path norm then ''progress'' else ''webdav'', norm))"

definition folder_audit_target :: "'s env \<Rightarrow> string \<Rightarrow> fs_path option \<Rightarrow> string \<times> string" where
  "folder_audit_target e vpath phys =
     (case Option.bind phys (rel_of e) of
        Some rel \<Rightarrow>
          if rel \<noteq> [] then (''library_folder'', in_reader rel)
          else if is_own_path vpath then (''progress'', normalize vpath)
          else (''webdav_folder'', normalize vpath)
      | None \<Rightarrow>
          if is_own_path vpath then (''progress'', normalize vpath)
          else (''webdav_folder'', normalize vpath))"

definition audit :: "dav_req \<Rightarrow> string \<Rightarrow> string \<times> string \<Rightarrow> (string \<times> string) list \<Rightarrow> ('s, unit) op" where
  "audit req action target details = hook (Audit action (req_user req) (fst target) (snd target) details)"

definition write_lock_conflict ::
  "dav_req \<Rightarrow> string \<times> string \<Rightarrow> string \<Rightarrow> string option \<Rightarrow> ('s, 'a) op" where
  "write_lock_conflict req target operation destination =
     bind_op
       (audit req ''lock_conflict'' target
          ((''operation'', operation) #
           (case destination of None \<Rightarrow> [] | Some d \<Rightarrow> [(''destination'', d)])))
       (\<lambda>_. fail (dav_error_new 423 ''Resource is locked by another write operation''))"

text \<open>Work done under the write locks of some paths; the guard is dropped when it ends.\<close>

definition with_guard :: "'s env \<Rightarrow> fs_path list \<Rightarrow> ('s, 'a) op \<Rightarrow> ('s, 'a) op \<Rightarrow> ('s, 'a) op" where
  "with_guard e paths conflict work =
     look (\<lambda>s. try_lock_all (lower_str e) (held e s) paths)
       (\<lambda>g. case g of None \<Rightarrow> conflict | Some _ \<Rightarrow> work)"

definition forget_ocr_records :: "'s env \<Rightarrow> string option \<Rightarrow> bool \<Rightarrow> ('s, unit) op" where
  "forget_ocr_records e rel archive_too =
     (case rel of
        None \<Rightarrow> ret ()
      | Some rel \<Rightarrow>
          let low = lower_str e rel in
          if ends_with low ''.cbz'' then when_op archive_too (hook (ForgetSidecarsOf rel))
          else when_op (ends_with low ''.mokuro'' \<or> ends_with low ''.mokuro.gz'') (hook (ForgetSidecar rel)))"

definition primary_leaving :: "'s env \<Rightarrow> fs_path \<Rightarrow> ('s, unit) op" where
  "primary_leaving e phys =
     (case rel_of e phys of
        None \<Rightarrow> ret ()
      | Some rel \<Rightarrow>
          (case primary_sidecar_stem (lower_str e) (path_name phys) of
             None \<Rightarrow> ret ()
           | Some stem \<Rightarrow>
               look (is_file_at e (butlast phys @ [stem @ ''.cbz'']))
                 (\<lambda>b. when_op b (hook (PrimaryLeaving rel phys)))))"

section \<open>Effects\<close>

definition note_removed :: "'s env \<Rightarrow> fs_path \<Rightarrow> ('s, unit) op" where
  "note_removed e phys =
     when_op (rel_of e phys \<noteq> None) (note_eff (\<lambda>x. x\<lparr>eff_removed := eff_removed x @ [phys]\<rparr>))"

definition note_arrived :: "'s env \<Rightarrow> fs_path \<Rightarrow> ('s, unit) op" where
  "note_arrived e phys =
     when_op (is_cbz phys \<and> rel_of e phys \<noteq> None) (note_eff (\<lambda>x. x\<lparr>eff_arrived := eff_arrived x @ [phys]\<rparr>))"

definition touch :: "string \<Rightarrow> fs_path option \<Rightarrow> ('s, unit) op" where
  "touch vpath phys =
     when_op (\<not> is_own_path vpath)
       (note_eff (\<lambda>x. x\<lparr>eff_listings := eff_listings x @ [normalize vpath],
                      eff_changed := eff_changed x @ (case phys of None \<Rightarrow> [] | Some p \<Rightarrow> [p])\<rparr>))"

definition invalidate_paths :: "string list \<Rightarrow> ('s, unit) op" where
  "invalidate_paths paths w = Some (Inr (), w\<lparr>trace := trace w @ [Invalidate paths]\<rparr>)"

definition fire :: "'s env \<Rightarrow> ('s, unit) op" where
  "fire e w =
     (let x = eff w; changed = filter (\<lambda>p. rel_of e p \<noteq> None) (eff_changed x) in
      block
        [when_op (eff_listings x \<noteq> []) (invalidate_paths (eff_listings x)),
         when_op (eff_removed x \<noteq> []) (hook (ArchivesRemoved (eff_removed x))),
         for_each (\<lambda>p. hook (ArchiveArrived p)) (eff_arrived x),
         when_op (changed \<noteq> []) (hook (LibraryChanged changed))] w)"

section \<open>Case analysis\<close>

lemma bind_op_cases:
  assumes "bind_op m k w = Some (r, w')"
  obtains (fails) er where "m w = Some (Inl er, w')" "r = Inl er"
    | (goes_on) x w1 where "m w = Some (Inr x, w1)" "k x w1 = Some (r, w')"
proof (cases "m w")
  case None
  with assms show thesis by (simp add: bind_op_def)
next
  case (Some a)
  obtain q w1 where a: "a = (q, w1)" by (cases a)
  show thesis
  proof (cases q)
    case (Inl er)
    with assms Some a show thesis by (intro fails [of er]) (auto simp: bind_op_def)
  next
    case (Inr x)
    with assms Some a show thesis by (intro goes_on [of x w1]) (auto simp: bind_op_def)
  qed
qed

text \<open>What an operation returns when it succeeds.\<close>

definition yields :: "('s, 'a) op \<Rightarrow> ('a \<Rightarrow> bool) \<Rightarrow> bool" where
  "yields m Q \<longleftrightarrow> (\<forall>w x w'. m w = Some (Inr x, w') \<longrightarrow> Q x)"

lemma yieldsD: "yields m Q \<Longrightarrow> m w = Some (Inr x, w') \<Longrightarrow> Q x"
  by (auto simp: yields_def)

lemma yields_ret: "Q x \<Longrightarrow> yields (ret x) Q"
  by (auto simp: yields_def ret_def)

lemma yields_look: "(\<And>s. yields (k (f s)) Q) \<Longrightarrow> yields (look f k) Q"
  by (auto simp: yields_def look_def)

lemma yields_bind: "yields m P \<Longrightarrow> (\<And>x. P x \<Longrightarrow> yields (k x) Q) \<Longrightarrow> yields (bind_op m k) Q"
  unfolding yields_def by (blast elim: bind_op_cases)

lemma yields_then: "(\<And>x. yields (k x) Q) \<Longrightarrow> yields (bind_op m k) Q"
  by (rule yields_bind [where P = "\<lambda>_. True"]) (simp_all add: yields_def)

end
