(* ===== verification/Dav_Write.thy ===== *)
theory Dav_Write
  imports Dav_Effects
begin

text \<open>
  \<open>bunko-dav/src/methods/write.rs\<close>: DELETE, MKCOL, COPY and MOVE. A handler first decides, on
  what the disk shows at that moment (\<open>s\<close>), whether the request is allowed; then its blocking
  part works on the disk as it is by then. The loops over folder trees take fuel; the theory
  \<open>Dav_Write_Ends\<close> shows how much is enough. \<open>clk i\<close> is the \<open>i\<close>-th reading of the clock.
\<close>

section \<open>DELETE\<close>

definition delete_file :: "'s env \<Rightarrow> dav_req \<Rightarrow> string \<Rightarrow> fs_path \<Rightarrow> ('s, unit) op" where
  "delete_file e req vpath phys =
     look (exists_at e phys) (\<lambda>there. if \<not> there then ret () else
       let target = file_audit_target e vpath phys;
           rel = rel_of e phys;
           cbz = (rel \<noteq> None \<and> is_cbz phys)
       in
       with_guard e [phys] (write_lock_conflict req target ''delete'' None)
         (block
           [primary_leaving e phys,
            when_op cbz (look (siblings e phys) (for_each (\<lambda>p. io_ignored e (RemoveFile p)))),
            bind_op (sys_op e (RemoveFile phys))
              (\<lambda>r. case r of
                 None \<Rightarrow> ret ()
               | Some er \<Rightarrow> if io_kind er = IoNotFound then ret () else fail (of_io er)),
            when_op cbz
              (block
                [note_removed e phys,
                 (case rel of
                    None \<Rightarrow> ret ()
                  | Some rel \<Rightarrow> block [hook (ForgetUpload rel), hook (ForgetUuid rel)])]),
            forget_ocr_records e rel True,
            touch vpath (Some phys),
            audit req ''delete'' target []]))"

definition delete_folder :: "'s env \<Rightarrow> dav_req \<Rightarrow> string \<Rightarrow> fs_path \<Rightarrow> ('s, unit) op" where
  "delete_folder e req path phys =
     look (exists_at e phys) (\<lambda>there. if \<not> there then ret () else
       let target = folder_audit_target e path (Some phys) in
       with_guard e [phys] (write_lock_conflict req target ''delete'' None)
         (block
           [io e (RemoveDirAll phys),
            (case rel_of e phys of
               None \<Rightarrow> ret ()
             | Some rel \<Rightarrow>
                 when_op (rel \<noteq> [])
                   (block [hook (ForgetUploadsUnder rel), hook (ForgetSidecarsUnder rel),
                           hook (ForgetUuidsUnder rel)])),
            note_removed e phys,
            touch path (Some phys),
            audit req ''delete'' target []]))"

definition delete_resource :: "'s env \<Rightarrow> dav_req \<Rightarrow> resource \<Rightarrow> ('s, unit) op" where
  "delete_resource e req res =
     (case res of
        RVirtual _ \<Rightarrow> ret ()
      | RFile path phys _ _ \<Rightarrow> delete_file e req path phys
      | RFolder path phys _ _ \<Rightarrow> delete_folder e req path phys)"

text \<open>Dropping the DAV locks and dead properties of a key and everything below it.\<close>

definition drop_locks :: "string \<Rightarrow> ('s, unit) op" where
  "drop_locks key w =
     Some (Inr (), w\<lparr>tables := (tables w)\<lparr>lock_tbl := remove_tree key (lock_tbl (tables w))\<rparr>\<rparr>)"

definition drop_dead :: "string \<Rightarrow> ('s, unit) op" where
  "drop_dead key w =
     Some (Inr (), w\<lparr>tables := (tables w)\<lparr>dead_tbl := dead_remove_tree key (dead_tbl (tables w))\<rparr>\<rparr>)"

definition delete_work :: "'s env \<Rightarrow> dav_req \<Rightarrow> resource \<Rightarrow> ('s, unit) op" where
  "delete_work e req res =
     (let key = resource_key res (req_user req) in
      block [delete_resource e req res, drop_locks key, drop_dead key, fire e])"

definition delete_depth_ok :: "dav_req \<Rightarrow> resource \<Rightarrow> bool" where
  "delete_depth_ok req res =
     (case req_headers req ''depth'' of
        None \<Rightarrow> True
      | Some d \<Rightarrow> d = ''infinity'' \<or> \<not> is_collection res \<and> d = ''0'')"

text \<open>A check that may refuse (the \<open>?\<close> of the code), then what follows it.\<close>

definition check_opt ::
  "(dav_error + unit) \<times> lock_table \<Rightarrow> (lock_table \<Rightarrow> (dav_error + 'a) \<times> lock_table) \<Rightarrow>
   (dav_error + 'a) \<times> lock_table" where
  "check_opt c k = (case c of (Inl er, tbl) \<Rightarrow> (Inl er, tbl) | (Inr _, tbl) \<Rightarrow> k tbl)"

definition delete_gate ::
  "http_date \<Rightarrow> validators \<Rightarrow> 's env \<Rightarrow> 's \<Rightarrow> (nat \<Rightarrow> nat) \<Rightarrow> dav_req \<Rightarrow> lock_table \<Rightarrow>
   (dav_error + resource) \<times> lock_table" where
  "delete_gate http_date validators e s clk req tbl =
     (if is_virtual_root (req_path req)
      then (Inl (dav_error_new 403 ''The library root cannot be deleted.''), tbl)
      else
        case lookup (view e s) (the_roots e) (req_path req) (req_caller req) of
          None \<Rightarrow> (Inl (dav_error_new 404 (req_path req)), tbl)
        | Some res \<Rightarrow>
            if req_content_length req \<noteq> 0
            then (Inl (dav_error_new 415 ''The server does not handle any body content.''), tbl)
            else if \<not> delete_depth_ok req res
            then (Inl (dav_error_new 400 ''Invalid Depth header.''), tbl)
            else
              check_opt (eval_if http_date validators (clk 0) req res tbl) (\<lambda>tbl.
              check_opt (check_dav_locks (clk 1) req (resource_key res (req_user req)) True tbl) (\<lambda>tbl.
              case uri_parent (req_path req) of
                None \<Rightarrow> (Inr res, tbl)
              | Some parent \<Rightarrow>
                  check_opt (check_dav_locks (clk 2) req (normalize parent) False tbl)
                    (\<lambda>tbl. (Inr res, tbl)))))"

text \<open>The gate's answer, then the blocking part from an empty list of effects.\<close>

definition after_gate :: "(dav_error + 'a) \<times> lock_table \<Rightarrow> ('a \<Rightarrow> ('s, 'b) op) \<Rightarrow> ('s, 'b) op" where
  "after_gate g work w =
     (let w = w\<lparr>tables := (tables w)\<lparr>lock_tbl := snd g\<rparr>, eff := no_effects\<rparr> in
      case fst g of Inl er \<Rightarrow> Some (Inl er, w) | Inr x \<Rightarrow> work x w)"

definition delete_method ::
  "http_date \<Rightarrow> validators \<Rightarrow> 's env \<Rightarrow> 's \<Rightarrow> (nat \<Rightarrow> nat) \<Rightarrow> dav_req \<Rightarrow> ('s, nat) op" where
  "delete_method http_date validators e s clk req w =
     after_gate (delete_gate http_date validators e s clk req (lock_tbl (tables w)))
       (\<lambda>res. bind_op (delete_work e req res) (\<lambda>_. ret 204)) w"

section \<open>MKCOL\<close>

definition mkcol_gate ::
  "'s env \<Rightarrow> 's \<Rightarrow> (nat \<Rightarrow> nat) \<Rightarrow> dav_req \<Rightarrow> lock_table \<Rightarrow> (dav_error + resource) \<times> lock_table" where
  "mkcol_gate e s clk req tbl =
     (if req_content_length req \<noteq> 0
      then (Inl (dav_error_new 415 ''The server does not handle any body content.''), tbl)
      else if (case req_headers req ''depth'' of None \<Rightarrow> False | Some d \<Rightarrow> d \<noteq> ''0'')
      then (Inl (dav_error_new 400 (''Depth must be '' @ CHR 0x27 # ''0'' @ CHR 0x27 # ''.'')), tbl)
      else if lookup (view e s) (the_roots e) (req_path req) (req_caller req) \<noteq> None
      then (Inl (dav_error_new 405 ''MKCOL can only be executed on an unmapped URL.''), tbl)
      else
        case Option.bind (uri_parent (req_path req))
               (\<lambda>p. lookup (view e s) (the_roots e) p (req_caller req)) of
          None \<Rightarrow> (Inl (dav_error_new 409 ''Parent must be an existing collection.''), tbl)
        | Some parent \<Rightarrow>
            if \<not> is_collection parent
            then (Inl (dav_error_new 409 ''Parent must be an existing collection.''), tbl)
            else
              check_opt (check_dav_locks (clk 0) req (resource_key parent (req_user req)) False tbl) (\<lambda>tbl.
                if (case classify (req_path req) of
                      TProgress rel \<Rightarrow> history_shape_of_rel rel \<noteq> Some Collection
                    | _ \<Rightarrow> False)
                then (Inl (dav_error_new 403 ''Forbidden''), tbl)
                else (Inr parent, tbl)))"

definition mkcol_work :: "'s env \<Rightarrow> dav_req \<Rightarrow> resource \<Rightarrow> ('s, unit) op" where
  "mkcol_work e req parent =
     (let name = uri_name (req_path req) in
      look (\<lambda>s. member_path (view e s) (the_roots e) parent name (req_caller req)) (\<lambda>m.
        case m of
          None \<Rightarrow> fail (dav_error_new 403 ''Forbidden'')
        | Some (dir, kind) \<Rightarrow>
            let member = join_uri (res_path parent) name;
                target = (case kind of
                            KProgress \<Rightarrow> (''progress'', normalize member)
                          | KLibrary \<Rightarrow> folder_audit_target e (res_path parent) (res_phys parent))
            in
            block
              [io e (CreateDirAll dir),
               audit req ''mkdir'' target [(''path'', member)],
               touch member (Some dir),
               fire e]))"

definition mkcol_method :: "'s env \<Rightarrow> 's \<Rightarrow> (nat \<Rightarrow> nat) \<Rightarrow> dav_req \<Rightarrow> ('s, nat) op" where
  "mkcol_method e s clk req w =
     after_gate (mkcol_gate e s clk req (lock_tbl (tables w)))
       (\<lambda>parent. bind_op (mkcol_work e req parent) (\<lambda>_. ret 201)) w"

section \<open>The Destination header\<close>

definition forbid :: "string \<Rightarrow> dav_error" where
  "forbid text = dav_error_new 403 text"

text \<open>The host and the path of the header's value: \<open>scheme://host/path\<close> or a bare path.\<close>

definition split_destination :: "string \<Rightarrow> string option \<times> string" where
  "split_destination raw =
     (case split_once_str ''://'' raw of
        Some (_, rest) \<Rightarrow>
          (case split_once_c CHR ''/'' rest of
             Some (host, path) \<Rightarrow> (Some host, CHR ''/'' # path)
           | None \<Rightarrow> (Some rest, ''/''))
      | None \<Rightarrow> (None, raw))"

definition has_dotdot :: "string \<Rightarrow> bool" where
  "has_dotdot p =
     List.member (split_c CHR ''/'' (map (\<lambda>c. if c = CHR 0x5C then CHR ''/'' else c) p)) ''..''"

definition destination_path ::
  "(string \<Rightarrow> string) \<Rightarrow> string option \<Rightarrow> dav_req \<Rightarrow> dav_error + string" where
  "destination_path pct_decode authority req =
     (case req_headers req ''destination'' of
        None \<Rightarrow> Inl (dav_error_new 400 ''Missing required Destination header.'')
      | Some raw \<Rightarrow>
          let (netloc, path) = split_destination raw;
              path = takeWhile (\<lambda>c. c \<noteq> CHR ''?'' \<and> c \<noteq> CHR ''#'') path;
              host = (case req_headers req ''host'' of
                        Some h \<Rightarrow> Some (to_ascii_lower h)
                      | None \<Rightarrow> map_option to_ascii_lower authority);
              fwd = map_option to_ascii_lower (req_headers req ''x-forwarded-host'')
          in
          if (case map_option to_ascii_lower netloc of
                None \<Rightarrow> False
              | Some n \<Rightarrow> n \<noteq> [] \<and> Some n \<noteq> host \<and> Some n \<noteq> fwd)
          then Inl (dav_error_new 502 ''Source and destination must have the same host name.'')
          else
            (case decode_request_path pct_decode path of
               None \<Rightarrow> Inl (dav_error_new 400 ''Invalid Destination header.'')
             | Some decoded \<Rightarrow>
                 if has_dotdot decoded then Inl (dav_error_new 400 ''Invalid Destination header.'')
                 else if \<not> starts_with decoded ''/''
                 then Inl (dav_error_new 502 ''Inter-realm copy/move is not supported.'')
                 else Inr decoded))"

section \<open>What a COPY or MOVE is allowed to do\<close>

definition overwrite_of :: "dav_req \<Rightarrow> dav_error + bool" where
  "overwrite_of req =
     (case req_headers req ''overwrite'' of
        None \<Rightarrow> Inr True
      | Some v \<Rightarrow>
          if eq_ignore_ascii_case v ''T'' then Inr True
          else if eq_ignore_ascii_case v ''F'' then Inr False
          else Inl (dav_error_new 400 ''Invalid Overwrite header.''))"

definition depth_of :: "dav_req \<Rightarrow> bool \<Rightarrow> resource \<Rightarrow> dav_error + bool" where
  "depth_of req is_move src =
     (if is_collection src then
        (case req_headers req ''depth'' of
           None \<Rightarrow> Inr True
         | Some d \<Rightarrow>
             if d = ''infinity'' then Inr True
             else if d = ''0'' then
               (if \<not> is_move then Inr False
                else Inl (dav_error_new 400
                       (''Depth header for MOVE collection must be '' @ CHR 0x27 # ''infinity'' @ CHR 0x27 # ''.'')))
             else Inl (dav_error_new 400 ''Invalid Depth header.''))
      else
        (case req_headers req ''depth'' of
           None \<Rightarrow> Inr False
         | Some d \<Rightarrow>
             if d = ''0'' \<or> d = ''infinity'' then Inr False
             else Inl (dav_error_new 400 ''Invalid Depth header.'')))"

text \<open>What the gate hands to the blocking part.\<close>

record move_plan =
  mp_src :: resource
  mp_dest :: "resource option"
  mp_parent :: resource
  mp_name :: string
  mp_dest_norm :: string
  mp_infinite :: bool
  mp_renames :: bool

definition renames_source :: "'s env \<Rightarrow> bool \<Rightarrow> string \<Rightarrow> string \<Rightarrow> bool" where
  "renames_source e is_move src_norm dest_norm \<longleftrightarrow>
     is_move \<and> src_norm \<noteq> dest_norm \<and> fold_name e src_norm = fold_name e dest_norm"

text \<open>The destination as it counts: not the source itself seen under another spelling.\<close>

definition dest_found :: "'s env \<Rightarrow> 's \<Rightarrow> bool \<Rightarrow> resource \<Rightarrow> resource option \<Rightarrow> resource option" where
  "dest_found e s renames src found =
     (if renames then
        (case (res_phys src, Option.bind found res_phys) of
           (Some a, Some b) \<Rightarrow> if same_file e s a b then None else found
         | _ \<Rightarrow> found)
      else found)"

text \<open>The conditional headers and the DAV locks, in the order of the code.\<close>

definition move_locks ::
  "http_date \<Rightarrow> validators \<Rightarrow> (nat \<Rightarrow> nat) \<Rightarrow> dav_req \<Rightarrow> bool \<Rightarrow> resource \<Rightarrow> resource option \<Rightarrow>
   resource \<Rightarrow> lock_table \<Rightarrow> (dav_error + unit) \<times> lock_table" where
  "move_locks http_date validators clk req is_move src dest dest_parent tbl =
     check_opt (eval_if http_date validators (clk 0) req src tbl) (\<lambda>tbl.
     check_opt (case dest of None \<Rightarrow> (Inr (), tbl) | Some d \<Rightarrow> eval_if http_date validators (clk 1) req d tbl) (\<lambda>tbl.
     check_opt (if is_move then check_dav_locks (clk 2) req (resource_key src (req_user req)) True tbl
                else (Inr (), tbl)) (\<lambda>tbl.
     check_opt (case (is_move, uri_parent (req_path req)) of
                  (True, Some p) \<Rightarrow> check_dav_locks (clk 3) req (normalize p) False tbl
                | _ \<Rightarrow> (Inr (), tbl)) (\<lambda>tbl.
     (case dest of
        None \<Rightarrow> check_dav_locks (clk 4) req (resource_key dest_parent (req_user req)) False tbl
      | Some d \<Rightarrow> check_dav_locks (clk 4) req (resource_key d (req_user req)) True tbl)))))"

definition move_classes_ok :: "string \<Rightarrow> string \<Rightarrow> bool" where
  "move_classes_ok path dest_path \<longleftrightarrow>
     class_of path \<in> {CLibrary, CProgress} \<and> class_of dest_path = class_of path"

text \<open>
  What is decided before a COPY or MOVE acts. Its lookups and metadata reads, which the code makes
  one after the other, see one state of the disk here: nothing is called in between.
\<close>

definition move_gate ::
  "http_date \<Rightarrow> validators \<Rightarrow> (string \<Rightarrow> string) \<Rightarrow> string option \<Rightarrow> 's env \<Rightarrow> 's \<Rightarrow> (nat \<Rightarrow> nat) \<Rightarrow>
   dav_req \<Rightarrow> bool \<Rightarrow> lock_table \<Rightarrow> (dav_error + move_plan) \<times> lock_table" where
  "move_gate http_date validators pct_decode authority e s clk req is_move tbl =
     (let find_res = (\<lambda>p. lookup (view e s) (the_roots e) p (req_caller req)) in
      if is_virtual_root (req_path req)
      then (Inl (forbid ''The library root cannot be moved or copied.''), tbl)
      else case find_res (req_path req) of None \<Rightarrow> (Inl (dav_error_new 404 (req_path req)), tbl) | Some src \<Rightarrow>
      (case destination_path pct_decode authority req of Inl er \<Rightarrow> (Inl er, tbl) | Inr dest_path \<Rightarrow>
      (case overwrite_of req of Inl er \<Rightarrow> (Inl er, tbl) | Inr overwrite \<Rightarrow>
      (case depth_of req is_move src of Inl er \<Rightarrow> (Inl er, tbl) | Inr deep \<Rightarrow>
      (let dest_path = (if is_collection src then trim_end_c CHR ''/'' dest_path @ ''/'' else dest_path) in
       if dav_is_history_path (req_path req) \<or> dav_is_history_path dest_path
       then (Inl (forbid ''Reading history cannot be moved or copied.''), tbl)
       else if \<not> move_classes_ok (req_path req) dest_path
       then (Inl (forbid ''Source and destination must both be library paths, or both progress files.''), tbl)
       else
        (let src_norm = normalize (req_path req);
             dest_norm = normalize dest_path;
             renames = renames_source e is_move src_norm dest_norm;
             dest = dest_found e s renames src (find_res dest_path)
         in case Option.bind (uri_parent dest_path) find_res of
           None \<Rightarrow> (Inl (dav_error_new 409 ''Destination parent must be a collection.''), tbl)
         | Some parent \<Rightarrow>
           if \<not> is_collection parent
           then (Inl (dav_error_new 409 ''Destination parent must be a collection.''), tbl)
           else check_opt (move_locks http_date validators clk req is_move src dest parent tbl) (\<lambda>tbl.
             if src_norm = dest_norm
             then (Inl (forbid ''Cannot copy/move source onto itself''), tbl)
             else if is_equal_or_child src_norm dest_norm
             then (Inl (forbid ''Cannot copy/move source below itself''), tbl)
             else if dest \<noteq> None \<and> \<not> overwrite
             then (Inl (dav_error_new 412 ''Destination already exists and Overwrite is set to false''), tbl)
             else if (case dest of None \<Rightarrow> False | Some d \<Rightarrow> is_collection d \<noteq> is_collection src)
             then (Inl (dav_error_new 409
                    ''Source and destination must both be files or both be collections.''), tbl)
             else (Inr \<lparr>mp_src = src, mp_dest = dest, mp_parent = parent, mp_name = uri_name dest_path,
                        mp_dest_norm = dest_norm, mp_infinite = deep, mp_renames = renames\<rparr>, tbl))))))))"

section \<open>Moving and copying files\<close>

definition same_physical :: "'s env \<Rightarrow> fs_path \<Rightarrow> fs_path \<Rightarrow> 's \<Rightarrow> bool" where
  "same_physical e a b s \<longleftrightarrow> a = b \<or> same_file e s a b"

text \<open>
  The deepest ancestor of the destination that has a canonical path, with the rest put back:
  the path probed is given reversed.
\<close>

fun probe_below :: "(fs_path \<Rightarrow> fs_path option) \<Rightarrow> fs_path \<Rightarrow> fs_path \<Rightarrow> fs_path \<Rightarrow> fs_path \<Rightarrow> bool" where
  "probe_below canon src dest probe below =
     (case canon (rev probe) of
        Some c \<Rightarrow> starts_with (c @ below) src
      | None \<Rightarrow>
          (case probe of
             [] \<Rightarrow> starts_with dest src
           | n # up \<Rightarrow> probe_below canon src dest up (n # below)))"

definition physically_below :: "'s env \<Rightarrow> fs_path \<Rightarrow> fs_path \<Rightarrow> 's \<Rightarrow> bool" where
  "physically_below e dest src s =
     (let canon = canonical (view e s) in
      case canon src of
        None \<Rightarrow> starts_with dest src
      | Some c \<Rightarrow> probe_below canon c dest (rev dest) [])"

definition parent_dir :: "fs_path \<Rightarrow> fs_path option" where
  "parent_dir p = (if p = [] then None else Some (butlast p))"

definition make_parent :: "'s env \<Rightarrow> fs_path \<Rightarrow> ('s, unit) op" where
  "make_parent e dest =
     (case parent_dir dest of None \<Rightarrow> ret () | Some p \<Rightarrow> io e (CreateDirAll p))"

definition rename_hooks :: "string option \<Rightarrow> string option \<Rightarrow> ('s, unit) op" where
  "rename_hooks old new =
     (case (old, new) of (Some a, Some b) \<Rightarrow> hook (RenameUpload a b) | _ \<Rightarrow> ret ())"

definition move_file ::
  "'s env \<Rightarrow> dav_req \<Rightarrow> string \<Rightarrow> fs_path \<Rightarrow> string \<Rightarrow> fs_path \<Rightarrow> ('s, unit) op" where
  "move_file e req src_v src dest_v dest =
     (let target = file_audit_target e src_v src in
      with_guard e [src, dest] (write_lock_conflict req target ''move'' (Some dest_v))
        (block
          [primary_leaving e src,
           make_parent e dest,
           io e (Rename src dest),
           when_op (is_cbz src) (note_removed e src),
           note_arrived e dest,
           rename_hooks (rel_of e src) (rel_of e dest),
           forget_ocr_records e (rel_of e src) True,
           forget_ocr_records e (rel_of e dest) False,
           touch src_v (Some src),
           touch dest_v (Some dest),
           audit req ''move'' target [(''destination'', dest_v)]]))"

definition staging_path :: "'s env \<Rightarrow> fs_path \<Rightarrow> fs_path" where
  "staging_path e dest =
     butlast dest @ [''.'' @ path_name dest @ ''.upload-copy'' @ show_nat (pid e) @ ''.tmp'']"

text \<open>On an error the staging file is removed, whatever that call answers.\<close>

definition cleanup :: "('s, unit) op \<Rightarrow> ('s, unit) op \<Rightarrow> ('s, unit) op" where
  "cleanup m undo w =
     (case m w of
        None \<Rightarrow> None
      | Some (Inr x, w) \<Rightarrow> Some (Inr x, w)
      | Some (Inl er, w) \<Rightarrow> bind_op undo (\<lambda>_. fail er) w)"

lemma cleanup_cases:
  assumes "cleanup m undo w = Some (r, w')"
  obtains (fine) x where "m w = Some (Inr x, w')" "r = Inr x"
    | (undone) er w1 where "m w = Some (Inl er, w1)" "bind_op undo (\<lambda>_. fail er) w1 = Some (r, w')"
proof (cases "m w")
  case None
  with assms show thesis by (simp add: cleanup_def)
next
  case (Some a)
  obtain q w1 where a: "a = (q, w1)" by (cases a)
  show thesis
  proof (cases q)
    case (Inl er)
    with assms Some a show thesis by (intro undone [of er w1]) (auto simp: cleanup_def)
  next
    case (Inr x)
    with assms Some a show thesis by (intro fine [of x]) (auto simp: cleanup_def)
  qed
qed

definition copy_one :: "'s env \<Rightarrow> fs_path \<Rightarrow> fs_path \<Rightarrow> ('s, unit) op" where
  "copy_one e src dest =
     (case parent_dir dest of
        None \<Rightarrow> fail (dav_error_new 500 ''no parent'')
      | Some dir \<Rightarrow>
          let temp = staging_path e dest in
          block
            [io e (CreateDirAll dir),
             cleanup
               (block [io e (CopyFile src temp), io e (CopyTimes src temp), io e (Rename temp dest)])
               (io_ignored e (RemoveFile temp))])"

definition copy_file ::
  "'s env \<Rightarrow> dav_req \<Rightarrow> fs_path \<Rightarrow> string \<Rightarrow> fs_path \<Rightarrow> ('s, unit) op" where
  "copy_file e req src dest_v dest =
     (let target = file_audit_target e dest_v dest in
      with_guard e [dest] (write_lock_conflict req target ''copy'' (Some dest_v))
        (block
          [copy_one e src dest,
           note_arrived e dest,
           forget_ocr_records e (rel_of e dest) False,
           touch dest_v (Some dest),
           audit req ''copy'' (file_audit_target e dest_v dest) [(''destination'', dest_v)]]))"

section \<open>Moving and copying folders\<close>

text \<open>One folder's entries: the subfolders pushed on the stack, the archives collected.\<close>

fun cbz_entries :: "disk \<Rightarrow> fs_path \<Rightarrow> string list \<Rightarrow> fs_path list \<Rightarrow> fs_path list \<Rightarrow> fs_path list \<times> fs_path list" where
  "cbz_entries d dir [] stack out = (stack, out)"
| "cbz_entries d dir (n # names) stack out =
     (let p = dir @ [n] in
      if links d p = Present \<and> (case stat_of d p of None \<Rightarrow> False | Some st \<Rightarrow> is_dir st)
      then cbz_entries d dir names (p # stack) out
      else if links d p \<noteq> NoMeta \<and> is_cbz p then cbz_entries d dir names stack (out @ [p])
      else cbz_entries d dir names stack out)"

fun cbz_loop :: "nat \<Rightarrow> disk \<Rightarrow> fs_path list \<Rightarrow> fs_path list \<Rightarrow> fs_path list option" where
  "cbz_loop fuel d [] out = Some out"
| "cbz_loop 0 d (p # stack) out = None"
| "cbz_loop (Suc fuel) d (p # stack) out =
     (case dir_names d p of
        None \<Rightarrow> cbz_loop fuel d stack out
      | Some names \<Rightarrow>
          let (stack, out) = cbz_entries d p names stack out in cbz_loop fuel d stack out)"

definition cbz_under :: "nat \<Rightarrow> 's env \<Rightarrow> fs_path \<Rightarrow> (fs_path list \<Rightarrow> ('s, unit) op) \<Rightarrow> ('s, unit) op" where
  "cbz_under fuel e dir k =
     look (\<lambda>s. cbz_loop fuel (view e s) [dir] [])
       (\<lambda>r. case r of None \<Rightarrow> no_fuel | Some ps \<Rightarrow> k ps)"

definition moved_rel :: "string \<Rightarrow> string \<Rightarrow> string \<Rightarrow> string" where
  "moved_rel old_prefix new_prefix old_rel =
     (let suffix = trim_start_c CHR ''/'' (drop (min (length old_prefix) (length old_rel)) old_rel) in
      if suffix = [] then new_prefix else new_prefix @ ''/'' @ suffix)"

definition folder_hooks ::
  "'s env \<Rightarrow> string option \<Rightarrow> string option \<Rightarrow> fs_path list \<Rightarrow> ('s, unit) op" where
  "folder_hooks e old new volumes =
     (case (old, new) of
        (Some old_prefix, Some new_prefix) \<Rightarrow>
          block
            [for_each
               (\<lambda>v. case rel_of e v of
                  None \<Rightarrow> ret ()
                | Some old_rel \<Rightarrow> hook (RenameUpload old_rel (moved_rel old_prefix new_prefix old_rel)))
               volumes,
             hook (RenameSidecarsUnder old_prefix new_prefix),
             hook (RenameUuidsUnder old_prefix new_prefix)]
      | (Some old_prefix, None) \<Rightarrow>
          block [hook (ForgetSidecarsUnder old_prefix), hook (ForgetUuidsUnder old_prefix)]
      | _ \<Rightarrow> ret ())"

definition move_folder ::
  "nat \<Rightarrow> 's env \<Rightarrow> dav_req \<Rightarrow> string \<Rightarrow> fs_path \<Rightarrow> string \<Rightarrow> fs_path \<Rightarrow> ('s, unit) op" where
  "move_folder fuel e req src_v src dest_v dest =
     (let target = folder_audit_target e src_v (Some src) in
      with_guard e [src, dest] (write_lock_conflict req target ''move'' (Some dest_v))
        (cbz_under fuel e src (\<lambda>volumes.
          block
            [make_parent e dest,
             io e (Rename src dest),
             note_removed e src,
             folder_hooks e (rel_of e src) (rel_of e dest) volumes,
             cbz_under fuel e dest (for_each (note_arrived e)),
             touch src_v (Some src),
             touch dest_v (Some dest),
             audit req ''move'' target [(''destination'', dest_v)]])))"

type_synonym work_stack = "(fs_path \<times> fs_path \<times> string) list"

text \<open>The members of an existing destination that the source lacks are deleted.\<close>

definition found_resource :: "string \<Rightarrow> fs_path \<Rightarrow> stat \<Rightarrow> bool \<Rightarrow> resource" where
  "found_resource vp dp st d_is_dir =
     (if d_is_dir then RFolder vp dp st KLibrary else RFile vp dp st KLibrary)"

text \<open>
  One such member. The code stats the destination, the source and, before a deletion, the destination
  again; there is no call between the three, so here they are one read.
\<close>

definition prune_entry ::
  "'s env \<Rightarrow> dav_req \<Rightarrow> fs_path \<Rightarrow> fs_path \<Rightarrow> string \<Rightarrow> work_stack \<Rightarrow> ('s, work_stack) op" where
  "prune_entry e req sp dp vp stack =
     look (\<lambda>s. (stat_of (view e s) sp, stat_of (view e s) dp)) (\<lambda>(sm, dm).
       let d_is_dir = (case dm of None \<Rightarrow> False | Some st \<Rightarrow> is_dir st) in
       if (case sm of None \<Rightarrow> False | Some st \<Rightarrow> is_dir st = d_is_dir)
       then ret (if d_is_dir then (sp, dp, vp) # stack else stack)
       else
         (case dm of
            None \<Rightarrow> ret stack
          | Some st \<Rightarrow>
              bind_op (delete_resource e req (found_resource vp dp st d_is_dir)) (\<lambda>_. ret stack)))"

fun prune_entries ::
  "'s env \<Rightarrow> dav_req \<Rightarrow> fs_path \<Rightarrow> fs_path \<Rightarrow> string \<Rightarrow> string list \<Rightarrow> work_stack \<Rightarrow> ('s, work_stack) op" where
  "prune_entries e req s d v [] stack = ret stack"
| "prune_entries e req s d v (n # names) stack =
     bind_op (prune_entry e req (s @ [n]) (d @ [n]) (v @ ''/'' @ n) stack)
       (prune_entries e req s d v names)"

fun prune_loop :: "nat \<Rightarrow> 's env \<Rightarrow> dav_req \<Rightarrow> work_stack \<Rightarrow> ('s, unit) op" where
  "prune_loop fuel e req [] = ret ()"
| "prune_loop 0 e req (x # stack) = no_fuel"
| "prune_loop (Suc fuel) e req ((s, d, v) # stack) =
     look (\<lambda>st. dir_names (view e st) d) (\<lambda>listed.
       case listed of
         None \<Rightarrow> prune_loop fuel e req stack
       | Some names \<Rightarrow> bind_op (prune_entries e req s d v names stack) (prune_loop fuel e req))"

definition prune_unmatched ::
  "nat \<Rightarrow> 's env \<Rightarrow> dav_req \<Rightarrow> resource \<Rightarrow> fs_path \<Rightarrow> fs_path \<Rightarrow> ('s, unit) op" where
  "prune_unmatched fuel e req existing src dest =
     prune_loop fuel e req [(src, dest, trim_end_c CHR ''/'' (res_path existing))]"

definition copy_entry ::
  "'s env \<Rightarrow> dav_req \<Rightarrow> fs_path \<Rightarrow> fs_path \<Rightarrow> fs_path \<Rightarrow> string \<Rightarrow> work_stack \<Rightarrow> ('s, work_stack) op" where
  "copy_entry e req dest_phys f t v stack =
     look (\<lambda>s. (stat_of (view e s) f, canonical (view e s) f)) (\<lambda>(st, canon).
       case st of
         None \<Rightarrow> ret stack
       | Some st \<Rightarrow>
           if is_dir st then
             (if (case canon of
                    None \<Rightarrow> False
                  | Some c \<Rightarrow> starts_with c (library_root (the_roots e)) \<and> \<not> starts_with dest_phys c)
              then bind_op (io e (CreateDirAll t)) (\<lambda>_. ret ((f, t, v) # stack))
              else ret stack)
           else
             bind_op
               (block
                 [look (exists_at e t) (\<lambda>there. when_op there (delete_file e req v t)),
                  copy_file e req f v t])
               (\<lambda>_. ret stack))"

fun copy_entries ::
  "'s env \<Rightarrow> dav_req \<Rightarrow> fs_path \<Rightarrow> fs_path \<Rightarrow> fs_path \<Rightarrow> string \<Rightarrow> string list \<Rightarrow> work_stack \<Rightarrow>
   ('s, work_stack) op" where
  "copy_entries e req dest_phys src dest v [] stack = ret stack"
| "copy_entries e req dest_phys src dest v (n # names) stack =
     (if is_staging_name n then copy_entries e req dest_phys src dest v names stack
      else
        bind_op (copy_entry e req dest_phys (src @ [n]) (dest @ [n]) (v @ ''/'' @ n) stack)
          (copy_entries e req dest_phys src dest v names))"

fun copy_loop :: "nat \<Rightarrow> 's env \<Rightarrow> dav_req \<Rightarrow> fs_path \<Rightarrow> work_stack \<Rightarrow> ('s, unit) op" where
  "copy_loop fuel e req dest_phys [] = ret ()"
| "copy_loop 0 e req dest_phys (x # stack) = no_fuel"
| "copy_loop (Suc fuel) e req dest_phys ((src, dest, v) # stack) =
     look (\<lambda>st. dir_names (view e st) src) (\<lambda>listed.
       case listed of
         None \<Rightarrow> copy_loop fuel e req dest_phys stack
       | Some names \<Rightarrow>
           bind_op (copy_entries e req dest_phys src dest v (sort names) stack)
             (copy_loop fuel e req dest_phys))"

definition copy_folder ::
  "nat \<Rightarrow> 's env \<Rightarrow> dav_req \<Rightarrow> resource \<Rightarrow> resource option \<Rightarrow> string \<Rightarrow> fs_path \<Rightarrow> bool \<Rightarrow> ('s, unit) op" where
  "copy_folder fuel e req src dest dest_v dest_phys deep =
     (case res_phys src of
        None \<Rightarrow> fail (dav_error_status 403)
      | Some src_phys \<Rightarrow>
          block
            [(case dest of
                None \<Rightarrow> ret ()
              | Some existing \<Rightarrow> when_op deep (prune_unmatched fuel e req existing src_phys dest_phys)),
             io e (CreateDirAll dest_phys),
             touch dest_v (Some dest_phys),
             when_op deep
               (copy_loop fuel e req dest_phys [(src_phys, dest_phys, trim_end_c CHR ''/'' dest_v)])])"

section \<open>COPY and MOVE\<close>

text \<open>Paths that differ as texts may name the same place on the disk.\<close>

definition onto_itself :: "'s env \<Rightarrow> move_plan \<Rightarrow> fs_path \<Rightarrow> 's \<Rightarrow> dav_error option" where
  "onto_itself e plan dest_phys s =
     (case res_phys (mp_src plan) of
        None \<Rightarrow> None
      | Some src_phys \<Rightarrow>
          if mp_renames plan then None
          else if same_physical e src_phys dest_phys s
          then Some (forbid ''Cannot copy/move source onto itself'')
          else if is_collection (mp_src plan) \<and> physically_below e dest_phys src_phys s
          then Some (forbid ''Cannot copy/move source below itself'')
          else None)"

definition delete_dest :: "'s env \<Rightarrow> dav_req \<Rightarrow> resource option \<Rightarrow> ('s, unit) op" where
  "delete_dest e req dest = (case dest of None \<Rightarrow> ret () | Some d \<Rightarrow> delete_resource e req d)"

definition move_transfer ::
  "nat \<Rightarrow> 's env \<Rightarrow> dav_req \<Rightarrow> bool \<Rightarrow> move_plan \<Rightarrow> fs_path \<Rightarrow> ('s, nat) op" where
  "move_transfer fuel e req is_move plan dest_phys =
     (let dest = mp_dest plan; dest_v = mp_dest_norm plan;
          fresh = (if dest \<noteq> None then 204 else 201) in
      case mp_src plan of
        RVirtual _ \<Rightarrow> fail (dav_error_status 403)
      | RFile path phys _ _ \<Rightarrow>
          if is_move
          then bind_op (move_file e req path phys dest_v dest_phys) (\<lambda>_. ret 204)
          else bind_op (block [delete_dest e req dest, copy_file e req phys dest_v dest_phys])
                 (\<lambda>_. ret fresh)
      | RFolder path phys _ _ \<Rightarrow>
          if is_move
          then bind_op (block [delete_dest e req dest, move_folder fuel e req path phys dest_v dest_phys])
                 (\<lambda>_. ret fresh)
          else bind_op
                 (copy_folder fuel e req (mp_src plan) dest dest_v dest_phys (mp_infinite plan))
                 (\<lambda>_. ret fresh))"

definition move_work :: "nat \<Rightarrow> 's env \<Rightarrow> dav_req \<Rightarrow> bool \<Rightarrow> move_plan \<Rightarrow> ('s, nat) op" where
  "move_work fuel e req is_move plan =
     look (\<lambda>s. destination_of (view e s) (the_roots e) (mp_parent plan) (mp_name plan) (req_caller req)) (\<lambda>found.
       case found of
         None \<Rightarrow> fail (forbid ''Forbidden'')
       | Some (dest_phys, _) \<Rightarrow>
           look (onto_itself e plan dest_phys) (\<lambda>refused.
             case refused of
               Some er \<Rightarrow> fail er
             | None \<Rightarrow>
                 bind_op (move_transfer fuel e req is_move plan dest_phys) (\<lambda>status.
                   bind_op
                     (block
                       [when_op is_move (drop_locks (resource_key (mp_src plan) (req_user req))),
                        fire e])
                     (\<lambda>_. ret status))))"

definition copy_move ::
  "nat \<Rightarrow> http_date \<Rightarrow> validators \<Rightarrow> (string \<Rightarrow> string) \<Rightarrow> string option \<Rightarrow> 's env \<Rightarrow> 's \<Rightarrow>
   (nat \<Rightarrow> nat) \<Rightarrow> dav_req \<Rightarrow> bool \<Rightarrow> ('s, nat) op" where
  "copy_move fuel http_date validators pct_decode authority e s clk req is_move w =
     after_gate
       (move_gate http_date validators pct_decode authority e s clk req is_move (lock_tbl (tables w)))
       (move_work fuel e req is_move) w"

end
