(* ===== verification/Dav_Mem.thy ===== *)
theory Dav_Mem
  imports Dav_Write
begin

text \<open>
  A small disk in memory on which the handlers of \<open>Dav_Write\<close> run: the existing paths, each
  with whether it is a folder, without links. It stands for no part of the program; the
  examples at the end of the theories on WebDAV writes evaluate the handlers on it.
\<close>

type_synonym mem = "(fs_path \<times> bool) list"

definition mem_stat :: "mem \<Rightarrow> fs_path \<Rightarrow> stat option" where
  "mem_stat m p =
     map_option (\<lambda>d. \<lparr>size = 1, mtime_secs = 0, mtime_nanos = 0, ctime_secs = 0, is_dir = d\<rparr>) (map_of m p)"

definition mem_disk :: "mem \<Rightarrow> disk" where
  "mem_disk m =
     \<lparr>links = (\<lambda>p. if map_of m p = None then NoMeta else Present),
      stat_of = mem_stat m,
      dir_names = (\<lambda>p. if map_of m p = Some True
                        then Some (map last (filter (\<lambda>q. q \<noteq> [] \<and> butlast q = p) (map fst m))) else None),
      canonical = (\<lambda>p. if map_of m p = None then None else Some p)\<rparr>"

definition io_missing :: io_error where
  "io_missing = \<lparr>io_kind = IoNotFound, io_text = ''No such file or directory (os error 2)'', io_os = Some 2\<rparr>"

definition mem_without :: "fs_path \<Rightarrow> mem \<Rightarrow> mem" where
  "mem_without p m = filter (\<lambda>(q, _). \<not> starts_with q p) m"

definition mem_sys :: "fs_call \<Rightarrow> mem \<Rightarrow> (io_error + unit) \<times> mem" where
  "mem_sys f m =
     (case f of
        RemoveFile p \<Rightarrow>
          if map_of m p = Some False then (Inr (), mem_without p m) else (Inl io_missing, m)
      | RemoveDirAll p \<Rightarrow>
          if map_of m p = Some True then (Inr (), mem_without p m) else (Inl io_missing, m)
      | Rename a b \<Rightarrow>
          if map_of m a = None then (Inl io_missing, m)
          else (Inr (), map (\<lambda>(q, d). (case strip_prefix a q of Some r \<Rightarrow> b @ r | None \<Rightarrow> q, d)) (mem_without b m))
      | CreateDirAll p \<Rightarrow> (Inr (), if map_of m p = None then (p, True) # m else m)
      | CopyFile a b \<Rightarrow>
          if map_of m a = Some False then (Inr (), (b, False) # mem_without b m) else (Inl io_missing, m)
      | CopyTimes a b \<Rightarrow> if map_of m a = Some False then (Inr (), m) else (Inl io_missing, m)
      | CreateNew p \<Rightarrow>
          if map_of m p = None then (Inr (), (p, False) # m)
          else (Inl \<lparr>io_kind = IoAlreadyExists, io_text = ''File exists (os error 17)'', io_os = Some 17\<rparr>, m)
      | _ \<Rightarrow> (Inr (), m))"

definition mem_env :: "lock_key list \<Rightarrow> mem env" where
  "mem_env locked =
     \<lparr>the_roots = demo_roots, view = mem_disk, same_file = (\<lambda>m a b. a = b \<and> map_of m a \<noteq> None),
      held = (\<lambda>_. locked), sys = mem_sys, lower_str = to_ascii_lower, fold_name = to_ascii_lower, pid = 7\<rparr>"

definition mem_lib :: "string list \<Rightarrow> fs_path" where
  "mem_lib p = [''srv'', ''library''] @ p"

definition mem_world :: "mem \<Rightarrow> lock_table \<Rightarrow> dead_props \<Rightarrow> mem world" where
  "mem_world m locks dead =
     \<lparr>os_state = m, tables = \<lparr>lock_tbl = locks, dead_tbl = dead\<rparr>, eff = no_effects, trace = [], damaged = []\<rparr>"

definition mem_req :: "string \<Rightarrow> string \<Rightarrow> (string \<times> string) list \<Rightarrow> dav_req" where
  "mem_req meth path hs =
     \<lparr>req_method = meth, req_path = path, req_headers = map_of hs, req_user = Some ''bo'',
      req_owns_root = False, req_if = None\<rparr>"

text \<open>A series \<open>S\<close> with one volume and its side file, and another series \<open>T\<close>.\<close>

definition mem_sample :: mem where
  "mem_sample =
     [([''srv''], True), (mem_lib [], True), (mem_lib [''S''], True),
      (mem_lib [''S'', ''V.cbz''], False), (mem_lib [''S'', ''V.mokuro''], False),
      (mem_lib [''T''], True), (mem_lib [''T'', ''W.cbz''], False)]"

abbreviation plain_validators :: validators where
  "plain_validators \<equiv> \<lambda>_. (None, 0)"

abbreviation no_dates :: http_date where
  "no_dates \<equiv> \<lambda>_. None"

definition mem_run :: "lock_key list \<Rightarrow> dav_req \<Rightarrow> mem world \<Rightarrow> ((dav_error + nat) \<times> mem world) option" where
  "mem_run locked req w =
     (if req_method req = ''DELETE''
      then delete_method no_dates plain_validators (mem_env locked) (os_state w) (\<lambda>i. i) req w
      else if req_method req = ''MKCOL''
      then mkcol_method (mem_env locked) (os_state w) (\<lambda>i. i) req w
      else copy_move 20 no_dates plain_validators id None (mem_env locked) (os_state w) (\<lambda>i. i) req
             (req_method req = ''MOVE'') w)"

definition mem_answer :: "((dav_error + nat) \<times> mem world) option \<Rightarrow> (nat \<times> mem) option" where
  "mem_answer r = map_option (\<lambda>(a, w). (case a of Inl er \<Rightarrow> status er | Inr n \<Rightarrow> n, os_state w)) r"

text \<open>Whether a run succeeded, and its status.\<close>

definition run_status :: "((dav_error + nat) \<times> 'w) option \<Rightarrow> (bool \<times> nat) option" where
  "run_status r = map_option (\<lambda>(a, w). case a of Inl er \<Rightarrow> (False, status er) | Inr n \<Rightarrow> (True, n)) r"

lemma run_refused: "run_status r = Some (False, n) \<Longrightarrow> \<exists>er w'. r = Some (Inl er, w') \<and> status er = n"
  by (cases "fst (the r)") (auto simp: run_status_def)

lemma run_done: "run_status r = Some (True, n) \<Longrightarrow> \<exists>w'. r = Some (Inr n, w')"
  by (cases "fst (the r)") (auto simp: run_status_def)

end
