(* ===== verification/Dav_Write_Safe.thy ===== *)
theory Dav_Write_Safe
  imports Dav_Mem
begin

text \<open>
  Where the calls of DELETE, MKCOL, COPY and MOVE go. The interface \<open>write_observer\<close> states
  what an invariant of worlds has to survive: the calls that \<open>call_ok\<close> allows and the
  bookkeeping. The handlers keep every such invariant, once and for all.
\<close>

section \<open>Dispatch\<close>

text \<open>The part of \<open>dispatch\<close> that reaches the handlers of \<open>write.rs\<close>.\<close>

definition dispatch_write ::
  "nat \<Rightarrow> http_date \<Rightarrow> validators \<Rightarrow> (string \<Rightarrow> string) \<Rightarrow> string option \<Rightarrow> 's env \<Rightarrow> 's \<Rightarrow>
   (nat \<Rightarrow> nat) \<Rightarrow> dav_req \<Rightarrow> ('s, nat) op option" where
  "dispatch_write fuel http_date validators pct_decode authority e s clk req =
     (if req_method req = ''DELETE'' then Some (delete_method http_date validators e s clk req)
      else if req_method req = ''MKCOL'' then Some (mkcol_method e s clk req)
      else if req_method req = ''COPY''
      then Some (copy_move fuel http_date validators pct_decode authority e s clk req False)
      else if req_method req = ''MOVE''
      then Some (copy_move fuel http_date validators pct_decode authority e s clk req True)
      else None)"

section \<open>Places\<close>

text \<open>Strictly inside the library, or in the caller's own tree: closed under going down.\<close>

definition inside :: "roots \<Rightarrow> caller option \<Rightarrow> fs_path \<Rightarrow> bool" where
  "inside roots c p \<longleftrightarrow>
     (\<exists>n rest. p = library_root roots @ n # rest \<and> \<not> is_per_user_root_name n) \<or>
     (\<exists>a. c = Some a \<and> own_place roots a p)"

definition placed_any :: "roots \<Rightarrow> caller option \<Rightarrow> fs_path \<Rightarrow> bool" where
  "placed_any roots c p \<longleftrightarrow> inside roots c p \<or> p = library_root roots"

text \<open>A staging file beside a place that may be written.\<close>

definition staging_beside :: "roots \<Rightarrow> caller option \<Rightarrow> fs_path \<Rightarrow> bool" where
  "staging_beside roots c p \<longleftrightarrow>
     (\<exists>q. inside roots c q \<and> q \<noteq> [] \<and> p \<noteq> [] \<and> butlast p = butlast q \<and> is_staging_name (last p))"

fun call_ok :: "roots \<Rightarrow> caller option \<Rightarrow> fs_call \<Rightarrow> bool" where
  "call_ok roots c (RemoveFile p) = (placed_any roots c p \<or> staging_beside roots c p)"
| "call_ok roots c (RemoveDirAll p) = placed_any roots c p"
| "call_ok roots c (Rename a b) =
     ((placed_any roots c a \<or> staging_beside roots c a) \<and> inside roots c b)"
| "call_ok roots c (CreateDirAll p) =
     (placed_any roots c p \<or> (\<exists>q. inside roots c q \<and> q \<noteq> [] \<and> p = butlast q))"
| "call_ok roots c (CopyFile a b) = staging_beside roots c b"
| "call_ok roots c (CopyTimes a b) = staging_beside roots c b"
| "call_ok roots c (CreateNew p) = staging_beside roots c p"
| "call_ok roots c (WriteTo p x) = staging_beside roots c p"
| "call_ok roots c (FlushFile p) = staging_beside roots c p"
| "call_ok roots c (SyncFile p) = staging_beside roots c p"

lemma inside_append: "inside roots c p \<Longrightarrow> inside roots c (p @ x)"
  unfolding inside_def own_place_def by fastforce

lemma inside_placed [simp, intro]: "inside roots c p \<Longrightarrow> placed_any roots c p"
  by (simp add: placed_any_def)

lemma inside_library: "rest \<noteq> [] \<Longrightarrow> \<not> is_per_user_root_name (hd rest) \<Longrightarrow> inside roots c (library_root roots @ rest)"
  by (cases rest) (auto simp: inside_def)

lemma library_place_any: "library_place roots p \<Longrightarrow> placed_any roots c p"
proof -
  assume "library_place roots p"
  then obtain rest where "p = library_root roots @ rest" "rest = [] \<or> \<not> is_per_user_root_name (hd rest)"
    by (auto simp: library_place_def)
  then show ?thesis by (cases rest) (auto simp: placed_any_def inside_def)
qed

lemma placed_anyI: "placed roots c kind p \<Longrightarrow> placed_any roots c p"
  by (cases kind) (auto simp: placed_def library_place_any inside_def split: option.splits)

lemma lookup_placed_any: "lookup d roots path c = Some r \<Longrightarrow> res_phys r = Some p \<Longrightarrow> placed_any roots c p"
  by (drule (1) lookup_placed) (auto dest: placed_anyI)

lemma member_path_placed_any: "member_path d roots parent name c = Some (p, kind) \<Longrightarrow> placed_any roots c p"
  by (drule member_path_placed) (rule placed_anyI)

lemma place_candidate_inside:
  assumes "place_candidate d roots dir name = Some (p, kind)" and "starts_with dir (library_root roots)"
  shows "inside roots c p"
proof -
  from assms(1) have p: "p = dir @ [name]" and "library_rel roots p \<noteq> None"
    by (auto simp: place_candidate_def Let_def split: if_splits option.splits)
  then have "library_place roots p" by (intro library_rel_place)
  with p assms(2) obtain rest where "p = library_root roots @ rest @ [name]"
    and "\<not> is_per_user_root_name (hd (rest @ [name]))"
    by (auto simp: library_place_def starts_with_iff)
  then show ?thesis using inside_library [of "rest @ [name]"] by simp
qed

lemma user_path_inside: "user_path d roots a rel = Some p \<Longrightarrow> inside roots (Some a) p"
  by (auto simp: inside_def dest: user_path_own)

lemma destination_of_inside:
  assumes "destination_of d roots parent name c = Some (p, kind)"
    and "lookup d' roots path c = Some parent"
  shows "inside roots c p"
proof (cases parent)
  case (RVirtual v)
  with assms(1) show ?thesis
    by (auto simp: destination_of_def member_path_def is_per_user_root_name_def is_per_user_name_def
        split: if_splits option.splits intro: user_path_inside place_candidate_inside)
next
  case (RFolder v phys st k)
  with assms(1) have k: "k = KLibrary" and cand: "place_candidate d roots phys name = Some (p, kind)"
    by (auto simp: destination_of_def split: file_kind.splits)
  from lookup_placed [OF assms(2), of phys] RFolder k have "library_place roots phys"
    by (auto simp: placed_def)
  then have "starts_with phys (library_root roots)" by (auto simp: library_place_def)
  with cand show ?thesis by (rule place_candidate_inside)
next
  case (RFile v phys st k)
  with assms(1) show ?thesis by (simp add: destination_of_def)
qed

text \<open>The side files of an archive lie where the archive lies.\<close>

lemma per_user_suffixes:
  assumes "suf \<in> {''.mokuro'', ''.mokuro.gz'', ''.webp'', ''.nocover''}"
  shows "\<not> is_per_user_root_name (x @ suf)"
proof -
  have *: "n = x @ suf \<Longrightarrow> ends_with n suf" for n by (auto simp: ends_with_iff)
  have "\<not> ends_with n suf" if "is_per_user_root_name n" for n
    using that assms
    by (auto simp: is_per_user_root_name_def per_user_files_def per_user_dirs_def history_dir_def
        ends_with_def strip_suffix_def)
  with * show ?thesis by blast
qed

lemma split_layer_suffix:
  assumes "split_layer_sidecar n = Some x"
  shows "\<exists>y. n = y @ ''.mokuro'' \<or> n = y @ ''.mokuro.gz''"
  using assms
  by (fastforce simp: split_layer_sidecar_def without_suffix_def ends_with_iff Let_def split: if_splits)

lemma sibling_shape:
  assumes "q \<in> set (siblings e p s)"
  shows "p \<noteq> [] \<and> (\<exists>x suf. q = butlast p @ [x @ suf] \<and> suf \<in> {''.mokuro'', ''.mokuro.gz'', ''.webp'', ''.nocover''})"
  using assms
  by (auto simp: siblings_def Let_def split: if_splits option.splits dest!: split_layer_suffix)

lemma sibling_inside:
  assumes "q \<in> set (siblings e p s)" and "library_rel roots p \<noteq> None" and "p \<noteq> library_root roots"
  shows "inside roots c q"
proof -
  obtain rest where p: "p = library_root roots @ rest" "rest \<noteq> []" "\<not> is_per_user_root_name (hd rest)"
    using library_rel_place [OF assms(2)] assms(3) by (auto simp: library_place_def)
  obtain x suf where q: "q = butlast p @ [x @ suf]" "\<not> is_per_user_root_name (x @ suf)"
    using sibling_shape [OF assms(1)] per_user_suffixes by metis
  show ?thesis
  proof (cases "butlast rest")
    case Nil
    with p q show ?thesis by (simp add: inside_def butlast_append)
  next
    case (Cons n ms)
    with p have "hd rest = n" by (cases rest) (auto split: if_splits)
    with p q Cons show ?thesis by (simp add: inside_def butlast_append)
  qed
qed

lemma split_once_str_occurs: "split_once_str p (a @ p @ b) \<noteq> None"
proof (induction a)
  case Nil
  then show ?case by (subst split_once_str.simps) simp
next
  case (Cons x a)
  then show ?case by (subst split_once_str.simps) (auto split: option.splits)
qed

lemma staging_name: "is_staging_name (''.'' @ x @ ''.upload-copy'' @ y @ ''.tmp'')"
  unfolding is_staging_name_def contains_str_def
  using split_once_str_occurs [of "''.upload-''" "''.'' @ x" "''copy'' @ y @ ''.tmp''"]
  by (auto simp: starts_with_iff ends_with_iff)

lemma staging_path_beside: "inside roots c q \<Longrightarrow> q \<noteq> [] \<Longrightarrow> staging_beside roots c (staging_path e q)"
  using staging_name by (auto simp: staging_beside_def staging_path_def simp del: append.simps)

section \<open>What an observer of the handlers relies on\<close>

locale write_observer =
  fixes e :: "'s env" and c :: "caller option" and I :: "'s world \<Rightarrow> bool"
  assumes obs_sys: "I w \<Longrightarrow> call_ok (the_roots e) c f \<Longrightarrow> sys e f (os_state w) = (r, s) \<Longrightarrow>
      err = (case r of Inl er \<Rightarrow> Some er | Inr _ \<Rightarrow> None) \<Longrightarrow>
      I (w\<lparr>os_state := s, trace := trace w @ [Sys f err]\<rparr>)"
    and obs_hook: "I w \<Longrightarrow> I (w\<lparr>trace := trace w @ [Hook h]\<rparr>)"
    and obs_invalidate: "I w \<Longrightarrow> I (w\<lparr>trace := trace w @ [Invalidate ps]\<rparr>)"
    and obs_effects: "I w \<Longrightarrow> I (w\<lparr>eff := x\<rparr>)"
    and obs_tables: "I w \<Longrightarrow> I (w\<lparr>tables := t\<rparr>)"
    and obs_damage: "I w \<Longrightarrow> I (w\<lparr>damaged := d\<rparr>)"
begin

definition keeps_inv :: "('s, 'a) op \<Rightarrow> bool" where
  "keeps_inv m \<longleftrightarrow> (\<forall>w r w'. I w \<longrightarrow> m w = Some (r, w') \<longrightarrow> I w')"

lemma keeps_invD: "keeps_inv m \<Longrightarrow> I w \<Longrightarrow> m w = Some (r, w') \<Longrightarrow> I w'"
  by (auto simp: keeps_inv_def)

lemma keeps_basic [intro!, simp]:
  "keeps_inv (ret x)" "keeps_inv (fail er)" "keeps_inv no_fuel" "keeps_inv (hook h)"
  "keeps_inv (note_eff f)" "keeps_inv (invalidate_paths ps)" "keeps_inv (drop_locks key)" "keeps_inv (drop_dead key)"
  by (auto simp: keeps_inv_def ret_def fail_def no_fuel_def hook_def note_eff_def invalidate_paths_def
      drop_locks_def drop_dead_def intro: obs_hook obs_invalidate obs_effects obs_tables)

lemma keeps_bind [intro!]: "keeps_inv m \<Longrightarrow> (\<And>x. keeps_inv (k x)) \<Longrightarrow> keeps_inv (bind_op m k)"
  unfolding keeps_inv_def by (blast elim: bind_op_cases)

lemma keeps_block: "(\<And>m. m \<in> set ms \<Longrightarrow> keeps_inv m) \<Longrightarrow> keeps_inv (block ms)"
  by (induction ms) auto

lemma keeps_block_Cons [intro!]: "keeps_inv m \<Longrightarrow> keeps_inv (block ms) \<Longrightarrow> keeps_inv (block (m # ms))"
  by auto

lemma keeps_block_Nil [intro!]: "keeps_inv (block [])"
  by auto

lemma keeps_for_each [intro!]: "(\<And>x. x \<in> set xs \<Longrightarrow> keeps_inv (f x)) \<Longrightarrow> keeps_inv (for_each f xs)"
  unfolding for_each_def by (rule keeps_block) auto

lemma keeps_when [intro!]: "(b \<Longrightarrow> keeps_inv m) \<Longrightarrow> keeps_inv (when_op b m)"
  by (auto simp: when_op_def)

lemma keeps_look [intro!]: "(\<And>s. keeps_inv (k (f s))) \<Longrightarrow> keeps_inv (look f k)"
  by (auto simp: keeps_inv_def look_def)

lemma keeps_guard [intro!]: "keeps_inv x \<Longrightarrow> keeps_inv m \<Longrightarrow> keeps_inv (with_guard e ps x m)"
  by (auto simp: with_guard_def split: option.splits)

lemma keeps_cleanup [intro!]: "keeps_inv m \<Longrightarrow> keeps_inv undo \<Longrightarrow> keeps_inv (cleanup m undo)"
proof -
  assume m: "keeps_inv m" and undo: "keeps_inv undo"
  have u: "keeps_inv (bind_op undo (\<lambda>_. fail er))" for er :: dav_error
    using undo by (intro keeps_bind) auto
  show ?thesis
    unfolding keeps_inv_def
  proof (intro allI impI)
    fix w r w' assume w: "I w" and run: "cleanup m undo w = Some (r, w')"
    from run show "I w'"
    proof (cases rule: cleanup_cases)
      case (fine x)
      then show ?thesis using m w keeps_invD by blast
    next
      case (undone er w1)
      then show ?thesis using keeps_invD [OF u keeps_invD [OF m w]] by blast
    qed
  qed
qed

lemma keeps_sys [intro!]: "call_ok (the_roots e) c f \<Longrightarrow> keeps_inv (sys_op e f)"
  by (auto simp: keeps_inv_def sys_op_def Let_def split: prod.splits intro: obs_sys)

lemma keeps_io [intro!]:
  "call_ok (the_roots e) c f \<Longrightarrow> keeps_inv (io e f)"
  "call_ok (the_roots e) c f \<Longrightarrow> keeps_inv (io_ignored e f)"
  by (auto simp: io_def io_ignored_def split: option.splits)

lemma keeps_fire [intro!]: "keeps_inv (fire e)"
proof -
  have "keeps_inv (block
        [when_op (a \<noteq> []) (invalidate_paths a), when_op (b \<noteq> []) (hook (ArchivesRemoved b)),
         for_each (\<lambda>p. hook (ArchiveArrived p)) d, when_op (f \<noteq> []) (hook (LibraryChanged f))])" for a b d f
    by blast
  then show ?thesis unfolding keeps_inv_def fire_def Let_def by blast
qed

lemma keeps_bookkeeping [intro!]:
  "keeps_inv (audit req action target details)"
  "keeps_inv (write_lock_conflict req target operation destination)"
  "keeps_inv (forget_ocr_records e rel archive_too)"
  "keeps_inv (primary_leaving e p)"
  "keeps_inv (note_removed e p)" "keeps_inv (note_arrived e p)" "keeps_inv (touch v ph)"
  "keeps_inv (rename_hooks a b)"
  by (auto simp: audit_def write_lock_conflict_def forget_ocr_records_def primary_leaving_def
      note_removed_def note_arrived_def touch_def rename_hooks_def Let_def split: option.splits)

lemma keeps_folder_hooks [intro!]: "keeps_inv (folder_hooks e a b vs)"
  by (auto simp: folder_hooks_def split: option.splits)

end

section \<open>The handlers\<close>

context write_observer
begin

lemma keeps_delete_file:
  assumes "placed_any (the_roots e) c p" and "\<not> is_cbz (library_root (the_roots e))"
  shows "keeps_inv (delete_file e req v p)"
proof -
  have sib: "placed_any (the_roots e) c q"
    if "rel_of e p = Some rel" "is_cbz p" "q \<in> set (siblings e p s)" for q s rel
    using that assms sibling_inside [of q e p s "the_roots e" c] by (auto simp: rel_of_def)
  show ?thesis
    unfolding delete_file_def Let_def
    by (auto split: option.splits simp: assms(1) sib)
qed

lemma keeps_delete_folder: "placed_any (the_roots e) c p \<Longrightarrow> keeps_inv (delete_folder e req v p)"
  unfolding delete_folder_def Let_def by (auto split: option.splits)

lemma keeps_delete_resource:
  assumes "\<not> is_cbz (library_root (the_roots e))" and "\<And>p. res_phys res = Some p \<Longrightarrow> placed_any (the_roots e) c p"
  shows "keeps_inv (delete_resource e req res)"
  using assms by (auto simp: delete_resource_def split: resource.splits intro: keeps_delete_file keeps_delete_folder)

lemma keeps_move_file:
  assumes "placed_any (the_roots e) c src" and "inside (the_roots e) c dest"
  shows "keeps_inv (move_file e req src_v src dest_v dest)"
  unfolding move_file_def Let_def make_parent_def parent_dir_def using assms
  by (auto split: option.splits)

lemma keeps_copy_file:
  assumes "inside (the_roots e) c dest"
  shows "keeps_inv (copy_file e req src dest_v dest)"
  unfolding copy_file_def copy_one_def Let_def parent_dir_def
  using assms staging_path_beside [OF assms, of e]
  by (auto split: option.splits)

lemma keeps_cbz_under: "(\<And>ps. keeps_inv (k ps)) \<Longrightarrow> keeps_inv (cbz_under fuel e dir k)"
  unfolding cbz_under_def by (auto split: option.splits)

lemma keeps_move_folder:
  assumes "placed_any (the_roots e) c src" and "inside (the_roots e) c dest"
  shows "keeps_inv (move_folder fuel e req src_v src dest_v dest)"
  unfolding move_folder_def Let_def make_parent_def parent_dir_def using assms
  by (auto split: option.splits intro!: keeps_cbz_under)

lemma keeps_prune_entries:
  assumes "\<not> is_cbz (library_root (the_roots e))" and "inside (the_roots e) c d"
  shows "keeps_inv (prune_entries e req s d v names stack)"
proof (induction names arbitrary: stack)
  case (Cons n names)
  have del: "keeps_inv (delete_resource e req (found_resource vp (d @ [n]) st b))" for vp st b
    using assms inside_append [of _ c d "[n]"]
    by (intro keeps_delete_resource) (auto simp: found_resource_def split: if_splits)
  have "keeps_inv (prune_entry e req (s @ [n]) (d @ [n]) (v @ ''/'' @ n) stack)"
    unfolding prune_entry_def Let_def by (auto split: option.splits prod.splits intro: del)
  with Cons show ?case by auto
qed simp

text \<open>The stack of a loop only ever names places below the destination it started from.\<close>

definition stack_inside :: "work_stack \<Rightarrow> bool" where
  "stack_inside stack \<longleftrightarrow> list_all (\<lambda>(_, d, _). inside (the_roots e) c d) stack"

lemma prune_stack:
  "stack_inside stack \<Longrightarrow> inside (the_roots e) c d \<Longrightarrow>
   yields (prune_entries e req s d v names stack) stack_inside"
proof (induction names arbitrary: stack)
  case (Cons n names)
  have "yields (prune_entry e req (s @ [n]) (d @ [n]) (v @ ''/'' @ n) stack) stack_inside"
    using Cons.prems inside_append [of _ c d "[n]"]
    unfolding prune_entry_def Let_def
    by (auto simp: stack_inside_def intro!: yields_look yields_ret yields_then split: option.splits)
  with Cons show ?case by (auto intro: yields_bind)
qed (simp add: yields_ret)

lemma keeps_bind_yields:
  "keeps_inv m \<Longrightarrow> yields m Q \<Longrightarrow> (\<And>x. Q x \<Longrightarrow> keeps_inv (k x)) \<Longrightarrow> keeps_inv (bind_op m k)"
  unfolding keeps_inv_def yields_def by (blast elim: bind_op_cases)

lemma keeps_prune_loop:
  assumes "\<not> is_cbz (library_root (the_roots e))" and "stack_inside stack"
  shows "keeps_inv (prune_loop fuel e req stack)"
  using assms
proof (induction fuel arbitrary: stack)
  case 0
  then show ?case by (cases stack) auto
next
  case (Suc fuel)
  show ?case
  proof (cases stack)
    case (Cons x stack')
    obtain s d v where x: "x = (s, d, v)" by (cases x)
    with Cons Suc.prems have "inside (the_roots e) c d" "stack_inside stack'"
      by (auto simp: stack_inside_def)
    then have step: "keeps_inv (bind_op (prune_entries e req s d v names stack') (prune_loop fuel e req))" for names
      using Suc by (intro keeps_bind_yields [where Q = stack_inside] keeps_prune_entries prune_stack) auto
    have "keeps_inv (prune_loop fuel e req stack')"
      using Suc \<open>stack_inside stack'\<close> by blast
    with step x Cons show ?thesis by (auto split: option.splits)
  qed simp
qed

lemma keeps_copy_entries:
  assumes "\<not> is_cbz (library_root (the_roots e))" and "inside (the_roots e) c d"
  shows "keeps_inv (copy_entries e req dp s d v names stack)"
proof (induction names arbitrary: stack)
  case (Cons n names)
  have below: "inside (the_roots e) c (d @ [n])" by (rule inside_append [OF assms(2)])
  have del: "keeps_inv (delete_file e req v' (d @ [n]))" for v'
    using below assms(1) by (intro keeps_delete_file) auto
  have copy: "keeps_inv (copy_file e req f v' (d @ [n]))" for f v'
    by (rule keeps_copy_file [OF below])
  have "keeps_inv (copy_entry e req dp (s @ [n]) (d @ [n]) (v @ ''/'' @ n) stack)"
    unfolding copy_entry_def by (auto split: option.splits prod.splits simp: below intro: del copy)
  with Cons show ?case by auto
qed simp

lemma copy_stack:
  "stack_inside stack \<Longrightarrow> inside (the_roots e) c d \<Longrightarrow>
   yields (copy_entries e req dp s d v names stack) stack_inside"
proof (induction names arbitrary: stack)
  case (Cons n names)
  have "yields (copy_entry e req dp (s @ [n]) (d @ [n]) (v @ ''/'' @ n) stack) stack_inside"
    using Cons.prems inside_append [of _ c d "[n]"]
    unfolding copy_entry_def
    by (auto simp: stack_inside_def intro!: yields_look yields_ret yields_then split: option.splits)
  with Cons show ?case by (auto intro: yields_bind)
qed (simp add: yields_ret)

lemma keeps_copy_loop:
  assumes "\<not> is_cbz (library_root (the_roots e))" and "stack_inside stack"
  shows "keeps_inv (copy_loop fuel e req dp stack)"
  using assms
proof (induction fuel arbitrary: stack)
  case 0
  then show ?case by (cases stack) auto
next
  case (Suc fuel)
  show ?case
  proof (cases stack)
    case (Cons x stack')
    obtain s d v where x: "x = (s, d, v)" by (cases x)
    with Cons Suc.prems have "inside (the_roots e) c d" "stack_inside stack'"
      by (auto simp: stack_inside_def)
    then have step: "keeps_inv (bind_op (copy_entries e req dp s d v names stack') (copy_loop fuel e req dp))" for names
      using Suc by (intro keeps_bind_yields [where Q = stack_inside] keeps_copy_entries copy_stack) auto
    have "keeps_inv (copy_loop fuel e req dp stack')"
      using Suc \<open>stack_inside stack'\<close> by blast
    with step x Cons show ?thesis by (auto split: option.splits)
  qed simp
qed

lemma keeps_copy_folder:
  assumes "\<not> is_cbz (library_root (the_roots e))" and "inside (the_roots e) c dest_phys"
  shows "keeps_inv (copy_folder fuel e req src dest dest_v dest_phys deep)"
proof -
  have "keeps_inv (prune_unmatched fuel e req existing s dest_phys)"
    "keeps_inv (copy_loop fuel e req dest_phys [(s, dest_phys, v)])" for existing s v
    using assms by (auto simp: prune_unmatched_def stack_inside_def intro!: keeps_prune_loop keeps_copy_loop)
  with assms show ?thesis unfolding copy_folder_def by (auto split: option.splits)
qed

text \<open>What the gates guarantee of the resources they let through.\<close>

lemma keeps_move_work:
  assumes "\<not> is_cbz (library_root (the_roots e))" and "req_caller req = c"
    and src: "\<And>p. res_phys (mp_src plan) = Some p \<Longrightarrow> placed_any (the_roots e) c p"
    and dest: "\<And>d p. mp_dest plan = Some d \<Longrightarrow> res_phys d = Some p \<Longrightarrow> placed_any (the_roots e) c p"
    and parent: "lookup d' (the_roots e) path c = Some (mp_parent plan)"
  shows "keeps_inv (move_work fuel e req is_move plan)"
proof -
  have del: "keeps_inv (delete_dest e req (mp_dest plan))"
    unfolding delete_dest_def
    using assms(1) dest by (auto split: option.splits intro: keeps_delete_resource)
  have "keeps_inv (move_transfer fuel e req is_move plan p)" if "inside (the_roots e) c p" for p
    unfolding move_transfer_def Let_def
    using that del src assms(1)
    by (auto split: resource.splits intro: keeps_move_file keeps_copy_file keeps_move_folder keeps_copy_folder)
  moreover have "inside (the_roots e) c p"
    if "destination_of d (the_roots e) (mp_parent plan) (mp_name plan) c = Some (p, k)" for d p k
    using destination_of_inside [OF that parent] .
  ultimately show ?thesis
    unfolding move_work_def using assms(2) by (auto split: option.splits)
qed

lemma keeps_after_gate:
  assumes "\<And>x. fst g = Inr x \<Longrightarrow> keeps_inv (work x)"
  shows "keeps_inv (after_gate g work)"
  unfolding keeps_inv_def after_gate_def Let_def
proof (intro allI impI)
  fix w :: "'s world" and r w'
  let ?w = "w\<lparr>tables := (tables w)\<lparr>lock_tbl := snd g\<rparr>, eff := no_effects\<rparr>"
  assume "I w" and run: "(case fst g of Inl er \<Rightarrow> Some (Inl er, ?w) | Inr x \<Rightarrow> work x ?w) = Some (r, w')"
  then have "I ?w" by (intro obs_effects obs_tables)
  with run show "I w'" by (auto split: sum.splits dest: keeps_invD [OF assms])
qed

end

section \<open>What the gates let through\<close>

lemma check_opt_ok: "fst (check_opt g k) = Inr x \<Longrightarrow> fst g = Inr () \<and> fst (k (snd g)) = Inr x"
  by (auto simp: check_opt_def split: prod.splits sum.splits)

lemma delete_gate_ok:
  assumes "fst (delete_gate http_date validators e s clk req tbl) = Inr res"
  shows "\<not> is_virtual_root (req_path req)"
    and "lookup (view e s) (the_roots e) (req_path req) (req_caller req) = Some res"
  using assms
  by (auto simp: delete_gate_def split: if_splits option.splits dest!: check_opt_ok)

lemma mkcol_gate_ok:
  assumes "fst (mkcol_gate e s clk req tbl) = Inr parent"
  shows "lookup (view e s) (the_roots e) (req_path req) (req_caller req) = None"
    and "is_collection parent"
    and "\<exists>p. uri_parent (req_path req) = Some p \<and>
           lookup (view e s) (the_roots e) p (req_caller req) = Some parent"
  using assms
  by (auto simp: mkcol_gate_def bind_eq_Some_conv split: if_splits option.splits dest!: check_opt_ok)

definition move_dest_path :: "resource \<Rightarrow> string \<Rightarrow> string" where
  "move_dest_path src dest_path =
     (if is_collection src then trim_end_c CHR ''/'' dest_path @ ''/'' else dest_path)"

text \<open>The facts a MOVE or COPY can rely on once its gate has let it through.\<close>

lemma move_gate_ok:
  assumes "fst (move_gate http_date validators pct_decode authority e s clk req is_move tbl) = Inr plan"
  shows "\<exists>raw dest_path overwrite.
     destination_path pct_decode authority req = Inr raw \<and> dest_path = move_dest_path (mp_src plan) raw \<and>
     \<not> is_virtual_root (req_path req) \<and>
     lookup (view e s) (the_roots e) (req_path req) (req_caller req) = Some (mp_src plan) \<and>
     move_classes_ok (req_path req) dest_path \<and>
     \<not> dav_is_history_path (req_path req) \<and> \<not> dav_is_history_path dest_path \<and>
     mp_dest plan = dest_found e s (mp_renames plan) (mp_src plan)
       (lookup (view e s) (the_roots e) dest_path (req_caller req)) \<and>
     (\<exists>p. lookup (view e s) (the_roots e) p (req_caller req) = Some (mp_parent plan)) \<and>
     is_collection (mp_parent plan) \<and>
     fst (move_locks http_date validators clk req is_move (mp_src plan) (mp_dest plan) (mp_parent plan) tbl) = Inr () \<and>
     \<not> is_equal_or_child (normalize (req_path req)) (mp_dest_norm plan) \<and>
     mp_dest_norm plan = normalize dest_path \<and> mp_name plan = uri_name dest_path \<and>
     overwrite_of req = Inr overwrite \<and> (mp_dest plan \<noteq> None \<longrightarrow> overwrite) \<and>
     (\<forall>d. mp_dest plan = Some d \<longrightarrow> is_collection d = is_collection (mp_src plan)) \<and>
     mp_renames plan = renames_source e is_move (normalize (req_path req)) (mp_dest_norm plan)"
proof -
  let ?find = "\<lambda>p. lookup (view e s) (the_roots e) p (req_caller req)"
  have root: "\<not> is_virtual_root (req_path req)"
    using assms by (auto simp: move_gate_def Let_def)
  obtain src where src: "?find (req_path req) = Some src"
    using assms root by (cases "?find (req_path req)") (auto simp: move_gate_def Let_def)
  obtain raw where raw: "destination_path pct_decode authority req = Inr raw"
    using assms root src by (cases "destination_path pct_decode authority req") (auto simp: move_gate_def Let_def)
  obtain ow where ow: "overwrite_of req = Inr ow"
    using assms root src raw by (cases "overwrite_of req") (auto simp: move_gate_def Let_def)
  obtain deep where deep: "depth_of req is_move src = Inr deep"
    using assms root src raw ow by (cases "depth_of req is_move src") (auto simp: move_gate_def Let_def)
  define path where "path = move_dest_path src raw"
  note facts = root src raw ow deep
  have history: "\<not> dav_is_history_path (req_path req) \<and> \<not> dav_is_history_path path"
    using assms unfolding path_def move_dest_path_def by (auto simp: move_gate_def Let_def facts)
  have classes: "move_classes_ok (req_path req) path"
    using assms history unfolding path_def move_dest_path_def
    by (auto simp: move_gate_def Let_def facts split: if_split_asm)
  define rn where "rn = renames_source e is_move (normalize (req_path req)) (normalize path)"
  define dest where "dest = dest_found e s rn src (?find path)"
  obtain parent where parent: "Option.bind (uri_parent path) ?find = Some parent" "is_collection parent"
    using assms history classes unfolding path_def move_dest_path_def
    by (cases "Option.bind (uri_parent (move_dest_path src raw)) ?find")
      (auto simp: move_gate_def Let_def facts move_dest_path_def split: if_split_asm)
  let ?locks = "move_locks http_date validators clk req is_move src dest parent tbl"
  let ?k = "\<lambda>tbl::lock_table. if normalize (req_path req) = normalize path
       then (Inl (forbid ''Cannot copy/move source onto itself''), tbl)
       else if is_equal_or_child (normalize (req_path req)) (normalize path)
       then (Inl (forbid ''Cannot copy/move source below itself''), tbl)
       else if dest \<noteq> None \<and> \<not> ow
       then (Inl (dav_error_new 412 ''Destination already exists and Overwrite is set to false''), tbl)
       else if (case dest of None \<Rightarrow> False | Some d \<Rightarrow> is_collection d \<noteq> is_collection src)
       then (Inl (dav_error_new 409 ''Source and destination must both be files or both be collections.''), tbl)
       else (Inr \<lparr>mp_src = src, mp_dest = dest, mp_parent = parent, mp_name = uri_name path,
                  mp_dest_norm = normalize path, mp_infinite = deep, mp_renames = rn\<rparr>, tbl)"
  have "move_gate http_date validators pct_decode authority e s clk req is_move tbl = check_opt ?locks ?k"
    using history classes parent
    unfolding move_gate_def Let_def dest_def rn_def path_def move_dest_path_def
    by (cases "is_collection src") (simp_all add: facts)
  with assms check_opt_ok [of ?locks ?k plan]
  have locks: "fst ?locks = Inr ()" and "fst (?k (snd ?locks)) = Inr plan" by simp_all
  then have plan: "plan = \<lparr>mp_src = src, mp_dest = dest, mp_parent = parent, mp_name = uri_name path,
        mp_dest_norm = normalize path, mp_infinite = deep, mp_renames = rn\<rparr>"
    and rest: "\<not> is_equal_or_child (normalize (req_path req)) (normalize path)"
      "dest \<noteq> None \<longrightarrow> ow" "\<forall>d. dest = Some d \<longrightarrow> is_collection d = is_collection src"
    by (auto split: if_split_asm option.split_asm)
  have "\<exists>p. ?find p = Some parent" using parent(1) by (auto simp: bind_eq_Some_conv)
  with plan rest locks history classes parent(2) facts show ?thesis
    unfolding plan by (intro exI [of _ raw] exI [of _ path] exI [of _ ow]) (simp add: dest_def rn_def path_def)
qed

lemma dest_found_lookup: "dest_found e s rn src found = Some d \<Longrightarrow> found = Some d"
  by (auto simp: dest_found_def split: if_splits option.splits)

context write_observer
begin

lemma keeps_delete_method:
  assumes "\<not> is_cbz (library_root (the_roots e))" and "req_caller req = c"
  shows "keeps_inv (delete_method http_date validators e s clk req)"
proof -
  have "keeps_inv (after_gate (delete_gate http_date validators e s clk req tbl)
      (\<lambda>res. bind_op (delete_work e req res) (\<lambda>_. ret 204)))" for tbl
  proof (rule keeps_after_gate)
    fix res
    assume "fst (delete_gate http_date validators e s clk req tbl) = Inr res"
    then have "lookup (view e s) (the_roots e) (req_path req) c = Some res"
      using delete_gate_ok(2) assms(2) by metis
    then have "keeps_inv (delete_resource e req res)"
      using assms(1) lookup_placed_any by (intro keeps_delete_resource) auto
    then show "keeps_inv (bind_op (delete_work e req res) (\<lambda>_. ret 204))"
      unfolding delete_work_def Let_def by auto
  qed
  then show ?thesis unfolding keeps_inv_def delete_method_def by blast
qed

lemma keeps_mkcol_method:
  assumes "req_caller req = c"
  shows "keeps_inv (mkcol_method e s clk req)"
proof -
  have "keeps_inv (mkcol_work e req parent)" for parent
    unfolding mkcol_work_def Let_def
    using assms by (auto split: option.splits simp: member_path_placed_any)
  then have "keeps_inv (after_gate (mkcol_gate e s clk req tbl) (\<lambda>p. bind_op (mkcol_work e req p) (\<lambda>_. ret 201)))" for tbl
    by (intro keeps_after_gate) auto
  then show ?thesis unfolding keeps_inv_def mkcol_method_def by blast
qed

lemma keeps_copy_move:
  assumes "\<not> is_cbz (library_root (the_roots e))" and "req_caller req = c"
  shows "keeps_inv (copy_move fuel http_date validators pct_decode authority e s clk req is_move)"
proof -
  have "keeps_inv (after_gate (move_gate http_date validators pct_decode authority e s clk req is_move tbl)
      (move_work fuel e req is_move))" for tbl
  proof (rule keeps_after_gate)
    fix plan
    assume "fst (move_gate http_date validators pct_decode authority e s clk req is_move tbl) = Inr plan"
    from move_gate_ok [OF this] assms(2) obtain path p where
      src: "lookup (view e s) (the_roots e) (req_path req) c = Some (mp_src plan)" and
      dest: "mp_dest plan = dest_found e s (mp_renames plan) (mp_src plan) (lookup (view e s) (the_roots e) path c)" and
      parent: "lookup (view e s) (the_roots e) p c = Some (mp_parent plan)"
      by metis
    show "keeps_inv (move_work fuel e req is_move plan)"
      by (rule keeps_move_work [OF assms _ _ parent])
        (use src dest in \<open>auto dest: lookup_placed_any dest_found_lookup\<close>)
  qed
  then show ?thesis unfolding keeps_inv_def copy_move_def by blast
qed

lemma keeps_dispatch:
  assumes "\<not> is_cbz (library_root (the_roots e))" and "req_caller req = c"
    and "dispatch_write fuel http_date validators pct_decode authority e s clk req = Some m"
  shows "keeps_inv m"
  using assms(3) keeps_delete_method [OF assms(1,2)] keeps_mkcol_method [OF assms(2)] keeps_copy_move [OF assms(1,2)]
  by (auto simp: dispatch_write_def split: if_splits)

end

section \<open>The calls a request makes\<close>

definition act_ok :: "roots \<Rightarrow> caller option \<Rightarrow> act \<Rightarrow> bool" where
  "act_ok roots c x = (case x of Sys f _ \<Rightarrow> call_ok roots c f | _ \<Rightarrow> True)"

definition only_ok_since :: "'s env \<Rightarrow> caller option \<Rightarrow> act list \<Rightarrow> 's world \<Rightarrow> bool" where
  "only_ok_since e c t0 w \<longleftrightarrow> (\<exists>acts. trace w = t0 @ acts \<and> list_all (act_ok (the_roots e) c) acts)"

lemma only_ok_snoc:
  "only_ok_since e c t0 w \<Longrightarrow> act_ok (the_roots e) c x \<Longrightarrow> trace w' = trace w @ [x] \<Longrightarrow> only_ok_since e c t0 w'"
  by (fastforce simp: only_ok_since_def)

interpretation calls: write_observer e c "only_ok_since e c t0" for e :: "'s env" and c t0
  by unfold_locales
    (auto elim!: only_ok_snoc simp: act_ok_def intro: only_ok_since_def [THEN iffD2] simp: only_ok_since_def)

text \<open>
  What an observer sees who only looks at the disk: any set of paths that no allowed call
  changes keeps its contents, if the system keeps what a call does not name.
\<close>

definition call_paths :: "fs_call \<Rightarrow> fs_path list" where
  "call_paths f =
     (case f of
        RemoveFile p \<Rightarrow> [p]
      | RemoveDirAll p \<Rightarrow> [p]
      | Rename a b \<Rightarrow> [a, b]
      | CreateDirAll p \<Rightarrow> []
      | CopyFile a b \<Rightarrow> [b]
      | CopyTimes a b \<Rightarrow> [b]
      | CreateNew p \<Rightarrow> [p]
      | WriteTo p _ \<Rightarrow> [p]
      | FlushFile p \<Rightarrow> [p]
      | SyncFile p \<Rightarrow> [p])"

lemma staging_not_per_user: "is_staging_name n \<Longrightarrow> \<not> is_per_user_root_name n"
  by (auto simp: is_per_user_root_name_def per_user_files_def per_user_dirs_def history_dir_def
      is_staging_name_def starts_with_def)

lemma staging_beside_cases:
  assumes "staging_beside roots c q"
  shows "(library_place roots q \<and> q \<noteq> library_root roots) \<or>
         (\<exists>b. c = Some b \<and> (own_place roots b q \<or>
            (\<exists>n. \<not> owns_cloud_root b \<and> q = users_root roots @ [caller_username b, n])))"
proof -
  obtain q0 where q0: "inside roots c q0" "q0 \<noteq> []" "q \<noteq> []" "butlast q = butlast q0" "is_staging_name (last q)"
    using assms by (auto simp: staging_beside_def)
  then have q: "q = butlast q0 @ [last q]" by (metis append_butlast_last_id)
  have n: "\<not> is_per_user_root_name (last q)" by (rule staging_not_per_user [OF q0(5)])
  from q0(1) show ?thesis unfolding inside_def
  proof (elim disjE exE conjE)
    fix m rest assume "q0 = library_root roots @ m # rest" "\<not> is_per_user_root_name m"
    then have "library_place roots q \<and> q \<noteq> library_root roots"
      using q n by (cases rest rule: rev_cases) (auto simp: library_place_def butlast_append)
    then show ?thesis by blast
  next
    fix b assume b: "c = Some b" "own_place roots b q0"
    then obtain base m rest where base: "roots_user_base roots b = Some base" "is_per_user_root_name m"
      "q0 = base @ m # rest" by (auto simp: own_place_def)
    show ?thesis
    proof (cases rest rule: rev_cases)
      case Nil
      with base q have "q = base @ [last q]" by (simp add: butlast_append)
      then show ?thesis using base(1) n b(1)
        by (auto simp: roots_user_base_def user_base_def library_place_def split: if_splits
            intro!: exI [of _ "[last q]"])
    next
      case (snoc xs x)
      with base q have "q = base @ m # xs @ [last q]" by (simp add: butlast_append)
      with base b(1) have "own_place roots b q" by (auto simp: own_place_def)
      with b(1) show ?thesis by blast
    qed
  qed
qed

lemma own_apart_from_calls:
  assumes own: "own_place roots a p" and ok: "call_ok roots c f" and q: "q \<in> set (call_paths f)"
    and lu: "apart (library_root roots) (users_root roots)"
    and other: "\<And>b. c = Some b \<Longrightarrow> caller_username a \<noteq> caller_username b \<and> \<not> (owns_cloud_root a \<and> owns_cloud_root b)"
  shows "apart p q \<or> q = library_root roots \<and> owns_cloud_root a"
proof -
  have placed: "apart p q \<or> q = library_root roots \<and> owns_cloud_root a" if "library_place roots q"
    by (rule own_library_apart [OF own that lu])
  have owned: "apart p q" if "c = Some b" "own_place roots b q" for b
    using own_places_apart [OF own that(2) lu] other [OF that(1)] by blast
  have staged: "apart p q" if b: "c = Some b" "\<not> owns_cloud_root b" and q: "q = users_root roots @ [caller_username b, n]" for b n
    using own_placeD [OF own] other [OF b(1)] apart_append [OF lu] q
    by (auto split: if_splits intro: apart_names)
  have "placed_any roots c q \<or> staging_beside roots c q"
    using ok q by (cases f) (auto simp: call_paths_def)
  then show ?thesis
  proof
    assume "placed_any roots c q"
    then show ?thesis using placed owned
      by (auto simp: placed_any_def inside_def library_place_def)
  next
    assume "staging_beside roots c q"
    from staging_beside_cases [OF this] show ?thesis using placed owned staged by blast
  qed
qed

lemma own_apart_since:
  assumes own: "own_place (the_roots e) a p" and since: "only_ok_since e c t0 w'"
    and lu: "apart (library_root (the_roots e)) (users_root (the_roots e))"
    and other: "\<And>b. c = Some b \<Longrightarrow> caller_username a \<noteq> caller_username b \<and> \<not> (owns_cloud_root a \<and> owns_cloud_root b)"
  shows "\<exists>acts. trace w' = t0 @ acts \<and>
           (\<forall>f er q. Sys f er \<in> set acts \<longrightarrow> q \<in> set (call_paths f) \<longrightarrow>
              apart p q \<or> q = library_root (the_roots e) \<and> owns_cloud_root a)"
proof -
  obtain acts where acts: "trace w' = t0 @ acts" "list_all (act_ok (the_roots e) c) acts"
    using since by (auto simp: only_ok_since_def)
  have "apart p q \<or> q = library_root (the_roots e) \<and> owns_cloud_root a"
    if "Sys f er \<in> set acts" "q \<in> set (call_paths f)" for f er q
  proof -
    from acts(2) that(1) have "act_ok (the_roots e) c (Sys f er)" by (auto simp: list_all_iff)
    then have ok: "call_ok (the_roots e) c f" by (simp add: act_ok_def)
    show ?thesis by (rule own_apart_from_calls [OF own ok that(2) lu]) (fact other)
  qed
  with acts(1) show ?thesis by blast
qed

section \<open>Properties\<close>

text \<open>
  C2: no DELETE, MKCOL, COPY or MOVE of one account hands the operating system, in a call that
  removes, renames, replaces or writes, a path in or around a file of another account's own tree,
  whatever the disk holds and whatever other requests do to it meanwhile. There is one exception,
  and it can be reached (C39): the library's root folder, in which the files of the owner of the
  cloud root lie. The library and the users' folder are assumed to lie apart, the library folder not
  to be named as an archive, and paths are compared as texts: what symbolic links below the
  named path lead to is not followed.
\<close>

theorem others_files_untouched:
  assumes "lookup d (the_roots e) path (Some a) = Some r" and "res_kind r = Some KProgress"
    and "res_phys r = Some p"
    and "dispatch_write fuel http_date validators pct_decode authority e s clk req = Some m"
    and "m w = Some (answer, w')"
    and "apart (library_root (the_roots e)) (users_root (the_roots e))"
    and "\<not> is_cbz (library_root (the_roots e))"
    and "\<And>b. req_caller req = Some b \<Longrightarrow>
           caller_username a \<noteq> caller_username b \<and> \<not> (owns_cloud_root a \<and> owns_cloud_root b)"
  shows "\<exists>acts. trace w' = trace w @ acts \<and>
           (\<forall>f er q. Sys f er \<in> set acts \<longrightarrow> q \<in> set (call_paths f) \<longrightarrow>
              apart p q \<or> q = library_root (the_roots e) \<and> owns_cloud_root a)"
proof -
  have own: "own_place (the_roots e) a p"
    using lookup_placed [OF assms(1,3)] assms(2) by (simp add: placed_def)
  have "only_ok_since e (req_caller req) (trace w) w" by (simp add: only_ok_since_def)
  then have "only_ok_since e (req_caller req) (trace w) w'"
    using calls.keeps_dispatch [OF assms(7) refl assms(4)] assms(5) calls.keeps_invD by blast
  then show ?thesis by (rule own_apart_since [OF own]) (fact assms(6), fact assms(8))
qed

definition delete_volume :: dav_req where
  "delete_volume = mem_req ''DELETE'' ''/mokuro-reader/S/V.cbz'' []"

theorem others_files_untouched_witness:
  "\<exists>answer w'. delete_method no_dates plain_validators (mem_env []) mem_sample (\<lambda>i. i) delete_volume
       (mem_world mem_sample [] []) = Some (answer, w') \<and>
     (\<forall>f er q. Sys f er \<in> set (trace w') \<longrightarrow> q \<in> set (call_paths f) \<longrightarrow>
        apart [''srv'', ''users'', ''al'', ''goals.json''] q)"
proof -
  let ?m = "delete_method no_dates plain_validators (mem_env []) mem_sample (\<lambda>i. i) delete_volume"
  let ?w = "mem_world mem_sample [] []"
  have "mem_answer (mem_run [] delete_volume ?w) = Some (204, mem_without (mem_lib [''S'', ''V.cbz''])
      (mem_without (mem_lib [''S'', ''V.mokuro'']) mem_sample))" by code_simp
  then obtain answer w' where run: "?m ?w = Some (answer, w')"
    by (auto simp: mem_run_def mem_answer_def delete_volume_def mem_req_def mem_world_def)
  let ?p = "[''srv'', ''users'', ''al'', ''goals.json'']"
  have l: "lookup demo_disk demo_roots ''/mokuro-reader/goals.json'' (Some (demo_caller ''al'' False)) =
      Some (RFile ''/mokuro-reader/goals.json'' ?p (demo_stat False) KProgress)"
    by code_simp
  have m: "dispatch_write 0 no_dates plain_validators id None (mem_env []) mem_sample (\<lambda>i. i) delete_volume = Some ?m"
    by (simp add: dispatch_write_def delete_volume_def mem_req_def)
  have cbz: "\<not> is_cbz (library_root (the_roots (mem_env [])))" by code_simp
  have roots: "the_roots (mem_env []) = demo_roots" by (simp add: mem_env_def)
  have "\<exists>acts. trace w' = trace ?w @ acts \<and>
      (\<forall>f er q. Sys f er \<in> set acts \<longrightarrow> q \<in> set (call_paths f) \<longrightarrow>
         apart ?p q \<or> q = library_root (the_roots (mem_env [])) \<and> owns_cloud_root (demo_caller ''al'' False))"
    by (rule others_files_untouched [OF _ _ _ m run, where d = demo_disk and a = "demo_caller ''al'' False"
          and path = "''/mokuro-reader/goals.json''"])
      (use l cbz demo_apart in \<open>auto simp: roots delete_volume_def mem_req_def req_caller_def demo_caller_def\<close>)
  then have "\<forall>f er q. Sys f er \<in> set (trace w') \<longrightarrow> q \<in> set (call_paths f) \<longrightarrow> apart ?p q"
    by (auto simp: mem_world_def demo_caller_def)
  with run show ?thesis by blast
qed

end
