(* ===== verification/Dav_Write_Facts.thy ===== *)
theory Dav_Write_Facts
  imports Dav_Write_Safe
begin

text \<open>
  What DELETE, MKCOL, COPY and MOVE answer, and what an answer says of the disk and the
  tables: refusals, DAV locks, the classes of the two paths, and two cases in which a request
  that fails has already destroyed something.
\<close>

section \<open>Refusals\<close>

text \<open>The only errors of a blocking part: a forbidden call, a write in progress, an I/O error.\<close>

definition late_error :: "dav_error \<Rightarrow> bool" where
  "late_error er \<longleftrightarrow> status er \<in> {403, 423, 500}"

definition fails_late :: "('s, 'a) op \<Rightarrow> bool" where
  "fails_late m \<longleftrightarrow> (\<forall>w er w'. m w = Some (Inl er, w') \<longrightarrow> late_error er)"

lemma status_new [simp]: "status (dav_error_new n t) = n" "status (dav_error_status n) = n"
  by (simp_all add: dav_error_new_def dav_error_status_def)

lemma late_of_io [simp]: "late_error (of_io er)" "late_error (forbid t)" "late_error (dav_error_status 403)"
  "late_error (dav_error_new 500 t)" "late_error (dav_error_new 423 t)" "late_error (dav_error_new 403 t)"
  by (simp_all add: late_error_def of_io_def forbid_def)

lemma late_basic [intro!, simp]:
  "fails_late (ret x)" "fails_late (hook h)" "fails_late (note_eff f)" "fails_late (invalidate_paths ps)"
  "fails_late (drop_locks key)" "fails_late (drop_dead key)" "fails_late (sys_op e c)" "fails_late no_fuel"
  by (auto simp: fails_late_def ret_def hook_def note_eff_def invalidate_paths_def drop_locks_def
      drop_dead_def sys_op_def no_fuel_def Let_def split: prod.splits)

lemma late_fail [intro!]: "late_error er \<Longrightarrow> fails_late (fail er)"
  by (simp add: fails_late_def fail_def)

lemma late_bind [intro!]: "fails_late m \<Longrightarrow> (\<And>x. fails_late (k x)) \<Longrightarrow> fails_late (bind_op m k)"
  unfolding fails_late_def by (blast elim!: bind_op_cases dest: sum.inject(1) [THEN iffD1])

lemma late_block_Nil [intro!]: "fails_late (block [])"
  by simp

lemma late_block_Cons [intro!]: "fails_late m \<Longrightarrow> fails_late (block ms) \<Longrightarrow> fails_late (block (m # ms))"
  by auto

lemma late_for_each [intro!]: "(\<And>x. fails_late (f x)) \<Longrightarrow> fails_late (for_each f xs)"
  unfolding for_each_def by (induction xs) auto

lemma late_when [intro!]: "fails_late m \<Longrightarrow> fails_late (when_op b m)"
  by (auto simp: when_op_def)

lemma late_look [intro!]: "(\<And>s. fails_late (k (f s))) \<Longrightarrow> fails_late (look f k)"
  by (auto simp: fails_late_def look_def)

lemma late_guard [intro!]: "fails_late x \<Longrightarrow> fails_late m \<Longrightarrow> fails_late (with_guard e ps x m)"
  by (auto simp: with_guard_def split: option.splits)

lemma late_cleanup [intro!]:
  assumes "fails_late m" and "fails_late undo"
  shows "fails_late (cleanup m undo)"
proof -
  have "late_error er'" if "cleanup m undo w = Some (Inl er', w')" for w er' w'
    using that
  proof (cases rule: cleanup_cases)
    case (undone er w1)
    then have "late_error er" using assms(1) by (auto simp: fails_late_def)
    with undone(2) assms(2) show ?thesis
      by (auto simp: fails_late_def fail_def elim!: bind_op_cases)
  qed simp
  then show ?thesis by (simp add: fails_late_def)
qed

lemma late_io [intro!]: "fails_late (io e f)" "fails_late (io_ignored e f)"
  by (auto simp: io_def io_ignored_def split: option.splits)

lemma late_fire [intro!]: "fails_late (fire e)"
proof -
  have "fails_late (block
        [when_op (a \<noteq> []) (invalidate_paths a), when_op (b \<noteq> []) (hook (ArchivesRemoved b)),
         for_each (\<lambda>p. hook (ArchiveArrived p)) d, when_op (f \<noteq> []) (hook (LibraryChanged f))])" for a b d f
    by blast
  then show ?thesis unfolding fails_late_def fire_def Let_def by blast
qed

lemma late_bookkeeping [intro!]:
  "fails_late (audit req action target details)"
  "fails_late (write_lock_conflict req target operation destination)"
  "fails_late (forget_ocr_records e rel archive_too)" "fails_late (primary_leaving e p)"
  "fails_late (note_removed e p)" "fails_late (note_arrived e p)" "fails_late (touch v ph)"
  "fails_late (rename_hooks a b)" "fails_late (folder_hooks e a b vs)" "fails_late (make_parent e p)"
  by (auto simp: audit_def write_lock_conflict_def forget_ocr_records_def primary_leaving_def
      note_removed_def note_arrived_def touch_def rename_hooks_def folder_hooks_def make_parent_def
      Let_def split: option.splits)

lemma late_files [intro!]:
  "fails_late (delete_file e req v p)" "fails_late (delete_folder e req v p)"
  "fails_late (move_file e req sv s dv d)" "fails_late (copy_file e req s dv d)"
  by (auto simp: delete_file_def delete_folder_def move_file_def copy_file_def copy_one_def Let_def
      split: option.splits)

lemma late_delete [intro!]: "fails_late (delete_resource e req res)" "fails_late (delete_dest e req r)"
  by (auto simp: delete_resource_def delete_dest_def split: resource.splits option.splits)

lemma late_cbz_under: "(\<And>ps. fails_late (k ps)) \<Longrightarrow> fails_late (cbz_under fuel e dir k)"
  unfolding cbz_under_def by (auto split: option.splits)

lemma late_entries [intro!]:
  "fails_late (prune_entries e req s d v names stack)" "fails_late (copy_entries e req dp s d v names stack)"
proof -
  show "fails_late (prune_entries e req s d v names stack)"
    by (induction names arbitrary: stack) (auto simp: prune_entry_def Let_def split: option.splits prod.splits)
  show "fails_late (copy_entries e req dp s d v names stack)"
    by (induction names arbitrary: stack) (auto simp: copy_entry_def split: option.splits prod.splits)
qed

lemma late_prune_loop [intro!]: "fails_late (prune_loop fuel e req stack)"
  by (induction fuel e req stack rule: prune_loop.induct) (auto split: option.splits)

lemma late_copy_loop [intro!]: "fails_late (copy_loop fuel e req dp stack)"
  by (induction fuel e req dp stack rule: copy_loop.induct) (auto split: option.splits)

lemma late_folders [intro!]:
  "fails_late (move_folder fuel e req sv s dv d)" "fails_late (copy_folder fuel e req r dst dv d deep)"
  by (auto simp: move_folder_def copy_folder_def prune_unmatched_def Let_def split: option.splits
      intro!: late_cbz_under)

lemma late_works [intro!]:
  "fails_late (move_work fuel e req is_move plan)" "fails_late (delete_work e req res)"
  "fails_late (mkcol_work e req parent)"
proof -
  show "fails_late (delete_work e req res)" by (auto simp: delete_work_def Let_def)
  show "fails_late (mkcol_work e req parent)"
    by (auto simp: mkcol_work_def Let_def split: option.splits file_kind.splits)
  have "fails_late (move_transfer fuel e req is_move plan p)" for p
    by (auto simp: move_transfer_def Let_def split: resource.splits)
  then show "fails_late (move_work fuel e req is_move plan)"
    by (auto simp: move_work_def onto_itself_def split: option.splits if_splits)
qed

text \<open>A gate drops nothing from the lock table but locks that have expired.\<close>

definition kept :: "(nat \<Rightarrow> nat) \<Rightarrow> lock_table \<Rightarrow> lock_table \<Rightarrow> bool" where
  "kept clk tbl tbl' \<longleftrightarrow>
     set tbl' \<subseteq> set tbl \<and> (\<forall>l\<in>set tbl. (\<forall>i. \<not> lock_expired (clk i) l) \<longrightarrow> l \<in> set tbl')"

lemma kept_refl [simp]: "kept clk tbl tbl"
  by (simp add: kept_def)

lemma kept_trans: "kept clk a b \<Longrightarrow> kept clk b d \<Longrightarrow> kept clk a d"
  by (auto simp: kept_def)

lemma kept_expired: "only_expired (clk i) tbl tbl' \<Longrightarrow> kept clk tbl tbl'"
  by (auto simp: kept_def only_expired_def)

lemma kept_steps [simp]:
  "kept clk tbl (snd (eval_if dates vs (clk i) req r tbl))"
  "kept clk tbl (snd (check_dav_locks (clk i) req key deep tbl))"
proof -
  show "kept clk tbl (snd (eval_if dates vs (clk i) req r tbl))"
    by (rule kept_expired [where i = i], rule only_expired_steps(4)) simp
  have "only_expired (clk i) tbl (purge (clk i) tbl)" by (rule only_expired_purge) simp
  then show "kept clk tbl (snd (check_dav_locks (clk i) req key deep tbl))"
    by (auto simp: check_dav_locks_def check_write_def Let_def split: prod.splits sum.splits intro: kept_expired)
qed

lemma kept_check_opt:
  assumes "kept clk tbl (snd c)" and "\<And>t. kept clk t (snd (k t))"
  shows "kept clk tbl (snd (check_opt c k))"
  using assms(1) kept_trans [OF assms(1) assms(2)]
  by (cases c) (auto simp: check_opt_def split: sum.splits)

lemma kept_move_locks: "kept clk tbl (snd (move_locks dates vs clk req mv src dest parent tbl))"
  unfolding move_locks_def
  by (intro kept_check_opt) (auto split: option.splits bool.splits)

lemma kept_move_gate: "kept clk tbl (snd (move_gate dates vs pct au e s clk req mv tbl))"
proof -
  have "kept clk tbl (snd (check_opt (move_locks dates vs clk req mv src dest parent tbl) k))"
    if "\<And>t. snd (k t) = t" for src dest parent and k :: "lock_table \<Rightarrow> (dav_error + move_plan) \<times> lock_table"
    by (rule kept_check_opt) (simp_all add: kept_move_locks that)
  then show ?thesis
    unfolding move_gate_def Let_def by (auto split: option.split sum.split)
qed

lemma kept_delete_gate: "kept clk tbl (snd (delete_gate dates vs e s clk req tbl))"
  unfolding delete_gate_def by (auto intro!: kept_check_opt split: option.split)

lemma kept_mkcol_gate: "kept clk tbl (snd (mkcol_gate e s clk req tbl))"
  unfolding mkcol_gate_def by (auto intro!: kept_check_opt split: option.split)

text \<open>Either the gate refuses, and only the tables and the collected effects are touched, or it lets through.\<close>

lemma after_gate_cases:
  assumes "after_gate g work w = Some (r, w')"
  obtains (refused) er where "fst g = Inl er" "r = Inl er" "os_state w' = os_state w" "trace w' = trace w"
      "dead_tbl (tables w') = dead_tbl (tables w)" "lock_tbl (tables w') = snd g"
    | (passed) x w1 where "fst g = Inr x" "work x w1 = Some (r, w')" "os_state w1 = os_state w"
      "trace w1 = trace w" "tables w1 = (tables w)\<lparr>lock_tbl := snd g\<rparr>" "eff w1 = no_effects"
  using assms that by (auto simp: after_gate_def Let_def split: sum.splits)

lemma late_methods:
  "fails_late (\<lambda>w. bind_op (delete_work e req res) (\<lambda>_. ret 204) w)"
  "fails_late (\<lambda>w. bind_op (mkcol_work e req parent) (\<lambda>_. ret 201) w)"
  using late_bind [OF late_works(2)] late_bind [OF late_works(3)] by auto

text \<open>
  C29: an answer that is neither a 403, a 423 nor a 500 refuses the request before anything
  was done: the disk is as it was, no call was made on it, no hook fired, the dead properties
  are unchanged and the lock table has lost at most locks that had expired.
\<close>

theorem refusals_change_nothing:
  assumes "dispatch_write fuel http_date validators pct_decode authority e s clk req = Some m"
    and "m w = Some (Inl er, w')" and "status er \<notin> {403, 423, 500}"
  shows "os_state w' = os_state w \<and> trace w' = trace w \<and> dead_tbl (tables w') = dead_tbl (tables w) \<and>
         set (lock_tbl (tables w')) \<subseteq> set (lock_tbl (tables w)) \<and>
         (\<forall>l\<in>set (lock_tbl (tables w)). (\<forall>i. \<not> lock_expired (clk i) l) \<longrightarrow> l \<in> set (lock_tbl (tables w')))"
proof -
  have result: "os_state w' = os_state w \<and> trace w' = trace w \<and> dead_tbl (tables w') = dead_tbl (tables w) \<and>
      kept clk (lock_tbl (tables w)) (lock_tbl (tables w'))"
    if "after_gate g work w = Some (Inl er, w')" and "\<And>x. fails_late (work x)"
      and "kept clk (lock_tbl (tables w)) (snd g)" for g :: "(dav_error + 'b) \<times> lock_table" and work
    using that(1)
  proof (cases rule: after_gate_cases)
    case refused
    then show ?thesis using that(3) by simp
  next
    case (passed x w1)
    then show ?thesis using that(2) [of x] assms(3) by (auto simp: fails_late_def late_error_def)
  qed
  have "os_state w' = os_state w \<and> trace w' = trace w \<and> dead_tbl (tables w') = dead_tbl (tables w) \<and>
      kept clk (lock_tbl (tables w)) (lock_tbl (tables w'))"
    using assms(1,2)
    by (auto simp: dispatch_write_def delete_method_def mkcol_method_def copy_move_def split: if_splits
        dest!: result [OF _ _ kept_delete_gate] result [OF _ _ kept_mkcol_gate] result [OF _ _ kept_move_gate]
        intro: late_methods)
  then show ?thesis by (auto simp: kept_def)
qed

definition move_nowhere :: dav_req where
  "move_nowhere = mem_req ''MOVE'' ''/mokuro-reader/S/V.cbz'' []"

theorem refusals_change_nothing_witness:
  "\<exists>er w'. copy_move 0 no_dates plain_validators id None (mem_env []) mem_sample (\<lambda>i. i) move_nowhere True
       (mem_world mem_sample [] []) = Some (Inl er, w') \<and> status er = 400 \<and> os_state w' = mem_sample \<and> trace w' = []"
proof -
  let ?m = "copy_move 0 no_dates plain_validators id None (mem_env []) mem_sample (\<lambda>i. i) move_nowhere True"
  let ?w = "mem_world mem_sample [] []"
  have "run_status (?m ?w) = Some (False, 400)" by code_simp
  then obtain er w' where run: "?m ?w = Some (Inl er, w')" and st: "status er = 400"
    using run_refused by blast
  have m: "dispatch_write 0 no_dates plain_validators id None (mem_env []) mem_sample (\<lambda>i. i) move_nowhere = Some ?m"
    by (simp add: dispatch_write_def move_nowhere_def mem_req_def)
  have "os_state w' = os_state ?w \<and> trace w' = trace ?w"
    using refusals_change_nothing [OF m run] st by simp
  then have "os_state w' = mem_sample" "trace w' = []" by (simp_all add: mem_world_def)
  with run st show ?thesis by blast
qed

section \<open>The classes of the two paths\<close>

text \<open>
  C30: a COPY or MOVE that is answered with success, or has done anything at all, goes from a
  library path to a library path or between two of the account's root files, never from a
  virtual root and never into, out of or inside the reading history; where its destination
  exists (other than as the source itself under another spelling) the request allowed it to
  be overwritten, and a file replaces a file, a folder a folder.
\<close>

theorem moves_stay_in_class:
  assumes "copy_move fuel http_date validators pct_decode authority e s clk req is_move w = Some (r, w')"
    and "trace w' \<noteq> trace w \<or> (\<exists>n. r = Inr n)"
  shows "\<exists>src raw dest_path. \<not> is_virtual_root (req_path req) \<and>
     lookup (view e s) (the_roots e) (req_path req) (req_caller req) = Some src \<and>
     destination_path pct_decode authority req = Inr raw \<and> dest_path = move_dest_path src raw \<and>
     class_of (req_path req) \<in> {CLibrary, CProgress} \<and> class_of dest_path = class_of (req_path req) \<and>
     \<not> dav_is_history_path (req_path req) \<and> \<not> dav_is_history_path dest_path \<and>
     (\<forall>d. lookup (view e s) (the_roots e) dest_path (req_caller req) = Some d \<longrightarrow>
        (is_collection d = is_collection src \<and> overwrite_of req = Inr True) \<or>
        (is_move \<and> (\<exists>a b. res_phys src = Some a \<and> res_phys d = Some b \<and> same_file e s a b)))"
  using assms(1) unfolding copy_move_def
proof (cases rule: after_gate_cases)
  case refused
  with assms(2) show ?thesis by simp
next
  case (passed plan w1)
  obtain raw path ow where p: "destination_path pct_decode authority req = Inr raw"
    "path = move_dest_path (mp_src plan) raw" "\<not> is_virtual_root (req_path req)"
    "lookup (view e s) (the_roots e) (req_path req) (req_caller req) = Some (mp_src plan)"
    "move_classes_ok (req_path req) path" "\<not> dav_is_history_path (req_path req)" "\<not> dav_is_history_path path"
    "mp_dest plan = dest_found e s (mp_renames plan) (mp_src plan)
       (lookup (view e s) (the_roots e) path (req_caller req))"
    "overwrite_of req = Inr ow" "mp_dest plan \<noteq> None \<longrightarrow> ow"
    "\<forall>d. mp_dest plan = Some d \<longrightarrow> is_collection d = is_collection (mp_src plan)"
    "mp_renames plan = renames_source e is_move (normalize (req_path req)) (mp_dest_norm plan)"
    using move_gate_ok [OF passed(1)] by metis
  have "(is_collection d = is_collection (mp_src plan) \<and> overwrite_of req = Inr True) \<or>
        (is_move \<and> (\<exists>a b. res_phys (mp_src plan) = Some a \<and> res_phys d = Some b \<and> same_file e s a b))"
    if d: "lookup (view e s) (the_roots e) path (req_caller req) = Some d" for d
  proof (cases "mp_dest plan")
    case None
    with p(8) d have "is_move" "\<exists>a b. res_phys (mp_src plan) = Some a \<and> res_phys d = Some b \<and> same_file e s a b"
      by (auto simp: dest_found_def p(12) renames_source_def split: if_splits option.splits)
    then show ?thesis by blast
  next
    case (Some d')
    with p(8) d have "mp_dest plan = Some d" by (metis dest_found_lookup option.inject)
    with p(9-11) show ?thesis by auto
  qed
  with p show ?thesis by (auto simp: move_classes_ok_def intro!: exI [of _ "mp_src plan"] exI [of _ raw])
qed

definition move_series :: dav_req where
  "move_series = mem_req ''MOVE'' ''/mokuro-reader/S'' [(''destination'', ''/mokuro-reader/T'')]"

theorem moves_stay_in_class_witness:
  "\<exists>src raw. lookup (mem_disk mem_sample) demo_roots ''/mokuro-reader/S'' (req_caller move_series) = Some src \<and>
     destination_path id None move_series = Inr raw \<and> class_of (move_dest_path src raw) = CLibrary"
proof -
  let ?w = "mem_world mem_sample [] []"
  let ?m = "copy_move 20 no_dates plain_validators id None (mem_env []) mem_sample (\<lambda>i. i) move_series True"
  have "run_status (?m ?w) = Some (True, 204)" by code_simp
  then obtain w' where run: "?m ?w = Some (Inr 204, w')" using run_done by blast
  have "class_of ''/mokuro-reader/S'' = CLibrary" by code_simp
  with moves_stay_in_class [OF run] show ?thesis
    by (auto simp: move_series_def mem_req_def mem_env_def)
qed

section \<open>DAV locks\<close>

definition own_lock :: "dav_req \<Rightarrow> lock \<Rightarrow> bool" where
  "own_lock req l \<longleftrightarrow> principal l = req_principal req \<and> token l \<in> set (req_tokens req)"

lemma check_dav_locks_ok:
  assumes "fst (check_dav_locks now req key deep tbl) = Inr ()" and "l \<in> set tbl" and "\<not> lock_expired now l"
    and "covers l key \<or> deep \<and> is_child key (lkey l)"
  shows "own_lock req l"
proof -
  have "fst (check_write now key deep (req_tokens req) (req_principal req) tbl) = Inr ()"
    using assms(1) by (auto simp: check_dav_locks_def split: prod.splits sum.splits)
  then show ?thesis
    using assms(2-4) unfolding check_write_ok_iff own_lock_def by (auto split: if_splits)
qed

lemma kept_mem: "kept clk tbl tbl' \<Longrightarrow> l \<in> set tbl \<Longrightarrow> (\<And>i. \<not> lock_expired (clk i) l) \<Longrightarrow> l \<in> set tbl'"
  by (simp add: kept_def)

lemma delete_gate_locks:
  assumes "fst (delete_gate dates vs e s clk req tbl) = Inr res"
    and "l \<in> set tbl" and "\<And>i. \<not> lock_expired (clk i) l"
    and "covers l (resource_key res (req_user req)) \<or> is_child (resource_key res (req_user req)) (lkey l)"
  shows "own_lock req l"
proof -
  let ?t = "snd (eval_if dates vs (clk 0) req res tbl)"
  have "fst (check_dav_locks (clk 1) req (resource_key res (req_user req)) True ?t) = Inr ()"
    using assms(1)
    by (auto simp: delete_gate_def split: if_splits option.splits dest!: check_opt_ok)
  moreover have "l \<in> set ?t" by (rule kept_mem [OF kept_steps(1) assms(2,3)])
  ultimately show ?thesis
    using assms(3,4) check_dav_locks_ok by blast
qed

text \<open>The tables the checks of \<open>move_locks\<close> see, one after the other.\<close>

lemma move_locks_locks:
  assumes "fst (move_locks dates vs clk req mv src dest parent tbl) = Inr ()"
    and "l \<in> set tbl" and live: "\<And>i. \<not> lock_expired (clk i) l"
    and "mv \<and> k = resource_key src (req_user req) \<or> (\<exists>d. dest = Some d \<and> k = resource_key d (req_user req))"
    and "covers l k \<or> is_child k (lkey l)"
  shows "own_lock req l"
proof -
  let ?t1 = "snd (eval_if dates vs (clk 0) req src tbl)"
  let ?e2 = "\<lambda>t. case dest of None \<Rightarrow> (Inr (), t) | Some d \<Rightarrow> eval_if dates vs (clk 1) req d t"
  let ?e3 = "\<lambda>t. if mv then check_dav_locks (clk 2) req (resource_key src (req_user req)) True t else (Inr (), t)"
  let ?e4 = "\<lambda>t. case (mv, uri_parent (req_path req)) of
      (True, Some p) \<Rightarrow> check_dav_locks (clk 3) req (normalize p) False t | _ \<Rightarrow> (Inr (), t)"
  let ?e5 = "\<lambda>t. case dest of
      None \<Rightarrow> check_dav_locks (clk 4) req (resource_key parent (req_user req)) False t
    | Some d \<Rightarrow> check_dav_locks (clk 4) req (resource_key d (req_user req)) True t"
  let ?t2 = "snd (?e2 ?t1)"
  let ?t3 = "snd (?e3 ?t2)"
  let ?t4 = "snd (?e4 ?t3)"
  note c1 = check_opt_ok [OF assms(1) [unfolded move_locks_def]]
  note c2 = check_opt_ok [OF conjunct2 [OF c1]]
  note c3 = check_opt_ok [OF conjunct2 [OF c2]]
  note c4 = check_opt_ok [OF conjunct2 [OF c3]]
  have ok: "fst (?e3 ?t2) = Inr ()" "fst (?e5 ?t4) = Inr ()"
    by (rule conjunct1 [OF c3], rule conjunct2 [OF c4])
  have "l \<in> set ?t1" by (rule kept_mem [OF kept_steps(1) assms(2) live])
  moreover have "kept clk ?t1 ?t2" by (auto split: option.split)
  ultimately have t2: "l \<in> set ?t2" using kept_mem live by blast
  moreover have "kept clk ?t2 ?t3" by auto
  ultimately have "l \<in> set ?t3" using kept_mem live by blast
  moreover have "kept clk ?t3 ?t4" by (auto split: option.split bool.split)
  ultimately have t4: "l \<in> set ?t4" using kept_mem live by blast
  from assms(4) show ?thesis
  proof (elim disjE conjE exE)
    assume "mv" "k = resource_key src (req_user req)"
    with ok(1) show ?thesis using check_dav_locks_ok [OF _ t2 live] assms(5) by auto
  next
    fix d assume "dest = Some d" "k = resource_key d (req_user req)"
    with ok(2) show ?thesis using check_dav_locks_ok [OF _ t4 live] assms(5) by auto
  qed
qed

text \<open>
  C7: a lock that protects what a request would change stops it: DELETE and MOVE of a
  resource on, above or below which somebody holds a live lock whose token the request does
  not carry (or that belongs to another account) are refused with nothing done, and so are
  COPY and MOVE onto such a resource.
\<close>

theorem locks_stop_writes:
  assumes "dispatch_write fuel http_date validators pct_decode authority e s clk req = Some m"
    and "m w = Some (r, w')"
    and "l \<in> set (lock_tbl (tables w))" and "\<And>i. \<not> lock_expired (clk i) l"
    and "\<not> (principal l = req_principal req \<and> token l \<in> set (req_tokens req))"
    and "(req_method req \<in> {''DELETE'', ''MOVE''} \<and>
            lookup (view e s) (the_roots e) (req_path req) (req_caller req) = Some t) \<or>
         (req_method req \<in> {''COPY'', ''MOVE''} \<and> fold_name e (normalize (req_path req)) \<noteq> fold_name e (normalize dest_path) \<and>
            lookup (view e s) (the_roots e) (req_path req) (req_caller req) = Some src \<and>
            destination_path pct_decode authority req = Inr raw \<and> dest_path = move_dest_path src raw \<and>
            lookup (view e s) (the_roots e) dest_path (req_caller req) = Some t)"
    and "covers l (resource_key t (req_user req)) \<or> is_child (resource_key t (req_user req)) (lkey l)"
  shows "(\<exists>er. r = Inl er) \<and> os_state w' = os_state w \<and> trace w' = trace w"
proof -
  have refused: ?thesis
    if "after_gate g work w = Some (r, w')" "\<And>x. fst g \<noteq> Inr x" for g :: "(dav_error + 'b) \<times> lock_table" and work
    using that(1) by (cases rule: after_gate_cases) (use that(2) in auto)
  have not_own: "\<not> own_lock req l" using assms(5) by (simp add: own_lock_def)
  show ?thesis
  proof (cases "req_method req = ''DELETE''")
    case True
    let ?g = "delete_gate http_date validators e s clk req (lock_tbl (tables w))"
    have t: "lookup (view e s) (the_roots e) (req_path req) (req_caller req) = Some t"
      using assms(6) True by auto
    have "fst ?g \<noteq> Inr x" for x
    proof
      assume ok: "fst ?g = Inr x"
      with t have "x = t" using delete_gate_ok(2) by fastforce
      with delete_gate_locks [OF ok assms(3,4)] assms(7) not_own show False by blast
    qed
    with True assms(1,2) show ?thesis
      by (intro refused [of ?g]) (auto simp: dispatch_write_def delete_method_def)
  next
    case False
    define mv where "mv = (req_method req = ''MOVE'')"
    let ?g = "move_gate http_date validators pct_decode authority e s clk req mv (lock_tbl (tables w))"
    have run: "copy_move fuel http_date validators pct_decode authority e s clk req mv w = Some (r, w')"
      using assms(1,2,6) False by (auto simp: dispatch_write_def mv_def split: if_splits)
    have "fst ?g \<noteq> Inr plan" for plan
    proof
      assume ok: "fst ?g = Inr plan"
      from move_gate_ok [OF ok] have
        p: "lookup (view e s) (the_roots e) (req_path req) (req_caller req) = Some (mp_src plan)"
        and locks: "fst (move_locks http_date validators clk req mv (mp_src plan) (mp_dest plan) (mp_parent plan)
              (lock_tbl (tables w))) = Inr ()"
        and dest: "destination_path pct_decode authority req = Inr raw' \<Longrightarrow>
           mp_dest plan = dest_found e s (renames_source e mv (normalize (req_path req))
               (normalize (move_dest_path (mp_src plan) raw'))) (mp_src plan)
             (lookup (view e s) (the_roots e) (move_dest_path (mp_src plan) raw') (req_caller req))" for raw'
        by auto
      have "mv \<and> t = mp_src plan \<or> mp_dest plan = Some t"
        using assms(6) p dest [of raw] False by (auto simp: mv_def dest_found_def renames_source_def)
      then have "own_lock req l"
        using move_locks_locks [OF locks assms(3,4), of "resource_key t (req_user req)"] assms(7) by auto
      with not_own show False by simp
    qed
    with run show ?thesis by (intro refused [of ?g]) (auto simp: copy_move_def)
  qed
qed

theorem locks_stop_writes_witness:
  "\<exists>r w'. delete_method no_dates plain_validators (mem_env []) mem_sample (\<lambda>i. i) delete_volume
       (mem_world mem_sample [demo_lock ''t1'' ''/mokuro-reader/S/V.cbz'' ''al''] []) = Some (r, w') \<and>
     os_state w' = mem_sample \<and> trace w' = []"
proof -
  let ?w = "mem_world mem_sample [demo_lock ''t1'' ''/mokuro-reader/S/V.cbz'' ''al''] []"
  let ?m = "delete_method no_dates plain_validators (mem_env []) mem_sample (\<lambda>i. i) delete_volume"
  have "run_status (?m ?w) = Some (False, 423)" by code_simp
  then obtain er w' where run: "?m ?w = Some (Inl er, w')" using run_refused by blast
  let ?t = "RFile ''/mokuro-reader/S/V.cbz'' (mem_lib [''S'', ''V.cbz'']) (demo_stat False) KLibrary"
  have t: "lookup (view (mem_env []) mem_sample) (the_roots (mem_env [])) (req_path delete_volume)
      (req_caller delete_volume) = Some ?t" by code_simp
  have m: "dispatch_write 0 no_dates plain_validators id None (mem_env []) mem_sample (\<lambda>i. i) delete_volume = Some ?m"
    by (simp add: dispatch_write_def delete_volume_def mem_req_def)
  have c: "covers (demo_lock ''t1'' ''/mokuro-reader/S/V.cbz'' ''al'') (resource_key ?t (req_user delete_volume))"
    by code_simp
  have "(\<exists>er'. (Inl er :: dav_error + nat) = Inl er') \<and> os_state w' = os_state ?w \<and> trace w' = trace ?w"
    by (rule locks_stop_writes [OF m run, where l = "demo_lock ''t1'' ''/mokuro-reader/S/V.cbz'' ''al''" and t = ?t])
      (use t c in \<open>auto simp: mem_world_def demo_lock_def lock_expired_def delete_volume_def mem_req_def req_principal_def\<close>)
  with run show ?thesis by (simp add: mem_world_def)
qed

section \<open>Destroyed before refused\<close>

lemma bind_op_Some: "m w = Some (Inr x, w1) \<Longrightarrow> bind_op m k w = k x w1"
  by (simp add: bind_op_def)

lemma bind_op_fails: "m w = Some (Inl er, w1) \<Longrightarrow> bind_op m k w = Some (Inl er, w1)"
  by (simp add: bind_op_def)

text \<open>Acts that tell nobody what became of the disk: no listing is dropped, no archive reported.\<close>

definition unannounced :: "act list \<Rightarrow> bool" where
  "unannounced acts \<longleftrightarrow>
     list_all (\<lambda>x. case x of Invalidate _ \<Rightarrow> False | Hook (ArchivesRemoved _) \<Rightarrow> False
                     | Hook (LibraryChanged _) \<Rightarrow> False | _ \<Rightarrow> True) acts"

lemma deleted_folder:
  assumes "exists_at e p (os_state w)" and "try_lock_all (lower_str e) (held e (os_state w)) [p] \<noteq> None"
    and "sys e (RemoveDirAll p) (os_state w) = (Inr (), s1)"
  shows "\<exists>w1 acts. delete_folder e req v p w = Some (Inr (), w1) \<and> os_state w1 = s1 \<and>
           trace w1 = trace w @ Sys (RemoveDirAll p) None # acts \<and> unannounced acts"
  using assms
  by (auto simp: delete_folder_def look_def with_guard_def io_def sys_op_def bind_op_def ret_def Let_def
      when_op_def hook_def note_removed_def note_eff_def touch_def audit_def unannounced_def split: option.splits)

text \<open>
  C34: a MOVE of a folder onto an existing folder first deletes the destination and only then
  asks for the write locks of the source: when somebody is writing below the source by then
  (an upload in progress), the answer is 423, the destination is gone, the source stays where
  it is, and nothing that caches listings or queues work is told.
\<close>

theorem refused_move_deletes_destination:
  assumes "mp_src plan = RFolder src_v src st kind" and "mp_dest plan = Some (RFolder dest_v old old_st old_kind)"
    and "destination_of (view e (os_state w)) (the_roots e) (mp_parent plan) (mp_name plan) (req_caller req) = Some (dest, k)"
    and "onto_itself e plan dest (os_state w) = None"
    and "exists_at e old (os_state w)" and "try_lock_all (lower_str e) (held e (os_state w)) [old] \<noteq> None"
    and "sys e (RemoveDirAll old) (os_state w) = (Inr (), s1)"
    and "try_lock_all (lower_str e) (held e s1) [src, dest] = None"
  shows "\<exists>er w' acts. move_work fuel e req True plan w = Some (Inl er, w') \<and> status er = 423 \<and> os_state w' = s1 \<and>
           trace w' = trace w @ Sys (RemoveDirAll old) None # acts \<and> unannounced acts"
proof -
  obtain w1 acts where del: "delete_folder e req dest_v old w = Some (Inr (), w1)" "os_state w1 = s1"
    "trace w1 = trace w @ Sys (RemoveDirAll old) None # acts" "unannounced acts"
    using deleted_folder [OF assms(5-7)] by blast
  define t where "t = folder_audit_target e src_v (Some src)"
  obtain w2 er where moved: "move_folder fuel e req src_v src (mp_dest_norm plan) dest w1 = Some (Inl er, w2)"
    "status er = 423" "os_state w2 = s1"
    "\<exists>x. trace w2 = trace w1 @ [Hook (Audit ''lock_conflict'' (req_user req) (fst t) (snd t) x)]"
    using assms(8) del(2) unfolding move_folder_def Let_def with_guard_def look_def t_def
    by (auto simp: write_lock_conflict_def audit_def hook_def bind_op_def fail_def)
  have "move_transfer fuel e req True plan dest w = Some (Inl er, w2)"
    using del(1) moved(1) assms(1,2)
    by (simp add: move_transfer_def Let_def delete_dest_def delete_resource_def bind_op_def)
  then have "move_work fuel e req True plan w = Some (Inl er, w2)"
    using assms(3,4) by (simp add: move_work_def look_def bind_op_fails)
  moreover obtain x where "trace w2 = trace w @ Sys (RemoveDirAll old) None #
      (acts @ [Hook (Audit ''lock_conflict'' (req_user req) (fst t) (snd t) x)])"
    using moved(4) del(3) by auto
  moreover have "unannounced (acts @ [Hook (Audit ''lock_conflict'' (req_user req) (fst t) (snd t) x)])"
    using del(4) by (simp add: unannounced_def)
  ultimately show ?thesis using moved(2,3) by blast
qed

text \<open>In the example, somebody uploads \<open>S/V2.cbz\<close> while \<open>S\<close> is moved onto \<open>T\<close>.\<close>

definition plan_onto :: move_plan where
  "plan_onto =
     \<lparr>mp_src = RFolder ''/mokuro-reader/S'' (mem_lib [''S'']) (demo_stat True) KLibrary,
      mp_dest = Some (RFolder ''/mokuro-reader/T'' (mem_lib [''T'']) (demo_stat True) KLibrary),
      mp_parent = RVirtual ''/mokuro-reader'', mp_name = ''T'', mp_dest_norm = ''/mokuro-reader/T'',
      mp_infinite = True, mp_renames = False\<rparr>"

definition uploading :: "lock_key list" where
  "uploading = [mem_lib [''s'', ''v2.cbz'']]"

theorem refused_move_deletes_destination_witness:
  "\<exists>er w'. move_work 20 (mem_env uploading) move_series True plan_onto (mem_world mem_sample [] []) = Some (Inl er, w') \<and>
     status er = 423 \<and> os_state w' = mem_without (mem_lib [''T'']) mem_sample"
proof -
  let ?e = "mem_env uploading"
  let ?w = "mem_world mem_sample [] []"
  have d: "destination_of (view ?e mem_sample) (the_roots ?e) (RVirtual ''/mokuro-reader'') ''T'' (req_caller move_series)
      = Some (mem_lib [''T''], KLibrary)"
    by code_simp
  have o: "onto_itself ?e plan_onto (mem_lib [''T'']) mem_sample = None" by code_simp
  have x: "exists_at ?e (mem_lib [''T'']) mem_sample" by code_simp
  have g: "try_lock_all (lower_str ?e) (held ?e mem_sample) [mem_lib [''T'']] \<noteq> None" by code_simp
  have s: "sys ?e (RemoveDirAll (mem_lib [''T''])) mem_sample = (Inr (), mem_without (mem_lib [''T'']) mem_sample)"
    by code_simp
  have h: "try_lock_all (lower_str ?e) (held ?e (mem_without (mem_lib [''T'']) mem_sample)) [mem_lib [''S''], mem_lib [''T'']] = None"
    by code_simp
  have w: "os_state ?w = mem_sample" by (simp add: mem_world_def)
  have "\<exists>er w' acts. move_work 20 ?e move_series True plan_onto ?w = Some (Inl er, w') \<and> status er = 423 \<and>
      os_state w' = mem_without (mem_lib [''T'']) mem_sample \<and>
      trace w' = trace ?w @ Sys (RemoveDirAll (mem_lib [''T''])) None # acts \<and> unannounced acts"
    by (rule refused_move_deletes_destination
        [where src_v = "''/mokuro-reader/S''" and src = "mem_lib [''S'']" and dest = "mem_lib [''T'']" and k = KLibrary])
      (use d o x g s h in \<open>simp_all add: w plan_onto_def\<close>)
  then show ?thesis by blast
qed

text \<open>The same through the whole handler: \<open>T\<close> and its volume are lost, \<open>S\<close> has not moved.\<close>

lemma move_onto_while_uploading:
  "mem_answer (mem_run uploading move_series (mem_world mem_sample [] [])) =
     Some (423, mem_without (mem_lib [''T'']) mem_sample)"
  by code_simp

text \<open>
  A COPY of an archive's side file onto the archive: overwriting deletes the archive with all
  its side files first, the source among them, so there is nothing left to copy.
\<close>

lemma copy_onto_own_archive:
  "mem_answer (mem_run [] (mem_req ''COPY'' ''/mokuro-reader/S/V.mokuro''
       [(''destination'', ''/mokuro-reader/S/V.cbz'')]) (mem_world mem_sample [] [])) =
     Some (500, mem_without (mem_lib [''S'', ''V.cbz'']) (mem_without (mem_lib [''S'', ''V.mokuro'']) mem_sample))"
  by code_simp

end
