(* ===== verification/Dav_Write_Uploads.thy ===== *)
theory Dav_Write_Uploads
  imports Dav_Write_Facts Db_Uploads
begin

text \<open>
  WebDAV writes and the uploads table together: the hooks of \<open>write.rs\<close> as the server answers
  them (\<open>bunko-server/src/davhooks.rs\<close>) on the table of \<open>uploads.rs\<close>. The table after a
  request is the one the hooks in the trace lead to; hooks on other tables leave it alone.
\<close>

definition hook_uploads :: "(string \<Rightarrow> string) \<Rightarrow> string \<Rightarrow> hook \<Rightarrow> volume_row list \<Rightarrow> volume_row list" where
  "hook_uploads lower now h t =
     (case h of
        ForgetUpload rel \<Rightarrow> forget_volume_upload lower rel t
      | RenameUpload old new \<Rightarrow> rename_volume_upload lower now old new t
      | RecordUpload rel actor _ \<Rightarrow> record_volume_upload lower now rel actor t
      | ForgetUploadsUnder prefix \<Rightarrow> snd (forget_volume_uploads_under_prefix prefix t)
      | _ \<Rightarrow> t)"

definition act_uploads :: "(string \<Rightarrow> string) \<Rightarrow> string \<Rightarrow> volume_row list \<Rightarrow> act \<Rightarrow> volume_row list" where
  "act_uploads lower now t x = (case x of Hook h \<Rightarrow> hook_uploads lower now h t | _ \<Rightarrow> t)"

definition uploads_after :: "(string \<Rightarrow> string) \<Rightarrow> string \<Rightarrow> volume_row list \<Rightarrow> 's world \<Rightarrow> volume_row list" where
  "uploads_after lower now t0 w = foldl (act_uploads lower now) t0 (trace w)"

text \<open>An operation that succeeds changes the table by \<open>f\<close>.\<close>

definition follows ::
  "(string \<Rightarrow> string) \<Rightarrow> string \<Rightarrow> volume_row list \<Rightarrow> ('s, 'a) op \<Rightarrow> (volume_row list \<Rightarrow> volume_row list) \<Rightarrow> bool" where
  "follows lower now t0 m f \<longleftrightarrow>
     (\<forall>w x w'. m w = Some (Inr x, w') \<longrightarrow> uploads_after lower now t0 w' = f (uploads_after lower now t0 w))"

lemma followsD: "follows lower now t0 m f \<Longrightarrow> m w = Some (Inr x, w') \<Longrightarrow>
    uploads_after lower now t0 w' = f (uploads_after lower now t0 w)"
  by (simp add: follows_def)

lemma follows_ret [simp]: "follows lower now t0 (ret x) id" "follows lower now t0 (fail er) f"
  by (simp_all add: follows_def ret_def fail_def)

lemma follows_quiet [simp]:
  "follows lower now t0 (note_eff g) id" "follows lower now t0 (sys_op e c) id" "follows lower now t0 (invalidate_paths ps) id"
  by (auto simp: follows_def note_eff_def sys_op_def invalidate_paths_def uploads_after_def act_uploads_def Let_def
      split: prod.splits)

lemma follows_hook: "follows lower now t0 (hook h) (hook_uploads lower now h)"
  by (simp add: follows_def hook_def uploads_after_def act_uploads_def)

lemma hook_uploads_eqs:
  "hook_uploads lower now (RenameUpload a b) = rename_volume_upload lower now a b"
  "hook_uploads lower now (ForgetUpload rel) = forget_volume_upload lower rel"
  by (simp_all add: hook_uploads_def fun_eq_iff)

lemma follows_bind: "follows lower now t0 m f \<Longrightarrow> (\<And>x. follows lower now t0 (k x) g) \<Longrightarrow>
    follows lower now t0 (bind_op m k) (g \<circ> f)"
  unfolding follows_def by (auto elim!: bind_op_cases)

lemma follows_then:
  "follows lower now t0 m id \<Longrightarrow> (\<And>x. follows lower now t0 (k x) f) \<Longrightarrow> follows lower now t0 (bind_op m k) f"
  using follows_bind [of lower now t0 m id k f] by simp

lemma follows_block:
  "list_all2 (follows lower now t0) ms fs \<Longrightarrow> follows lower now t0 (block ms) (\<lambda>t. foldl (\<lambda>t f. f t) t fs)"
proof (induction rule: list_all2_induct)
  case Nil
  then show ?case by (simp add: follows_def ret_def)
next
  case (Cons m ms f fs)
  then show ?case using follows_bind [OF Cons(1), of "\<lambda>_. block ms"] by (simp add: comp_def)
qed

lemma follows_when: "follows lower now t0 m f \<Longrightarrow> follows lower now t0 (when_op b m) (if b then f else id)"
  by (simp add: when_op_def)

lemma follows_look: "(\<And>s. follows lower now t0 (k (g s)) f) \<Longrightarrow> follows lower now t0 (look g k) f"
  by (simp add: follows_def look_def)

lemma follows_conflict: "follows lower now t0 (write_lock_conflict req target operation dest) f"
  by (auto simp: follows_def write_lock_conflict_def fail_def elim!: bind_op_cases)

lemma follows_guard: "follows lower now t0 m f \<Longrightarrow>
    follows lower now t0 (with_guard e ps (write_lock_conflict req target operation dest) m) f"
  by (auto simp: with_guard_def follows_conflict intro!: follows_look split: option.split)

lemma follows_io [simp]: "follows lower now t0 (io e c) id" "follows lower now t0 (io_ignored e c) id"
proof -
  have "follows lower now t0 (case r of None \<Rightarrow> ret () | Some er \<Rightarrow> fail (of_io er)) id" for r :: "io_error option"
    by (simp split: option.split)
  from follows_bind [OF follows_quiet(2) this] show "follows lower now t0 (io e c) id" by (simp add: io_def)
  from follows_bind [OF follows_quiet(2) follows_ret(1)] show "follows lower now t0 (io_ignored e c) id"
    by (simp add: io_ignored_def)
qed

lemma follows_other_hooks [simp]:
  "follows lower now t0 (audit req action target details) id"
  "follows lower now t0 (forget_ocr_records e rel archive_too) id"
  "follows lower now t0 (primary_leaving e p) id" "follows lower now t0 (note_removed e p) id"
  "follows lower now t0 (note_arrived e p) id" "follows lower now t0 (touch v ph) id"
proof -
  have h: "follows lower now t0 (hook x) id" if "\<And>t. hook_uploads lower now x t = t" for x
    using follows_hook [of lower now t0 x] that by (simp add: follows_def)
  have w: "follows lower now t0 (when_op b m) id" if "follows lower now t0 m id" for b m
    using follows_when [OF that, of b] by simp
  show "follows lower now t0 (audit req action target details) id"
    unfolding audit_def by (rule h) (simp add: hook_uploads_def)
  show "follows lower now t0 (forget_ocr_records e rel archive_too) id"
    by (auto simp: forget_ocr_records_def Let_def hook_uploads_def intro!: w h split: option.split)
  show "follows lower now t0 (primary_leaving e p) id"
    by (auto simp: primary_leaving_def hook_uploads_def intro!: w h follows_look split: option.split)
  show "follows lower now t0 (note_removed e p) id" "follows lower now t0 (note_arrived e p) id"
    "follows lower now t0 (touch v ph) id"
    by (auto simp: note_removed_def note_arrived_def touch_def intro!: w)
qed

lemma follows_make_parent [simp]: "follows lower now t0 (make_parent e p) id"
  by (simp add: make_parent_def split: option.split)

text \<open>A file MOVE changes the table by the one rename; a file DELETE forgets an archive's row.\<close>

lemma move_file_uploads:
  "follows lower now t0 (move_file e req sv src dv dest)
     (case rel_of e src of None \<Rightarrow> id
      | Some a \<Rightarrow> (case rel_of e dest of None \<Rightarrow> id | Some b \<Rightarrow> rename_volume_upload lower now a b))"
proof -
  define f where "f = (case rel_of e src of None \<Rightarrow> id
      | Some a \<Rightarrow> (case rel_of e dest of None \<Rightarrow> id | Some b \<Rightarrow> rename_volume_upload lower now a b))"
  have "follows lower now t0 (hook (RenameUpload a b)) (rename_volume_upload lower now a b)" for a b
    using follows_hook [of lower now t0 "RenameUpload a b"] by (simp add: hook_uploads_eqs)
  then have r: "follows lower now t0 (rename_hooks (rel_of e src) (rel_of e dest)) f"
    by (cases "rel_of e src"; cases "rel_of e dest") (simp_all add: rename_hooks_def f_def)
  have w: "follows lower now t0 (when_op b (note_removed e src)) id" for b
    using follows_when [OF follows_other_hooks(4), of lower now t0 b e src] by simp
  have "follows lower now t0 (block
     [primary_leaving e src, make_parent e dest, io e (Rename src dest),
      when_op (is_cbz src) (note_removed e src), note_arrived e dest,
      rename_hooks (rel_of e src) (rel_of e dest),
      forget_ocr_records e (rel_of e src) True, forget_ocr_records e (rel_of e dest) False,
      touch sv (Some src), touch dv (Some dest),
      audit req ''move'' (file_audit_target e sv src) [(''destination'', dv)]])
     (\<lambda>t. foldl (\<lambda>t f. f t) t [id, id, id, id, id, f, id, id, id, id, id])"
    by (rule follows_block) (simp add: r w)
  then show ?thesis unfolding move_file_def Let_def f_def [symmetric] by (intro follows_guard) simp
qed

lemma follows_for_each: "(\<And>x. follows lower now t0 (f x) id) \<Longrightarrow> follows lower now t0 (for_each f xs) id"
proof (induction xs)
  case (Cons x xs)
  then have "follows lower now t0 (block (map f xs)) id" using Cons.prems unfolding for_each_def by blast
  then have "follows lower now t0 (bind_op (f x) (\<lambda>_. block (map f xs))) id"
    using Cons.prems by (intro follows_then)
  then show ?case by (simp only: for_each_def list.map block.simps)
qed (simp add: for_each_def)

lemma delete_file_uploads:
  assumes "rel_of e p = Some rel" and "is_cbz p" and "delete_file e req v p w = Some (Inr (), w')"
    and "exists_at e p (os_state w)"
  shows "uploads_after lower now t0 w' = forget_volume_upload lower rel (uploads_after lower now t0 w)"
proof -
  let ?forget = "forget_volume_upload lower rel"
  have gone: "follows lower now t0 (bind_op (sys_op e (RemoveFile p))
      (\<lambda>r. case r of None \<Rightarrow> ret () | Some er \<Rightarrow> if io_kind er = IoNotFound then ret () else fail (of_io er))) id"
    by (intro follows_then) (simp_all split: option.split)
  have other: "hook_uploads lower now (ForgetUuid rel) = id" by (simp add: hook_uploads_def fun_eq_iff)
  have two: "follows lower now t0 (block [hook (ForgetUpload rel), hook (ForgetUuid rel)])
      (\<lambda>t. foldl (\<lambda>t f. f t) t [?forget, id])"
    using follows_hook [of lower now t0 "ForgetUpload rel"] follows_hook [of lower now t0 "ForgetUuid rel"]
    by (intro follows_block) (simp add: hook_uploads_eqs other)
  have forget: "follows lower now t0 (block [note_removed e p, block [hook (ForgetUpload rel), hook (ForgetUuid rel)]])
      (\<lambda>t. foldl (\<lambda>t f. f t) t [id, \<lambda>t. foldl (\<lambda>t f. f t) t [?forget, id]])"
    using two by (intro follows_block) simp
  have sides: "follows lower now t0 (look (siblings e p) (for_each (\<lambda>p. io_ignored e (RemoveFile p)))) id"
    by (intro follows_look follows_for_each) simp
  let ?work = "block
     [primary_leaving e p, look (siblings e p) (for_each (\<lambda>p. io_ignored e (RemoveFile p))),
      bind_op (sys_op e (RemoveFile p))
        (\<lambda>r. case r of None \<Rightarrow> ret () | Some er \<Rightarrow> if io_kind er = IoNotFound then ret () else fail (of_io er)),
      block [note_removed e p, block [hook (ForgetUpload rel), hook (ForgetUuid rel)]],
      forget_ocr_records e (Some rel) True, touch v (Some p), audit req ''delete'' (file_audit_target e v p) []]"
  have "follows lower now t0 ?work (\<lambda>t. foldl (\<lambda>t f. f t) t [id, id, id, ?forget, id, id, id])"
    using forget gone sides by (intro follows_block) simp
  then have "follows lower now t0
      (with_guard e [p] (write_lock_conflict req (file_audit_target e v p) ''delete'' None) ?work) ?forget"
    by (intro follows_guard) simp
  moreover have "with_guard e [p] (write_lock_conflict req (file_audit_target e v p) ''delete'' None) ?work w = Some (Inr (), w')"
    using assms by (simp add: delete_file_def look_def Let_def when_op_def)
  ultimately show ?thesis by (rule followsD)
qed

section \<open>Ownership after a write\<close>

lemma owner_after_rename:
  assumes "normalize_volume_key lower a = Some ka" and "normalize_volume_key lower b = Some kb" and "ka \<noteq> kb"
    and "owner_of ka t = Some u"
  shows "owner_of kb (rename_volume_upload lower now a b t) = Some u"
    and "owner_of ka (rename_volume_upload lower now a b t) = None"
proof -
  obtain r where r: "find (\<lambda>r. vu_key r = ka) t = Some r" "vu_user r = u"
    using assms(4) by (auto simp: owner_of_def)
  define m where "m = \<lparr>vu_key = kb, vu_user = vu_user r, vu_at = vu_at r, vu_modified_by = vu_modified_by r, vu_modified_at = now\<rparr>"
  have t': "rename_volume_upload lower now a b t = filter (\<lambda>x. vu_key x \<noteq> ka) (upsert_row m t)"
    using assms r by (simp add: rename_volume_upload_def m_def)
  have m [simp]: "vu_key m = kb" "vu_user m = u" using r(2) by (simp_all add: m_def)
  have "owner_of kb (upsert_row m t) = Some (vu_user m)"
  proof (cases "kb \<in> vu_key ` set t")
    case True
    then have "owner_of kb (map (\<lambda>x. if vu_key x = kb then m else x) t) = Some (vu_user m)"
      by (induction t) (auto simp: owner_of_def)
    with True show ?thesis by (simp add: upsert_row_def)
  next
    case False
    then show ?thesis using owner_None [of kb t] by (simp add: upsert_row_def owner_append)
  qed
  then show "owner_of kb (rename_volume_upload lower now a b t) = Some u"
    using owner_filter [of "\<lambda>y. y \<noteq> ka" kb "upsert_row m t"] assms(3) by (simp add: t')
  show "owner_of ka (rename_volume_upload lower now a b t) = None"
    by (auto simp: t' owner_None)
qed

text \<open>
  C35: moving a file of a volume inside the library, and not only its archive, moves the ownership
  of the volume: after a MOVE of the archive \<open>S/V.cbz\<close>, but also of just its cover \<open>S/V.webp\<close> or its
  OCR file \<open>S/V.mokuro\<close> (any of \<^const>\<open>volume_suffixes\<close>; a layer \<open>S/V.name.mokuro\<close> has a key of its own and
  is not among them), to the same kind of file of a volume \<open>S/X\<close>, the uploader of \<open>V\<close> owns \<open>X\<close> instead,
  whoever owned \<open>X\<close> before, and nobody owns \<open>V\<close>: its uploader may no longer delete or replace the
  archive that is still there.
\<close>

theorem moving_any_file_moves_owner:
  assumes "st \<noteq> []" "hd st \<noteq> CHR ''/''" "st' \<noteq> []" "hd st' \<noteq> CHR ''/''" "st \<noteq> st'"
    and "list_all (keeps lower) volume_suffixes" "suf \<in> set volume_suffixes"
    and "rel_of e src = Some (st @ suf)" "rel_of e dest = Some (st' @ suf)"
    and "owner_of (st @ ''.cbz'') (uploads_after lower now t0 w) = Some u"
    and "move_file e req src_v src dest_v dest w = Some (Inr (), w')"
  shows "owner_of (st' @ ''.cbz'') (uploads_after lower now t0 w') = Some u \<and>
         \<not> can_user_delete_library_path lower u (''/mokuro-reader/'' @ st @ ''.cbz'') (uploads_after lower now t0 w')"
proof -
  let ?t = "uploads_after lower now t0 w"
  have t': "uploads_after lower now t0 w' = rename_volume_upload lower now (st @ suf) (st' @ suf) ?t"
    using followsD [OF move_file_uploads assms(11), of lower now t0] assms(8,9) by simp
  note keys = key_of_file [OF assms(1,2,6,7)] key_of_file [OF assms(3,4,6,7)]
  have own: "owner_of (st' @ ''.cbz'') (uploads_after lower now t0 w') = Some u"
    "owner_of (st @ ''.cbz'') (uploads_after lower now t0 w') = None"
    using owner_after_rename [OF keys _ assms(10)] assms(5) by (simp_all add: t')
  have "''.cbz'' \<in> set volume_suffixes" by (simp add: volume_suffixes_def)
  then have "get_volume_owner lower (st @ ''.cbz'') (uploads_after lower now t0 w') = None"
    using key_of_file [OF assms(1,2,6)] own(2) by (simp add: get_volume_owner_def)
  moreover have "layer_sidecar_volume_path (st @ ''.cbz'') = None"
    by (auto simp: layer_sidecar_volume_path_def Db_Uploads.strip_suffix_def Let_def strip_prefix_Some_iff split: option.splits)
  moreover have "trim_c CHR ''/'' (st @ ''.cbz'') = st @ ''.cbz''"
    using assms(1,2) by (intro trim_c_id) auto
  ultimately have "\<not> can_user_delete_library_path lower u (''/mokuro-reader/'' @ st @ ''.cbz'') (uploads_after lower now t0 w')"
    by (simp add: can_user_delete_library_path_def Let_def del: append.simps)
  with own(1) show ?thesis by blast
qed

definition move_ocr :: dav_req where
  "move_ocr = mem_req ''MOVE'' ''/mokuro-reader/S/V.mokuro'' [(''destination'', ''/mokuro-reader/S/X.mokuro'')]"

theorem moving_any_file_moves_owner_witness:
  "\<exists>w'. move_file (mem_env []) move_ocr ''/mokuro-reader/S/V.mokuro'' (mem_lib [''S'', ''V.mokuro''])
        ''/mokuro-reader/S/X.mokuro'' (mem_lib [''S'', ''X.mokuro'']) (mem_world mem_sample [] []) = Some (Inr (), w') \<and>
     owner_of ''S/X.cbz'' (uploads_after (\<lambda>c. c) [] (record_volume_upload (\<lambda>c. c) [] ''S/V.cbz'' ''al'' []) w') = Some ''al''"
proof -
  let ?e = "mem_env []"
  let ?t = "record_volume_upload (\<lambda>c. c) [] ''S/V.cbz'' ''al'' []"
  let ?w = "mem_world mem_sample [] []"
  let ?m = "move_file ?e move_ocr ''/mokuro-reader/S/V.mokuro'' (mem_lib [''S'', ''V.mokuro''])
        ''/mokuro-reader/S/X.mokuro'' (mem_lib [''S'', ''X.mokuro''])"
  have "map_option (\<lambda>(r, w). case r of Inl _ \<Rightarrow> False | Inr _ \<Rightarrow> True) (?m ?w) = Some True" by code_simp
  then obtain w' where run: "?m ?w = Some (Inr (), w')"
    by (cases "fst (the (?m ?w))") auto
  have k: "list_all (keeps (\<lambda>c. c)) volume_suffixes" "''.mokuro'' \<in> set volume_suffixes"
    "rel_of ?e (mem_lib [''S'', ''V.mokuro'']) = Some (''S/V'' @ ''.mokuro'')"
    "rel_of ?e (mem_lib [''S'', ''X.mokuro'']) = Some (''S/X'' @ ''.mokuro'')"
    "owner_of (''S/V'' @ ''.cbz'') ?t = Some ''al''"
    by code_simp+
  then have o: "owner_of (''S/V'' @ ''.cbz'') (uploads_after (\<lambda>c. c) [] ?t ?w) = Some ''al''"
    by (simp add: uploads_after_def mem_world_def)
  from moving_any_file_moves_owner [OF _ _ _ _ _ k(1-4) o run] run show ?thesis by simp
qed

text \<open>
  deleting an archive frees its name: after a successful DELETE of a volume's archive
  nobody owns the volume, so the next account to upload one of that name does.
\<close>

theorem deleted_archive_is_free:
  assumes "st \<noteq> []" "hd st \<noteq> CHR ''/''" "list_all (keeps lower) volume_suffixes"
    and "rel_of e p = Some (st @ ''.cbz'')" and "is_cbz p" and "exists_at e p (os_state w)"
    and "delete_file e req v p w = Some (Inr (), w')"
  shows "owner_of (st @ ''.cbz'') (uploads_after lower now t0 w') = None \<and>
         owner_of (st @ ''.cbz'') (record_volume_upload lower now' (st @ ''.cbz'') u (uploads_after lower now t0 w')) = Some u"
proof -
  have key: "normalize_volume_key lower (st @ ''.cbz'') = Some (st @ ''.cbz'')"
    by (rule key_of_file [OF assms(1-3)]) (simp add: volume_suffixes_def)
  have "owner_of (st @ ''.cbz'') (uploads_after lower now t0 w') = None"
    using delete_file_uploads [OF assms(4,5,7,6), of lower now t0] key
    by (auto simp: forget_volume_upload_def owner_None)
  moreover have "keeps lower ''.cbz''" using assms(3) by (simp add: volume_suffixes_def)
  ultimately show ?thesis
    using archive_is_archive [OF assms(1,2)] key by (simp add: owner_record)
qed

theorem deleted_archive_is_free_witness:
  "\<exists>w'. delete_file (mem_env []) delete_volume ''/mokuro-reader/S/V.cbz'' (mem_lib [''S'', ''V.cbz''])
        (mem_world mem_sample [] []) = Some (Inr (), w') \<and>
     owner_of ''S/V.cbz'' (record_volume_upload (\<lambda>c. c) [] ''S/V.cbz'' ''bo''
       (uploads_after (\<lambda>c. c) [] (record_volume_upload (\<lambda>c. c) [] ''S/V.cbz'' ''al'' []) w')) = Some ''bo''"
proof -
  let ?e = "mem_env []"
  let ?w = "mem_world mem_sample [] []"
  let ?m = "delete_file ?e delete_volume ''/mokuro-reader/S/V.cbz'' (mem_lib [''S'', ''V.cbz''])"
  have "map_option (\<lambda>(r, w). case r of Inl _ \<Rightarrow> False | Inr _ \<Rightarrow> True) (?m ?w) = Some True" by code_simp
  then obtain w' where run: "?m ?w = Some (Inr (), w')"
    by (cases "fst (the (?m ?w))") auto
  have k: "list_all (keeps (\<lambda>c. c)) volume_suffixes"
    "rel_of ?e (mem_lib [''S'', ''V.cbz'']) = Some (''S/V'' @ ''.cbz'')" "is_cbz (mem_lib [''S'', ''V.cbz''])"
    "exists_at ?e (mem_lib [''S'', ''V.cbz'']) mem_sample"
    by code_simp+
  then have x: "exists_at ?e (mem_lib [''S'', ''V.cbz'']) (os_state ?w)" by (simp add: mem_world_def)
  from deleted_archive_is_free [OF _ _ k(1-3) x run] run show ?thesis by simp
qed

end
