(* ===== verification/Dav_Write_Ends.thy ===== *)
theory Dav_Write_Ends
  imports Dav_Write_Safe
begin

text \<open>
  DELETE, MKCOL, COPY and MOVE end: how much fuel the loops over folder trees need. The system
  bounds the number of components of a path it opens (\<open>PATH_MAX\<close>, which also ends the walk
  along a cycle of symbolic links) and a folder has finitely many entries; the bounds hold in
  every state, so what other requests do meanwhile is allowed for.
\<close>

definition bounded :: "'s env \<Rightarrow> nat \<Rightarrow> nat \<Rightarrow> bool" where
  "bounded e B N \<longleftrightarrow>
     (\<forall>s p names. dir_names (view e s) p = Some names \<longrightarrow> length names \<le> B \<and> length p < N)"

text \<open>The weight of the paths on a stack: one more than everything that may still be found below them.\<close>

definition weight :: "nat \<Rightarrow> nat \<Rightarrow> fs_path list \<Rightarrow> nat" where
  "weight B N ps = (\<Sum>p\<leftarrow>ps. Suc B ^ (N - length p))"

lemma weight_simps [simp]: "weight B N [] = 0" "weight B N (p # ps) = Suc B ^ (N - length p) + weight B N ps"
  by (simp_all add: weight_def)

lemma weight_pop:
  assumes "length p < N" and "m \<le> B"
  shows "m * Suc B ^ (N - Suc (length p)) < Suc B ^ (N - length p)"
proof -
  define c where "c = Suc B ^ (N - Suc (length p))"
  have "N - length p = Suc (N - Suc (length p))" using assms(1) by simp
  then have "Suc B ^ (N - length p) = c + B * c" by (simp add: c_def)
  moreover have "m * c \<le> B * c" using assms(2) by simp
  moreover have "0 < c" by (simp add: c_def)
  ultimately show ?thesis unfolding c_def [symmetric] by linarith
qed

section \<open>Operations that end\<close>

definition ends :: "('s, 'a) op \<Rightarrow> bool" where
  "ends m \<longleftrightarrow> (\<forall>w. m w \<noteq> None)"

lemma ends_basic [intro!, simp]:
  "ends (ret x)" "ends (fail er)" "ends (hook h)" "ends (note_eff f)" "ends (invalidate_paths ps)"
  "ends (drop_locks key)" "ends (drop_dead key)" "ends (sys_op e c)"
  by (auto simp: ends_def ret_def fail_def hook_def note_eff_def invalidate_paths_def drop_locks_def
      drop_dead_def sys_op_def Let_def split: prod.splits)

lemma endsE: "ends m \<Longrightarrow> (\<And>r w'. m w = Some (r, w') \<Longrightarrow> P) \<Longrightarrow> P"
  unfolding ends_def by (metis not_None_eq surj_pair)

lemma ends_bind_yields:
  assumes "ends m" and "yields m Q" and "\<And>x. Q x \<Longrightarrow> ends (k x)"
  shows "ends (bind_op m k)"
  unfolding ends_def
proof
  fix w
  obtain r w1 where "m w = Some (r, w1)" using assms(1) by (rule endsE)
  note run = this
  show "bind_op m k w \<noteq> None"
  proof (cases r)
    case (Inl er)
    with run show ?thesis by (simp add: bind_op_def)
  next
    case (Inr x)
    with run have "Q x" using assms(2) by (auto simp: yields_def)
    with assms(3) have "k x w1 \<noteq> None" by (simp add: ends_def)
    with run Inr show ?thesis by (simp add: bind_op_def)
  qed
qed

lemma ends_bind [intro!]: "ends m \<Longrightarrow> (\<And>x. ends (k x)) \<Longrightarrow> ends (bind_op m k)"
  by (rule ends_bind_yields [where Q = "\<lambda>_. True"]) (simp_all add: yields_def)

lemma ends_block_Nil [intro!]: "ends (block [])"
  by simp

lemma ends_block_Cons [intro!]: "ends m \<Longrightarrow> ends (block ms) \<Longrightarrow> ends (block (m # ms))"
  by auto

lemma ends_for_each [intro!]: "(\<And>x. ends (f x)) \<Longrightarrow> ends (for_each f xs)"
  unfolding for_each_def by (induction xs) auto

lemma ends_when [intro!]: "ends m \<Longrightarrow> ends (when_op b m)"
  by (auto simp: when_op_def)

lemma ends_look [intro!]: "(\<And>s. ends (k (f s))) \<Longrightarrow> ends (look f k)"
  by (auto simp: ends_def look_def)

lemma ends_guard [intro!]: "ends x \<Longrightarrow> ends m \<Longrightarrow> ends (with_guard e ps x m)"
  by (auto simp: with_guard_def split: option.splits)

lemma ends_cleanup [intro!]:
  assumes "ends m" and "ends undo"
  shows "ends (cleanup m undo)"
  unfolding ends_def
proof
  fix w
  obtain r w1 where "m w = Some (r, w1)" using assms(1) by (rule endsE)
  moreover have "ends (bind_op undo (\<lambda>_. fail er :: ('a, 'b) op))" for er
    using assms(2) by auto
  ultimately show "cleanup m undo w \<noteq> None"
    by (cases r) (auto simp: cleanup_def ends_def)
qed

lemma ends_io [intro!]: "ends (io e f)" "ends (io_ignored e f)"
  by (auto simp: io_def io_ignored_def split: option.splits)

lemma ends_fire [intro!]: "ends (fire e)"
proof -
  have "ends (block
        [when_op (a \<noteq> []) (invalidate_paths a), when_op (b \<noteq> []) (hook (ArchivesRemoved b)),
         for_each (\<lambda>p. hook (ArchiveArrived p)) d, when_op (f \<noteq> []) (hook (LibraryChanged f))])" for a b d f
    by blast
  then show ?thesis unfolding ends_def fire_def Let_def by blast
qed

lemma ends_bookkeeping [intro!]:
  "ends (audit req action target details)" "ends (write_lock_conflict req target operation destination)"
  "ends (forget_ocr_records e rel archive_too)" "ends (primary_leaving e p)"
  "ends (note_removed e p)" "ends (note_arrived e p)" "ends (touch v ph)"
  "ends (rename_hooks a b)" "ends (folder_hooks e a b vs)" "ends (make_parent e p)"
  by (auto simp: audit_def write_lock_conflict_def forget_ocr_records_def primary_leaving_def
      note_removed_def note_arrived_def touch_def rename_hooks_def folder_hooks_def make_parent_def
      Let_def split: option.splits)

lemma ends_files [intro!]:
  "ends (delete_file e req v p)" "ends (delete_folder e req v p)"
  "ends (move_file e req sv s dv d)" "ends (copy_file e req s dv d)"
  by (auto simp: delete_file_def delete_folder_def move_file_def copy_file_def copy_one_def Let_def
      split: option.splits)

lemma ends_delete [intro!]: "ends (delete_resource e req res)" "ends (delete_dest e req r)"
  by (auto simp: delete_resource_def delete_dest_def split: resource.splits option.splits)

lemma ends_entries [intro!]:
  "ends (prune_entries e req s d v names stack)" "ends (copy_entries e req dp s d v names stack)"
proof -
  show "ends (prune_entries e req s d v names stack)"
    by (induction names arbitrary: stack) (auto simp: prune_entry_def Let_def split: option.splits prod.splits)
  show "ends (copy_entries e req dp s d v names stack)"
    by (induction names arbitrary: stack) (auto simp: copy_entry_def split: option.splits prod.splits)
qed

section \<open>The loops\<close>

lemma yields_mono: "yields m P \<Longrightarrow> (\<And>x. P x \<Longrightarrow> Q x) \<Longrightarrow> yields m Q"
  by (auto simp: yields_def)

definition prune_weight :: "nat \<Rightarrow> nat \<Rightarrow> work_stack \<Rightarrow> nat" where
  "prune_weight B N stack = weight B N (map (\<lambda>(s, d, v). d) stack)"

definition copy_weight :: "nat \<Rightarrow> nat \<Rightarrow> work_stack \<Rightarrow> nat" where
  "copy_weight B N stack = weight B N (map (\<lambda>(s, d, v). s) stack)"

lemma prune_entries_weight:
  "yields (prune_entries e req s d v names stack)
     (\<lambda>st. prune_weight B N st \<le> prune_weight B N stack + length names * Suc B ^ (N - Suc (length d)))"
proof (induction names arbitrary: stack)
  case (Cons n names)
  have "yields (prune_entry e req (s @ [n]) (d @ [n]) (v @ ''/'' @ n) stack)
      (\<lambda>st. prune_weight B N st \<le> prune_weight B N stack + Suc B ^ (N - Suc (length d)))"
    unfolding prune_entry_def Let_def
    by (auto simp: prune_weight_def intro!: yields_look yields_ret yields_then split: option.splits)
  then have "yields (bind_op (prune_entry e req (s @ [n]) (d @ [n]) (v @ ''/'' @ n) stack) (prune_entries e req s d v names))
      (\<lambda>st. prune_weight B N st \<le> prune_weight B N stack + length (n # names) * Suc B ^ (N - Suc (length d)))"
    by (rule yields_bind, intro yields_mono [OF Cons]) simp
  then show ?case by simp
qed (simp add: yields_ret)

lemma copy_entries_weight:
  "yields (copy_entries e req dp s d v names stack)
     (\<lambda>st. copy_weight B N st \<le> copy_weight B N stack + length names * Suc B ^ (N - Suc (length s)))"
proof (induction names arbitrary: stack)
  case (Cons n names)
  have "yields (copy_entry e req dp (s @ [n]) (d @ [n]) (v @ ''/'' @ n) stack)
      (\<lambda>st. copy_weight B N st \<le> copy_weight B N stack + Suc B ^ (N - Suc (length s)))"
    unfolding copy_entry_def
    by (auto simp: copy_weight_def intro!: yields_look yields_ret yields_then split: option.splits)
  then have "yields (bind_op (copy_entry e req dp (s @ [n]) (d @ [n]) (v @ ''/'' @ n) stack) (copy_entries e req dp s d v names))
      (\<lambda>st. copy_weight B N st \<le> copy_weight B N stack + length (n # names) * Suc B ^ (N - Suc (length s)))"
    by (rule yields_bind, intro yields_mono [OF Cons]) simp
  moreover have "yields (copy_entries e req dp s d v names stack)
      (\<lambda>st. copy_weight B N st \<le> copy_weight B N stack + length (n # names) * Suc B ^ (N - Suc (length s)))"
    by (rule yields_mono [OF Cons]) simp
  ultimately show ?case by simp
qed (simp add: yields_ret)

lemma ends_prune_loop:
  assumes "bounded e B N"
  shows "prune_weight B N stack \<le> fuel \<Longrightarrow> ends (prune_loop fuel e req stack)"
proof (induction fuel arbitrary: stack)
  case 0
  then show ?case by (cases stack) (auto simp: prune_weight_def)
next
  case (Suc fuel)
  show ?case
  proof (cases stack)
    case (Cons x stack')
    obtain s d v where x: "x = (s, d, v)" by (cases x)
    have w: "Suc B ^ (N - length d) + prune_weight B N stack' \<le> Suc fuel"
      using Suc.prems Cons x by (simp add: prune_weight_def)
    have "ends (bind_op (prune_entries e req s d v names stack') (prune_loop fuel e req))"
      if "dir_names (view e st) d = Some names" for st names
    proof (rule ends_bind_yields [OF ends_entries(1) prune_entries_weight])
      fix y
      assume y: "prune_weight B N y \<le> prune_weight B N stack' + length names * Suc B ^ (N - Suc (length d))"
      have "length names \<le> B" "length d < N" using assms that by (auto simp: bounded_def)
      from weight_pop [OF this(2,1)] w y show "ends (prune_loop fuel e req y)" by (intro Suc.IH) simp
    qed
    moreover have "ends (prune_loop fuel e req stack')"
    proof (rule Suc.IH)
      have "0 < Suc B ^ n" for n by simp
      from this [of "N - length d"] w show "prune_weight B N stack' \<le> fuel" by linarith
    qed
    ultimately show ?thesis using Cons x by (auto split: option.splits)
  qed simp
qed

lemma ends_copy_loop:
  assumes "bounded e B N"
  shows "copy_weight B N stack \<le> fuel \<Longrightarrow> ends (copy_loop fuel e req dp stack)"
proof (induction fuel arbitrary: stack)
  case 0
  then show ?case by (cases stack) (auto simp: copy_weight_def)
next
  case (Suc fuel)
  show ?case
  proof (cases stack)
    case (Cons x stack')
    obtain s d v where x: "x = (s, d, v)" by (cases x)
    have w: "Suc B ^ (N - length s) + copy_weight B N stack' \<le> Suc fuel"
      using Suc.prems Cons x by (simp add: copy_weight_def)
    have "ends (bind_op (copy_entries e req dp s d v (sort names) stack') (copy_loop fuel e req dp))"
      if "dir_names (view e st) s = Some names" for st names
    proof (rule ends_bind_yields [OF ends_entries(2) copy_entries_weight])
      fix y
      assume y: "copy_weight B N y \<le> copy_weight B N stack' + length (sort names) * Suc B ^ (N - Suc (length s))"
      have "length names \<le> B" "length s < N" using assms that by (auto simp: bounded_def)
      from weight_pop [OF this(2,1)] w y show "ends (copy_loop fuel e req dp y)" by (intro Suc.IH) simp
    qed
    moreover have "ends (copy_loop fuel e req dp stack')"
    proof (rule Suc.IH)
      have "0 < Suc B ^ n" for n by simp
      from this [of "N - length s"] w show "copy_weight B N stack' \<le> fuel" by linarith
    qed
    ultimately show ?thesis using Cons x by (auto split: option.splits)
  qed simp
qed

lemma cbz_entries_weight:
  "weight B N (fst (cbz_entries d p names stack out)) \<le> weight B N stack + length names * Suc B ^ (N - Suc (length p))"
proof (induction d p names stack out rule: cbz_entries.induct)
  case (2 d dir n names stack out)
  then show ?case by (auto simp: Let_def split: if_splits intro: order_trans)
qed simp

lemma ends_cbz_loop:
  assumes "bounded e B N"
  shows "weight B N stack \<le> fuel \<Longrightarrow> cbz_loop fuel (view e s) stack out \<noteq> None"
proof (induction fuel arbitrary: stack out)
  case 0
  then show ?case by (cases stack) auto
next
  case (Suc fuel)
  show ?case
  proof (cases stack)
    case (Cons p stack')
    have w: "Suc B ^ (N - length p) + weight B N stack' \<le> Suc fuel" using Suc.prems Cons by simp
    show ?thesis
    proof (cases "dir_names (view e s) p")
      case None
      have "0 < Suc B ^ (N - length p)" by simp
      with w have "weight B N stack' \<le> fuel" by linarith
      with Suc.IH None Cons show ?thesis by simp
    next
      case (Some names)
      let ?r = "cbz_entries (view e s) p names stack' out"
      have "length names \<le> B" "length p < N" using assms Some by (auto simp: bounded_def)
      from weight_pop [OF this(2,1)] w cbz_entries_weight [of B N "view e s" p names stack' out]
      have "weight B N (fst ?r) \<le> fuel" by linarith
      with Suc.IH [of "fst ?r" "snd ?r"] Some Cons show ?thesis by (simp add: case_prod_beta)
    qed
  qed simp
qed

lemma ends_cbz_under:
  assumes "bounded e B N" and "Suc B ^ N \<le> fuel" and "\<And>ps. ends (k ps)"
  shows "ends (cbz_under fuel e dir k)"
proof -
  have "weight B N [dir] \<le> fuel"
    using power_increasing [of "N - length dir" N "Suc B"] assms(2) by simp
  then have "cbz_loop fuel (view e s) [dir] [] \<noteq> None" for s
    by (rule ends_cbz_loop [OF assms(1)])
  then have "ends (case cbz_loop fuel (view e s) [dir] [] of None \<Rightarrow> no_fuel | Some ps \<Rightarrow> k ps)" for s
    using assms(3) by (metis option.case_eq_if)
  then show ?thesis unfolding cbz_under_def by (intro ends_look)
qed

lemma ends_folders:
  assumes "bounded e B N" and "Suc B ^ N \<le> fuel"
  shows "ends (move_folder fuel e req sv s dv d)" and "ends (copy_folder fuel e req r dst dv d deep)"
proof -
  show "ends (move_folder fuel e req sv s dv d)"
    unfolding move_folder_def Let_def by (auto intro!: ends_cbz_under [OF assms])
  have one: "Suc B ^ (N - n) \<le> fuel" for n
    using power_increasing [of "N - n" N "Suc B"] assms(2) by simp
  have "ends (copy_loop fuel e req dp [(a, b, v)])" "ends (prune_loop fuel e req [(a, b, v)])" for dp a b v
    using one by (auto simp: copy_weight_def prune_weight_def
        intro!: ends_copy_loop [OF assms(1)] ends_prune_loop [OF assms(1)])
  then show "ends (copy_folder fuel e req r dst dv d deep)"
    unfolding copy_folder_def prune_unmatched_def by (auto split: option.splits)
qed

lemma ends_after_gate:
  assumes "\<And>x. ends (work x)"
  shows "\<exists>r w'. after_gate g work w = Some (r, w')"
proof (cases "fst g")
  case (Inr x)
  let ?w = "w\<lparr>tables := (tables w)\<lparr>lock_tbl := snd g\<rparr>, eff := no_effects\<rparr>"
  obtain r w' where "work x ?w = Some (r, w')" using assms [of x] by (rule endsE)
  with Inr show ?thesis by (simp add: after_gate_def Let_def)
qed (simp add: after_gate_def Let_def)

text \<open>
  C6: every DELETE, MKCOL, COPY and MOVE ends with an answer, cycles of symbolic links and
  other requests changing the tree meanwhile included: where no path of \<open>N\<close> or more components
  can be opened and no folder has more than \<open>B\<close> entries, \<open>(B + 1) ^ N\<close> rounds of each loop are
  enough.
\<close>

theorem writes_end:
  assumes "bounded e B N" and "Suc B ^ N \<le> fuel"
    and "dispatch_write fuel http_date validators pct_decode authority e s clk req = Some m"
  shows "\<exists>r w'. m w = Some (r, w')"
proof -
  have transfer: "ends (move_transfer fuel e req mv plan p)" for mv plan p
    unfolding move_transfer_def Let_def by (auto split: resource.splits intro: ends_folders [OF assms(1,2)])
  have work: "ends (move_work fuel e req mv plan)" for mv plan
    unfolding move_work_def by (auto split: option.splits simp: transfer)
  have a: "\<exists>r w'. copy_move fuel http_date validators pct_decode authority e s clk req mv w = Some (r, w')" for mv
    unfolding copy_move_def by (rule ends_after_gate) (rule work)
  have b: "\<exists>r w'. delete_method http_date validators e s clk req w = Some (r, w')"
    unfolding delete_method_def by (rule ends_after_gate) (auto simp: delete_work_def Let_def)
  have c: "\<exists>r w'. mkcol_method e s clk req w = Some (r, w')"
    unfolding mkcol_method_def by (rule ends_after_gate) (auto simp: mkcol_work_def Let_def split: option.splits)
  from assms(3) consider "m = delete_method http_date validators e s clk req"
    | "m = mkcol_method e s clk req"
    | mv where "m = copy_move fuel http_date validators pct_decode authority e s clk req mv"
    by (auto simp: dispatch_write_def split: if_split_asm)
  then show ?thesis by cases (use a b c in blast)+
qed

text \<open>A disk that stays as it is, on which a folder is moved.\<close>

definition still_env :: "mem env" where
  "still_env = (mem_env [])\<lparr>view := (\<lambda>_. mem_disk mem_sample)\<rparr>"

theorem writes_end_witness:
  "\<exists>r w'. copy_move 4096 no_dates plain_validators id None still_env mem_sample (\<lambda>i. i)
       (mem_req ''MOVE'' ''/mokuro-reader/S'' [(''destination'', ''/mokuro-reader/T'')]) True
       (mem_world mem_sample [] []) = Some (r, w')"
proof -
  have "length p < 4" if "map_of mem_sample p = Some True" for p
    using that by (auto simp: mem_sample_def mem_lib_def split: if_splits)
  moreover have "length (filter P (map fst mem_sample)) \<le> 7" for P
    using length_filter_le [of P "map fst mem_sample"] by (simp add: mem_sample_def)
  ultimately have b: "bounded still_env 7 4"
    by (auto simp: bounded_def still_env_def mem_disk_def split: if_splits)
  let ?req = "mem_req ''MOVE'' ''/mokuro-reader/S'' [(''destination'', ''/mokuro-reader/T'')]"
  have "dispatch_write 4096 no_dates plain_validators id None still_env mem_sample (\<lambda>i. i) ?req =
      Some (copy_move 4096 no_dates plain_validators id None still_env mem_sample (\<lambda>i. i) ?req True)"
    by (simp add: dispatch_write_def mem_req_def)
  from writes_end [OF b _ this] show ?thesis by simp
qed

end
