(* ===== verification/Dav_Upload.thy ===== *)
theory Dav_Upload
  imports Dav_Effects
begin

text \<open>
  \<open>bunko-dav/src/upload.rs\<close>, its pure parts: the \<open>Content-Digest\<close> header, the check of a staged
  archive, the memory of damaged uploads, and the verdict sent for a refused PUT. Parameters:
  base64 decoding, the SHA functions, what the \<open>zip\<close> crate reads of an archive (its members and
  the lengths of the successive reads of each), and the formatting of a float with one decimal.
\<close>

section \<open>Content-Digest\<close>

datatype digest_algo = Sha256 | Sha512

fun algo_name :: "digest_algo \<Rightarrow> string" where
  "algo_name Sha256 = ''sha-256''"
| "algo_name Sha512 = ''sha-512''"

fun algo_len :: "digest_algo \<Rightarrow> nat" where
  "algo_len Sha256 = 32"
| "algo_len Sha512 = 64"

record upload_lib =
  lib_b64 :: "string \<Rightarrow> string option"
  lib_sha :: "digest_algo \<Rightarrow> string \<Rightarrow> string"
  lib_gib :: "nat \<Rightarrow> string"
  lib_mib :: "nat \<Rightarrow> string"

definition valid_key :: "string \<Rightarrow> bool" where
  "valid_key key =
     (case key of
        [] \<Rightarrow> False
      | c # cs \<Rightarrow>
          (is_ascii_lower c \<or> c = CHR ''*'') \<and>
          list_all (\<lambda>c. is_ascii_lower c \<or> is_ascii_digit c \<or> List.member ''_.*-'' c) cs)"

definition valid_b64 :: "string \<Rightarrow> bool" where
  "valid_b64 s =
     (let body = trim_end_c CHR ''='' s in
      length s - length body \<le> 2 \<and>
      list_all (\<lambda>c. is_ascii_alnum c \<or> c = CHR ''+'' \<or> c = CHR ''/'') body)"

definition algo_of :: "string \<Rightarrow> digest_algo option" where
  "algo_of key = (if key = ''sha-256'' then Some Sha256 else if key = ''sha-512'' then Some Sha512 else None)"

text \<open>One member \<open>key=:base64:\<close> of the header.\<close>

definition digest_member :: "upload_lib \<Rightarrow> string \<Rightarrow> (string \<times> string) option" where
  "digest_member lib raw =
     (case split_once_c CHR ''='' (trim raw) of
        None \<Rightarrow> None
      | Some (key, value) \<Rightarrow>
          if \<not> valid_key key then None
          else
            (case Option.bind (strip_prefix '':'' value) (\<lambda>v. strip_suffix '':'' v) of
               None \<Rightarrow> None
             | Some b64 \<Rightarrow>
                 if \<not> valid_b64 b64 then None
                 else
                   (case lib_b64 lib b64 of
                      None \<Rightarrow> None
                    | Some bytes \<Rightarrow>
                        (case algo_of key of
                           None \<Rightarrow> Some (key, bytes)
                         | Some algo \<Rightarrow> if length bytes \<noteq> algo_len algo then None else Some (key, bytes)))))"

fun digest_members :: "upload_lib \<Rightarrow> string list \<Rightarrow> (digest_algo \<rightharpoonup> string) \<Rightarrow> (digest_algo \<rightharpoonup> string) option" where
  "digest_members lib [] found = Some found"
| "digest_members lib (raw # raws) found =
     (case digest_member lib raw of
        None \<Rightarrow> None
      | Some (key, bytes) \<Rightarrow>
          digest_members lib raws
            (case algo_of key of None \<Rightarrow> found | Some algo \<Rightarrow> found(algo \<mapsto> bytes)))"

definition parse_content_digest :: "upload_lib \<Rightarrow> string option \<Rightarrow> (digest_algo \<times> string) option" where
  "parse_content_digest lib header =
     (case header of
        None \<Rightarrow> None
      | Some h \<Rightarrow>
          if trim h = [] then None
          else
            (case digest_members lib (split_c CHR '','' h) Map.empty of
               None \<Rightarrow> None
             | Some found \<Rightarrow>
                 (case found Sha256 of
                    Some d \<Rightarrow> Some (Sha256, d)
                  | None \<Rightarrow> map_option (\<lambda>d. (Sha512, d)) (found Sha512))))"

section \<open>Refusals\<close>

record rejection =
  rej_status :: nat
  rej_reason :: string
  rej_detail :: string
  rej_retry :: bool

definition rejection_new :: "nat \<Rightarrow> string \<Rightarrow> string \<Rightarrow> bool \<Rightarrow> rejection" where
  "rejection_new st reason detail retry =
     \<lparr>rej_status = st, rej_reason = reason, rej_detail = detail, rej_retry = retry\<rparr>"

definition is_disk_full :: "io_error \<Rightarrow> bool" where
  "is_disk_full er \<longleftrightarrow> io_kind er \<in> {IoStorageFull, IoQuotaExceeded} \<or> io_os er \<in> {Some 28, Some 122}"

text \<open>The text before the last \<open> (os error \<close>.\<close>

fun cut_last :: "string \<Rightarrow> string \<Rightarrow> string option" where
  "cut_last pat [] = None"
| "cut_last pat (c # cs) =
     (case cut_last pat cs of
        Some before' \<Rightarrow> Some (c # before')
      | None \<Rightarrow> if starts_with (c # cs) pat then Some [] else None)"

definition strerror :: "io_error \<Rightarrow> string" where
  "strerror er = (case cut_last '' (os error '' (io_text er) of Some t \<Rightarrow> t | None \<Rightarrow> io_text er)"

definition from_io :: "io_error \<Rightarrow> string \<Rightarrow> rejection" where
  "from_io er doing =
     (if is_disk_full er
      then rejection_new 507 ''disk-full'' (''The server'' @ CHR 0x27 # ''s disk is full; the upload was not stored.'') False
      else rejection_new 500 ''server-error'' (''The server failed '' @ doing @ '': '' @ strerror er @ ''.'') True)"

section \<open>Python texts\<close>

definition hex_digit :: "nat \<Rightarrow> char" where
  "hex_digit n = ''0123456789abcdef'' ! (n mod 16)"

fun hex_fixed :: "nat \<Rightarrow> nat \<Rightarrow> string" where
  "hex_fixed 0 n = []"
| "hex_fixed (Suc k) n = hex_fixed k (n div 16) @ [hex_digit n]"

definition py_repr_char :: "char \<Rightarrow> char \<Rightarrow> string" where
  "py_repr_char quote c =
     (if c = CHR 0x5C then [CHR 0x5C, CHR 0x5C]
      else if c = CHR 0x0A then [CHR 0x5C, CHR ''n'']
      else if c = CHR 0x0D then [CHR 0x5C, CHR ''r'']
      else if c = CHR 0x09 then [CHR 0x5C, CHR ''t'']
      else if c = quote then [CHR 0x5C, c]
      else if of_char c < (0x20 :: nat) \<or> c = CHR 0x7F then [CHR 0x5C, CHR ''x''] @ hex_fixed 2 (of_char c)
      else [c])"

definition py_repr :: "string \<Rightarrow> string" where
  "py_repr s =
     (let quote = (if List.member s CHR 0x27 \<and> \<not> List.member s CHR 0x22 then CHR 0x22 else CHR 0x27)
      in quote # concat (map (py_repr_char quote) s) @ [quote])"

text \<open>The code points of a valid UTF-8 text, and their UTF-16 units.\<close>

definition cont_bits :: "char \<Rightarrow> nat" where
  "cont_bits c = of_char c mod 64"

fun utf8_points :: "string \<Rightarrow> nat list" where
  "utf8_points [] = []"
| "utf8_points (a # cs) =
     (let n = of_char a :: nat in
      if n < 0x80 then n # utf8_points cs
      else if n < 0xE0 then
        (case cs of b # cs \<Rightarrow> ((n mod 32) * 64 + cont_bits b) # utf8_points cs | _ \<Rightarrow> [])
      else if n < 0xF0 then
        (case cs of b # c # cs \<Rightarrow> (((n mod 16) * 64 + cont_bits b) * 64 + cont_bits c) # utf8_points cs | _ \<Rightarrow> [])
      else
        (case cs of
           b # c # d # cs \<Rightarrow>
             ((((n mod 8) * 64 + cont_bits b) * 64 + cont_bits c) * 64 + cont_bits d) # utf8_points cs
         | _ \<Rightarrow> []))"

definition utf16_units :: "nat \<Rightarrow> nat list" where
  "utf16_units n =
     (if n < 0x10000 then [n]
      else [0xD800 + (n - 0x10000) div 0x400, 0xDC00 + (n - 0x10000) mod 0x400])"

definition json_point :: "nat \<Rightarrow> string" where
  "json_point n =
     (if n = 0x22 then [CHR 0x5C, CHR 0x22]
      else if n = 0x5C then [CHR 0x5C, CHR 0x5C]
      else if n = 0x0A then [CHR 0x5C, CHR ''n'']
      else if n = 0x0D then [CHR 0x5C, CHR ''r'']
      else if n = 0x09 then [CHR 0x5C, CHR ''t'']
      else if n = 0x08 then [CHR 0x5C, CHR ''b'']
      else if n = 0x0C then [CHR 0x5C, CHR ''f'']
      else if 0x20 \<le> n \<and> n \<le> 0x7E then [char_of n]
      else concat (map (\<lambda>u. [CHR 0x5C, CHR ''u''] @ hex_fixed 4 u) (utf16_units n)))"

definition py_json_str :: "string \<Rightarrow> string" where
  "py_json_str s = CHR 0x22 # concat (map json_point (utf8_points s)) @ [CHR 0x22]"

definition failure_json :: "string \<Rightarrow> string \<Rightarrow> bool \<Rightarrow> string" where
  "failure_json reason detail retry =
     ''{'' @ CHR 0x22 # ''ok'' @ CHR 0x22 # '': false, '' @ CHR 0x22 # ''reason'' @ CHR 0x22 # '': '' @ py_json_str reason @
     '', '' @ CHR 0x22 # ''detail'' @ CHR 0x22 # '': '' @ py_json_str detail @
     '', '' @ CHR 0x22 # ''retry'' @ CHR 0x22 # '': '' @ (if retry then ''true'' else ''false'') @ ''}''"

definition failure_for_status :: "nat \<Rightarrow> rejection" where
  "failure_for_status code =
     (if code = 401 then rejection_new 401 ''forbidden'' ''Sign in to upload.'' False
      else if code = 403 then rejection_new 403 ''forbidden'' ''This account may not upload this file.'' False
      else if code = 429 then rejection_new 429 ''forbidden'' ''Too many failed sign-ins; wait and try again.'' False
      else if code = 507 then rejection_new 507 ''disk-full'' (''The server'' @ CHR 0x27 # ''s disk is full.'') False
      else rejection_new code ''server-error'' (''The server could not store the upload ('' @ show_nat code @ '').'')
             (code \<ge> 500 \<or> code = 408 \<or> code = 423))"

section \<open>Checking a staged archive\<close>

text \<open>
  How a member opens: an encrypted one is skipped, one that does not open is damaged, another
  gives its bytes in reads of these lengths and ends well or with an error.
\<close>

datatype zip_open = Encrypted | Unopenable | Reads "nat list" bool

record zip_member =
  zm_name :: string
  zm_dir :: bool
  zm_method :: nat
  zm_size :: nat
  zm_open :: zip_open

record zip_view =
  zv_head :: string
  zv_len :: nat
  zv_archive :: "string + (string + zip_member) list"

record verified =
  v_head :: string
  v_refused :: "string option"
  v_structural :: "string option"
  v_damaged :: "string list"
  v_members :: nat

definition unverified :: verified where
  "unverified = \<lparr>v_head = [], v_refused = None, v_structural = None, v_damaged = [], v_members = 0\<rparr>"

definition verified_ok :: "verified \<Rightarrow> bool" where
  "verified_ok v \<longleftrightarrow> v_refused v = None \<and> v_structural v = None \<and> v_damaged v = []"

definition inflate_floor :: nat where "inflate_floor = 256 * 1024 * 1024"
definition inflate_ceiling :: nat where "inflate_ceiling = 16 * 1024 * 1024 * 1024"

text \<open>The product is exact below the ceiling: a length under \<open>2 ^ 53\<close> is a float itself.\<close>

definition inflate_allowance :: "nat \<Rightarrow> nat" where
  "inflate_allowance archive_size = min inflate_ceiling (max inflate_floor (archive_size * 20))"

fun raw_members :: "(string + zip_member) list \<Rightarrow> string + zip_member list" where
  "raw_members [] = Inr []"
| "raw_members (Inl er # ms) = Inl er"
| "raw_members (Inr m # ms) = (case raw_members ms of Inl er \<Rightarrow> Inl er | Inr rest \<Rightarrow> Inr (m # rest))"

definition method_name :: "nat \<Rightarrow> string" where
  "method_name n = (if n = 12 then ''bzip2'' else if n = 14 then ''LZMA'' else ''method '' @ show_nat n)"

definition odd_methods :: "zip_member list \<Rightarrow> string list" where
  "odd_methods ms =
     remdups_adj (sort (map (\<lambda>m. method_name (zm_method m)) (filter (\<lambda>m. zm_method m \<noteq> 0 \<and> zm_method m \<noteq> 8) ms)))"

text \<open>The sum of the declared sizes, in 64 bits.\<close>

definition declared_sum :: "zip_member list \<Rightarrow> nat" where
  "declared_sum ms = sum_list (map zm_size ms) mod 2 ^ 64"

text \<open>Reading one member: past the allowance, damaged or whole, with the running total.\<close>

datatype member_end = PastAllowance nat | Damaged nat | Whole nat

fun read_member :: "nat \<Rightarrow> nat \<Rightarrow> nat list \<Rightarrow> bool \<Rightarrow> nat \<Rightarrow> nat \<Rightarrow> member_end" where
  "read_member allowed declared [] fine produced inflated = (if fine then Whole inflated else Damaged inflated)"
| "read_member allowed declared (n # reads) fine produced inflated =
     (let produced = produced + n; inflated = inflated + n in
      if inflated > allowed then PastAllowance inflated
      else if produced > declared then Damaged inflated
      else read_member allowed declared reads fine produced inflated)"

text \<open>The reachable members in order; the total is kept as well, for what is proved of it.\<close>

fun read_members :: "string \<Rightarrow> nat \<Rightarrow> zip_member list \<Rightarrow> nat \<Rightarrow> verified \<Rightarrow> verified \<times> nat" where
  "read_members past allowed [] inflated v = (v, inflated)"
| "read_members past allowed (m # ms) inflated v =
     (let v = v\<lparr>v_members := v_members v + 1\<rparr>;
          hurt = v\<lparr>v_damaged := v_damaged v @ [zm_name m]\<rparr>
      in
      case zm_open m of
        Encrypted \<Rightarrow> read_members past allowed ms inflated v
      | Unopenable \<Rightarrow> read_members past allowed ms inflated hurt
      | Reads reads fine \<Rightarrow>
          (case read_member allowed (zm_size m) reads fine 0 inflated of
             PastAllowance inflated \<Rightarrow> (v\<lparr>v_refused := Some past\<rparr>, inflated)
           | Damaged inflated \<Rightarrow> read_members past allowed ms inflated hurt
           | Whole inflated \<Rightarrow> read_members past allowed ms inflated v))"

fun comma_join :: "string list \<Rightarrow> string" where
  "comma_join [] = []"
| "comma_join [x] = x"
| "comma_join (x # xs) = x @ '', '' @ comma_join xs"

definition refused_method :: "string list \<Rightarrow> string" where
  "refused_method odd_names =
     ''its pages are compressed with '' @ comma_join odd_names @
     '', which a reader cannot open; re-pack it as an ordinary (deflate) zip''"

definition refused_size :: "upload_lib \<Rightarrow> string \<Rightarrow> nat \<Rightarrow> nat \<Rightarrow> string" where
  "refused_size lib verb amount archive_size =
     ''its pages '' @ verb @ '' '' @ lib_gib lib amount @ '' GiB for a '' @ lib_mib lib archive_size @
     '' MiB archive, more than any volume inflates to''"

definition verify_members :: "upload_lib \<Rightarrow> zip_view \<Rightarrow> zip_member list \<Rightarrow> verified \<times> nat" where
  "verify_members lib z ms =
     (let v = unverified\<lparr>v_head := zv_head z\<rparr>;
          reachable = filter (\<lambda>m. \<not> zm_dir m) ms;
          odd_names = odd_methods reachable;
          declared = declared_sum reachable;
          allowed = inflate_allowance (zv_len z)
      in
      if odd_names \<noteq> [] then (v\<lparr>v_refused := Some (refused_method odd_names)\<rparr>, 0)
      else if declared > allowed then (v\<lparr>v_refused := Some (refused_size lib ''declare'' declared (zv_len z))\<rparr>, 0)
      else read_members (refused_size lib ''inflate past'' allowed (zv_len z)) allowed reachable 0 v)"

definition verify_staged :: "upload_lib \<Rightarrow> zip_view option \<Rightarrow> verified \<times> nat" where
  "verify_staged lib z =
     (case z of
        None \<Rightarrow> (unverified\<lparr>v_structural := Some ''OSError: cannot open the staged upload''\<rparr>, 0)
      | Some z \<Rightarrow>
          let v = unverified\<lparr>v_head := zv_head z\<rparr> in
          (case zv_archive z of
             Inl er \<Rightarrow> (v\<lparr>v_structural := Some (''BadZipFile: '' @ er)\<rparr>, 0)
           | Inr listed \<Rightarrow>
               (case raw_members listed of
                  Inl er \<Rightarrow> (v\<lparr>v_structural := Some (''BadZipFile: '' @ er)\<rparr>, 0)
                | Inr ms \<Rightarrow> verify_members lib z ms)))"

section \<open>The verdict on an archive\<close>

definition describe_damaged :: "string list \<Rightarrow> string" where
  "describe_damaged names =
     (let shown = comma_join (map py_repr (take 5 names)) in
      if length names = 1 then shown @ '' fails its CRC-32 check''
      else
        shown @ (if length names > 5 then '' and '' @ show_nat (length names - 5) @ '' more'' else []) @
        '' fail their CRC-32 checks'')"

definition describe :: "verified \<Rightarrow> string" where
  "describe v =
     (case v_refused v of
        Some r \<Rightarrow> r
      | None \<Rightarrow>
          (case v_structural v of
             Some s \<Rightarrow> ''not a readable zip ('' @ s @ '')''
           | None \<Rightarrow>
               if v_damaged v \<noteq> [] then describe_damaged (v_damaged v)
               else show_nat (v_members v) @ '' members verified''))"

text \<open>Damage seen per destination: path, signature and when, oldest first; instants in nanoseconds.\<close>

type_synonym damage_memory = "(string \<times> string \<times> nat) list"

definition damage_capacity :: nat where "damage_capacity = 256"
definition damage_ttl :: nat where "damage_ttl = 3600 * 1000000000"

fun take_first :: "string \<Rightarrow> damage_memory \<Rightarrow> (string \<times> nat) option \<times> damage_memory" where
  "take_first path [] = (None, [])"
| "take_first path ((p, sig, at) # seen) =
     (if p = path then (Some (sig, at), seen)
      else let (found, rest) = take_first path seen in (found, (p, sig, at) # rest))"

definition seen_before_at :: "string \<Rightarrow> string \<Rightarrow> nat \<Rightarrow> damage_memory \<Rightarrow> bool \<times> damage_memory" where
  "seen_before_at path signature now seen =
     (let (previous, seen) = take_first path seen;
          repeat = (case previous of None \<Rightarrow> False | Some (sig, at) \<Rightarrow> sig = signature \<and> now - at \<le> damage_ttl);
          seen = seen @ [(path, signature, now)]
      in (repeat, drop (length seen - damage_capacity) seen))"

definition forget_damage :: "string \<Rightarrow> damage_memory \<Rightarrow> damage_memory" where
  "forget_damage path seen = filter (\<lambda>(p, _, _). p \<noteq> path) seen"

definition path_text :: "fs_path \<Rightarrow> string" where
  "path_text p = concat (map (\<lambda>n. CHR ''/'' # n) p)"

definition damage_signature :: "verified \<Rightarrow> nat \<Rightarrow> string" where
  "damage_signature v sz =
     show_nat sz @ CHR 0x00 # (case v_structural v of None \<Rightarrow> [] | Some s \<Rightarrow> s) @
     CHR 0x00 # join_c CHR 0x00 (sort (v_damaged v))"

definition damaged_rejection :: "string \<Rightarrow> bool \<Rightarrow> rejection" where
  "damaged_rejection detail retry = rejection_new 422 ''archive-damaged'' detail retry"

definition judge_archive ::
  "verified \<Rightarrow> nat \<Rightarrow> string option \<Rightarrow> fs_path \<Rightarrow> nat \<Rightarrow> damage_memory \<Rightarrow> rejection option \<times> damage_memory" where
  "judge_archive v sz digest_verified dest now seen =
     (if verified_ok v then (None, seen)
      else
        case v_refused v of
          Some refused \<Rightarrow>
            (Some (rejection_new 422 ''archive-refused'' (''The archive was not accepted: '' @ refused @ ''.'') False), seen)
        | None \<Rightarrow>
            if v_structural v \<noteq> None \<and> v_head v \<noteq> [CHR ''P'', CHR ''K'', CHR 0x03, CHR 0x04] \<and>
               v_head v \<noteq> [CHR ''P'', CHR ''K'', CHR 0x05, CHR 0x06]
            then (Some (rejection_new 422 ''not-an-archive''
                    ''The upload is not a zip archive, so it cannot be a .cbz.'' False), seen)
            else
              case digest_verified of
                Some algo \<Rightarrow>
                  (Some (damaged_rejection
                    (''The archive arrived intact ('' @ algo @ '' matched) but is damaged: '' @ describe v @
                     ''. Your copy of it is damaged; re-import this volume.'') False), seen)
              | None \<Rightarrow>
                  let (repeat, seen) = seen_before_at (path_text dest) (damage_signature v sz) now seen in
                  if repeat
                  then (Some (damaged_rejection
                         (''The archive is damaged: '' @ describe v @
                          ''. The same damage arrived twice, so your copy of it is damaged; re-import this volume.'') False), seen)
                  else (Some (damaged_rejection
                         (''The archive is damaged: '' @ describe v @
                          ''. It may have been damaged on the way here; sending it again may work.'') True), seen))"

end
