(* ===== verification/Dav_Put.thy ===== *)
theory Dav_Put
  imports Dav_Upload Dav_Write
begin

text \<open>
  \<open>bunko-dav/src/methods/put.rs\<close> and the staging of \<open>upload.rs\<close>: a PUT body is written beside its
  destination, checked, and renamed over it. The body is the list of its frames; the operating
  system, the contents of files and the archives they are to the \<open>zip\<close> crate are parameters.
  An operation may be refused with a verdict (\<open>Inl\<close> of its result, \<open>PutError::Rejected\<close>) or fail
  with a protocol answer (\<open>PutError::Dav\<close>, the failure of the operation itself).
\<close>

record 's put_env =
  pe_lib :: upload_lib
  pe_zip :: "'s \<Rightarrow> fs_path \<Rightarrow> zip_view option"
  pe_bytes :: "'s \<Rightarrow> fs_path \<Rightarrow> string option"
  pe_stat_error :: "'s \<Rightarrow> fs_path \<Rightarrow> io_error"
  pe_link_len :: "'s \<Rightarrow> fs_path \<Rightarrow> nat"
  pe_suffix :: "nat \<Rightarrow> string"
  pe_now :: nat
  pe_follow :: "fs_path \<Rightarrow> string \<Rightarrow> string \<Rightarrow> (string \<times> nat) option"
  pe_etag :: "stat \<Rightarrow> string"
  pe_max_file :: nat
  pe_max_total :: nat

datatype frame = Data string | Trailers | Broken

type_synonym ('s, 'a) put_op = "('s, rejection + 'a) op"

definition reject :: "rejection \<Rightarrow> ('s, 'a) put_op" where
  "reject rej = ret (Inl rej)"

definition try_op :: "('s, 'a) put_op \<Rightarrow> ('a \<Rightarrow> ('s, 'b) put_op) \<Rightarrow> ('s, 'b) put_op" where
  "try_op m k = bind_op m (\<lambda>r. case r of Inl rej \<Rightarrow> reject rej | Inr x \<Rightarrow> k x)"

text \<open>One call of the writer: an error is a verdict.\<close>

definition staged_io :: "'s env \<Rightarrow> fs_call \<Rightarrow> string \<Rightarrow> ('s, unit) put_op" where
  "staged_io e c doing =
     bind_op (sys_op e c) (\<lambda>r. case r of None \<Rightarrow> ret (Inr ()) | Some er \<Rightarrow> reject (from_io er doing))"

section \<open>Limits of the reading history\<close>

record history_caps =
  cap_file :: nat
  cap_room :: nat
  cap_total :: nat

definition caps_check :: "history_caps \<Rightarrow> nat \<Rightarrow> rejection option" where
  "caps_check caps sz =
     (if sz > cap_file caps
      then Some (rejection_new 413 ''too-large''
             (''A reading-history file is limited to '' @ show_nat (cap_file caps) @ '' bytes.'') False)
      else if sz > cap_room caps
      then Some (rejection_new 507 ''quota-exceeded''
             (''This account'' @ CHR 0x27 # ''s reading history is limited to '' @ show_nat (cap_total caps) @ '' bytes.'') False)
      else None)"

fun sum_known :: "nat option list \<Rightarrow> nat option" where
  "sum_known [] = Some 0"
| "sum_known (x # xs) =
     (case x of None \<Rightarrow> None | Some n \<Rightarrow> map_option (\<lambda>m. n + m) (sum_known xs))"

text \<open>The bytes below a folder, links counted by their own length; the fuel bounds the depth.\<close>

fun walk_bytes :: "nat \<Rightarrow> disk \<Rightarrow> (fs_path \<Rightarrow> nat) \<Rightarrow> fs_path \<Rightarrow> nat option" where
  "walk_bytes 0 d link_len dir = None"
| "walk_bytes (Suc fuel) d link_len dir =
     (case dir_names d dir of
        None \<Rightarrow> Some 0
      | Some names \<Rightarrow>
          sum_known
            (map (\<lambda>n. let p = dir @ [n] in
                    case links d p of
                      NoMeta \<Rightarrow> Some 0
                    | Symlink _ \<Rightarrow> Some (link_len p)
                    | Present \<Rightarrow>
                        (case stat_of d p of
                           None \<Rightarrow> Some 0
                         | Some st \<Rightarrow> if is_dir st then walk_bytes fuel d link_len p else Some (size st)))
              names))"

definition history_bytes :: "nat \<Rightarrow> 's env \<Rightarrow> 's put_env \<Rightarrow> caller \<Rightarrow> 's \<Rightarrow> nat option" where
  "history_bytes fuel e pe c s =
     (case roots_user_base (the_roots e) c of
        None \<Rightarrow> Some 0
      | Some base \<Rightarrow> walk_bytes fuel (view e s) (pe_link_len pe s) (base @ [history_dir]))"

definition measured_caps :: "'s put_env \<Rightarrow> nat \<Rightarrow> nat \<Rightarrow> history_caps" where
  "measured_caps pe stored replaced =
     \<lparr>cap_file = pe_max_file pe, cap_room = pe_max_total pe - (stored - replaced), cap_total = pe_max_total pe\<rparr>"

definition history_caps_of ::
  "nat \<Rightarrow> 's env \<Rightarrow> 's put_env \<Rightarrow> dav_req \<Rightarrow> nat option \<Rightarrow> nat \<Rightarrow> ('s, history_caps) put_op" where
  "history_caps_of fuel e pe req expected replaced =
     look (\<lambda>s. case req_caller req of None \<Rightarrow> Some 0 | Some c \<Rightarrow> history_bytes fuel e pe c s) (\<lambda>known.
       case known of
         None \<Rightarrow> no_fuel
       | Some stored \<Rightarrow>
           let caps = measured_caps pe stored replaced in
           (case caps_check caps (case expected of Some n \<Rightarrow> n | None \<Rightarrow> 0) of
              Some rej \<Rightarrow> reject rej
            | None \<Rightarrow> ret (Inr caps)))"

section \<open>Staging\<close>

definition upload_temp :: "fs_path \<Rightarrow> string \<Rightarrow> fs_path" where
  "upload_temp dest suffix = butlast dest @ [''.'' @ path_name dest @ ''.upload-'' @ suffix @ ''.tmp'']"

text \<open>Up to 16 random names are tried; a name that is taken is skipped.\<close>

fun create_staging :: "'s env \<Rightarrow> fs_path \<Rightarrow> string list \<Rightarrow> ('s, fs_path) put_op" where
  "create_staging e dest [] =
     reject (rejection_new 500 ''server-error'' ''The server failed writing the upload: no staging name.'' True)"
| "create_staging e dest (suffix # suffixes) =
     (let temp = upload_temp dest suffix in
      bind_op (sys_op e (CreateNew temp)) (\<lambda>r.
        case r of
          None \<Rightarrow> ret (Inr temp)
        | Some er \<Rightarrow>
            if io_kind er = IoAlreadyExists then create_staging e dest suffixes
            else reject (from_io er ''writing the upload'')))"

definition staging_create :: "'s env \<Rightarrow> 's put_env \<Rightarrow> fs_path \<Rightarrow> ('s, fs_path) put_op" where
  "staging_create e pe dest =
     (case parent_dir dest of
        None \<Rightarrow> reject (rejection_new 500 ''server-error'' ''The server failed writing the upload: no parent directory.'' True)
      | Some dir \<Rightarrow>
          try_op (staged_io e (CreateDirAll dir) ''writing the upload'')
            (\<lambda>_. create_staging e dest (map (pe_suffix pe) [0..<16])))"

definition cut_short :: "nat option \<Rightarrow> nat \<Rightarrow> rejection" where
  "cut_short expected got =
     rejection_new 422 ''truncated''
       (case expected of
          Some m \<Rightarrow> ''Received '' @ show_nat got @ '' of '' @ show_nat m @ '' bytes; the upload was cut short.''
        | None \<Rightarrow> ''Received '' @ show_nat got @ '' bytes; the upload was cut short.'') True"

text \<open>The frames of the body, with all data so far: what the hasher and the byte count have seen.\<close>

fun receive :: "'s env \<Rightarrow> fs_path \<Rightarrow> nat option \<Rightarrow> history_caps option \<Rightarrow> frame list \<Rightarrow> string \<Rightarrow> ('s, string) put_op" where
  "receive e temp expected caps [] got = ret (Inr got)"
| "receive e temp expected caps (Trailers # fs) got = receive e temp expected caps fs got"
| "receive e temp expected caps (Broken # fs) got = reject (cut_short expected (length got))"
| "receive e temp expected caps (Data d # fs) got =
     try_op (staged_io e (WriteTo temp d) ''writing the upload'') (\<lambda>_.
       case Option.bind caps (\<lambda>c. caps_check c (length (got @ d))) of
         Some rej \<Rightarrow> reject rej
       | None \<Rightarrow> receive e temp expected caps fs (got @ d))"

record stored =
  st_verdict :: string
  st_size :: nat
  st_digest :: "string option"
  st_unchanged :: bool

definition sync_tolerated :: "io_error \<Rightarrow> bool" where
  "sync_tolerated er \<longleftrightarrow>
     io_os er \<in> {Some 22, Some 95, Some 30} \<or> io_kind er \<in> {IoUnsupported, IoInvalidInput, IoReadOnly}"

definition sync_staged :: "'s env \<Rightarrow> fs_path \<Rightarrow> ('s, unit) put_op" where
  "sync_staged e temp =
     try_op (staged_io e (FlushFile temp) ''saving the upload'') (\<lambda>_.
       bind_op (sys_op e (SyncFile temp)) (\<lambda>r.
         case r of
           None \<Rightarrow> ret (Inr ())
         | Some er \<Rightarrow> if sync_tolerated er then ret (Inr ()) else reject (from_io er ''saving the upload'')))"

definition staged_size :: "'s env \<Rightarrow> 's put_env \<Rightarrow> fs_path \<Rightarrow> ('s, nat) put_op" where
  "staged_size e pe temp =
     look (\<lambda>s. (stat_of (view e s) temp, pe_stat_error pe s temp)) (\<lambda>(st, er).
       case st of None \<Rightarrow> reject (from_io er ''checking the upload'') | Some st \<Rightarrow> ret (Inr (size st)))"

definition check_size :: "nat option \<Rightarrow> nat \<Rightarrow> rejection option" where
  "check_size expected sz =
     (case expected of
        None \<Rightarrow> None
      | Some n \<Rightarrow> if sz \<noteq> n then Some (cut_short (Some n) sz) else None)"

definition check_digest :: "upload_lib \<Rightarrow> (digest_algo \<times> string) option \<Rightarrow> string \<Rightarrow> rejection + string option" where
  "check_digest lib digest got =
     (case digest of
        None \<Rightarrow> Inr None
      | Some (algo, want) \<Rightarrow>
          if lib_sha lib algo got \<noteq> want
          then Inl (rejection_new 422 ''corrupted-in-transit''
                 (''The upload does not match its '' @ algo_name algo @
                  '' Content-Digest: it was damaged on the way here. Sending it again should work.'') True)
          else Inr (Some (algo_name algo)))"

text \<open>Judging an archive reads and changes the memory of damage.\<close>

definition check_archive ::
  "'s env \<Rightarrow> 's put_env \<Rightarrow> fs_path \<Rightarrow> fs_path \<Rightarrow> nat \<Rightarrow> string option \<Rightarrow> ('s, unit) put_op" where
  "check_archive e pe dest temp sz digest w =
     (let v = fst (verify_staged (pe_lib pe) (pe_zip pe (os_state w) temp));
          (rej, seen) = judge_archive v sz digest dest (pe_now pe) (damaged w);
          w = w\<lparr>damaged := seen\<rparr>
      in case rej of Some rej \<Rightarrow> reject rej w | None \<Rightarrow> ret (Inr ()) w)"

definition forget_damaged :: "fs_path \<Rightarrow> ('s, unit) op" where
  "forget_damaged dest w = ret () (w\<lparr>damaged := forget_damage (path_text dest) (damaged w)\<rparr>)"

definition same_bytes :: "'s env \<Rightarrow> 's put_env \<Rightarrow> fs_path \<Rightarrow> fs_path \<Rightarrow> 's \<Rightarrow> bool" where
  "same_bytes e pe a b s \<longleftrightarrow>
     is_file_at e a s \<and> is_file_at e b s \<and>
     map_option size (stat_of (view e s) a) = map_option size (stat_of (view e s) b) \<and>
     pe_bytes pe s a \<noteq> None \<and> pe_bytes pe s a = pe_bytes pe s b"

text \<open>Everything between the last byte and the rename.\<close>

definition check_staged ::
  "'s env \<Rightarrow> 's put_env \<Rightarrow> nat option \<Rightarrow> (digest_algo \<times> string) option \<Rightarrow> fs_path \<Rightarrow> fs_path \<Rightarrow> string \<Rightarrow>
   ('s, nat \<times> string option) put_op" where
  "check_staged e pe expected digest dest temp got =
     try_op (sync_staged e temp) (\<lambda>_.
     try_op (staged_size e pe temp) (\<lambda>sz.
       case check_size expected sz of
         Some rej \<Rightarrow> reject rej
       | None \<Rightarrow>
           (case check_digest (pe_lib pe) digest got of
              Inl rej \<Rightarrow> reject rej
            | Inr known \<Rightarrow>
                if is_cbz dest then try_op (check_archive e pe dest temp sz known) (\<lambda>_. ret (Inr (sz, known)))
                else ret (Inr (sz, known)))))"

definition commit ::
  "'s env \<Rightarrow> 's put_env \<Rightarrow> nat option \<Rightarrow> (digest_algo \<times> string) option \<Rightarrow> bool \<Rightarrow> fs_path \<Rightarrow> fs_path \<Rightarrow> string \<Rightarrow>
   ('s, stored) put_op" where
  "commit e pe expected digest keep dest temp got =
     try_op (check_staged e pe expected digest dest temp got) (\<lambda>(sz, known).
       let done' = (\<lambda>unchanged. \<lparr>st_verdict = (if is_cbz dest then ''verified'' else ''stored''),
                                 st_size = sz, st_digest = known, st_unchanged = unchanged\<rparr>)
       in
       look (\<lambda>s. keep \<and> same_bytes e pe temp dest s) (\<lambda>same.
         if same then ret (Inr (done' True))
         else
           try_op (staged_io e (Rename temp dest) ''moving the upload into place'') (\<lambda>_.
             bind_op (forget_damaged dest) (\<lambda>_. ret (Inr (done' False))))))"

text \<open>The staging file goes unless the commit renamed it (\<open>Drop for Staging\<close>).\<close>

definition drop_staging :: "'s env \<Rightarrow> fs_path \<Rightarrow> rejection + stored \<Rightarrow> ('s, stored) put_op" where
  "drop_staging e temp r =
     (if (case r of Inl _ \<Rightarrow> True | Inr st \<Rightarrow> st_unchanged st)
      then bind_op (io_ignored e (RemoveFile temp)) (\<lambda>_. ret r) else ret r)"

definition upload_body ::
  "'s env \<Rightarrow> 's put_env \<Rightarrow> nat option \<Rightarrow> (digest_algo \<times> string) option \<Rightarrow> history_caps option \<Rightarrow> bool \<Rightarrow>
   fs_path \<Rightarrow> frame list \<Rightarrow> ('s, stored) put_op" where
  "upload_body e pe expected digest caps keep dest body =
     try_op (staging_create e pe dest) (\<lambda>temp.
       bind_op
         (try_op (receive e temp expected caps body []) (commit e pe expected digest keep dest temp))
         (drop_staging e temp))"

section \<open>Whether a PUT is allowed\<close>

text \<open>A header that is there, readable or not: \<open>opaque\<close> names those whose value is no text.\<close>

definition has_header :: "string list \<Rightarrow> dav_req \<Rightarrow> string \<Rightarrow> bool" where
  "has_header opaque req name \<longleftrightarrow> req_headers req name \<noteq> None \<or> List.member opaque name"

definition history_of :: "string \<Rightarrow> history_shape option" where
  "history_of path = (case classify path of TProgress rel \<Rightarrow> history_shape_of_rel rel | _ \<Rightarrow> None)"

definition no_stat :: stat where
  "no_stat = \<lparr>size = 0, mtime_secs = 0, mtime_nanos = 0, ctime_secs = 0, is_dir = False\<rparr>"

definition put_existing ::
  "http_date \<Rightarrow> validators \<Rightarrow> (nat \<Rightarrow> nat) \<Rightarrow> dav_req \<Rightarrow> resource \<Rightarrow> lock_table \<Rightarrow>
   (dav_error + (rejection + fs_path)) \<times> lock_table" where
  "put_existing http_date validators clk req existing tbl =
     check_opt (eval_if http_date validators (clk 0) req existing tbl) (\<lambda>tbl.
     check_opt (check_dav_locks (clk 1) req (resource_key existing (req_user req)) False tbl) (\<lambda>tbl.
     (case res_phys existing of
        None \<Rightarrow> Inl (dav_error_status 405)
      | Some p \<Rightarrow> Inr (Inr p), tbl)))"

definition put_new ::
  "'s env \<Rightarrow> 's \<Rightarrow> (nat \<Rightarrow> nat) \<Rightarrow> string list \<Rightarrow> dav_req \<Rightarrow> resource \<Rightarrow> lock_table \<Rightarrow>
   (dav_error + (rejection + fs_path)) \<times> lock_table" where
  "put_new e s clk opaque req parent tbl =
     (if has_header opaque req ''if-match''
      then (Inl (dav_error_new 412 ''If-Match header condition failed''), tbl)
      else
        check_opt (check_dav_locks (clk 0) req (resource_key parent (req_user req)) False tbl) (\<lambda>tbl.
        case member_path (view e s) (the_roots e) parent (uri_name (req_path req)) (req_caller req) of
          None \<Rightarrow> (Inl (dav_error_new 403 ''Forbidden''), tbl)
        | Some (phys, kind) \<Rightarrow>
            let pseudo = RFile (normalize (req_path req)) phys no_stat kind in
            check_opt (check_dav_locks (clk 1) req (resource_key pseudo (req_user req)) False tbl)
              (\<lambda>tbl. (Inr (Inr phys), tbl))))"

definition put_gate ::
  "http_date \<Rightarrow> validators \<Rightarrow> 's env \<Rightarrow> 's \<Rightarrow> (nat \<Rightarrow> nat) \<Rightarrow> string list \<Rightarrow> dav_req \<Rightarrow> lock_table \<Rightarrow>
   (dav_error + (rejection + fs_path)) \<times> lock_table" where
  "put_gate http_date validators e s clk opaque req tbl =
     (let find_res = (\<lambda>p. lookup (view e s) (the_roots e) p (req_caller req)) in
      if has_header opaque req ''content-encoding''
      then (Inl (dav_error_new 501 ''Content-Encoding header is not supported.''), tbl)
      else if has_header opaque req ''content-range''
      then (Inl (dav_error_new 400 ''Content-Range header is not supported.''), tbl)
      else if history_of (req_path req) \<notin> {None, Some File}
      then (Inr (Inl (rejection_new 403 ''forbidden'' ''Not a reading-history path.'' False)), tbl)
      else if (case find_res (req_path req) of None \<Rightarrow> False | Some r \<Rightarrow> is_collection r)
      then (Inl (dav_error_new 405 ''Cannot PUT to a collection''), tbl)
      else
        case Option.bind (uri_parent (req_path req)) find_res of
          None \<Rightarrow> (Inl (dav_error_new 409 ''PUT parent must be a collection''), tbl)
        | Some parent \<Rightarrow>
            if \<not> is_collection parent
            then (Inl (dav_error_new 409 ''PUT parent must be a collection''), tbl)
            else
              (case find_res (req_path req) of
                 Some existing \<Rightarrow> put_existing http_date validators clk req existing tbl
               | None \<Rightarrow> put_new e s clk opaque req parent tbl))"

section \<open>After the commit\<close>

text \<open>The folder of an archive's path in the library, \<open>.\<close> for the library itself.\<close>

definition series_of :: "string \<Rightarrow> string" where
  "series_of rel = (case rsplit_once_c CHR ''/'' rel of Some (series, _) \<Rightarrow> series | None \<Rightarrow> ''.'')"

definition ask_follow_up :: "'s env \<Rightarrow> 's put_env \<Rightarrow> fs_path \<Rightarrow> ('s, (string \<times> nat) option) op" where
  "ask_follow_up e pe dest =
     (case rel_of e dest of
        None \<Rightarrow> ret None
      | Some rel \<Rightarrow>
          if \<not> is_cbz dest then ret None
          else
            let volume = py_stem (path_name dest) in
            bind_op (hook (AskFollowUp dest (series_of rel) volume))
              (\<lambda>_. ret (pe_follow pe dest (series_of rel) volume)))"

definition record_upload :: "'s env \<Rightarrow> dav_req \<Rightarrow> fs_path \<Rightarrow> bool \<Rightarrow> ('s, unit) op" where
  "record_upload e req dest existed =
     (case (rel_of e dest, req_user req) of
        (Some rel, Some actor) \<Rightarrow> hook (RecordUpload rel actor existed)
      | _ \<Rightarrow> ret ())"

definition bool_text :: "bool \<Rightarrow> string" where
  "bool_text b = (if b then ''true'' else ''false'')"

definition after_commit ::
  "'s env \<Rightarrow> 's put_env \<Rightarrow> dav_req \<Rightarrow> fs_path \<Rightarrow> bool \<Rightarrow> bool \<Rightarrow> ('s, (string \<times> nat) option) op" where
  "after_commit e pe req dest existed unchanged =
     (let target = file_audit_target e (req_path req) dest in
      if unchanged
      then bind_op (audit req ''edit'' target [(''existed_before'', ''true''), (''unchanged'', ''true'')])
             (\<lambda>_. ret None)
      else
        bind_op
          (block
            [record_upload e req dest existed,
             forget_ocr_records e (rel_of e dest) False,
             audit req (if existed then ''edit'' else ''upload'') target [(''existed_before'', bool_text existed)],
             note_eff (\<lambda>_. no_effects),
             note_arrived e dest,
             touch (req_path req) (Some dest),
             fire e])
          (\<lambda>_. if is_cbz dest \<and> rel_of e dest \<noteq> None then ask_follow_up e pe dest else ret None))"

definition is_ocr_sidecar :: "'s env \<Rightarrow> fs_path \<Rightarrow> bool" where
  "is_ocr_sidecar e p =
     (let name = lower_str e (path_name p) in ends_with name ''.mokuro'' \<or> ends_with name ''.mokuro.gz'')"

section \<open>The handler\<close>

datatype reply_body = NoBody | JsonBody string | StatusPage string | DavBody dav_error

record put_reply =
  rp_status :: nat
  rp_headers :: "(string \<times> string) list"
  rp_body :: reply_body

definition expected_size :: "dav_req \<Rightarrow> nat option" where
  "expected_size req = Option.bind (req_headers req ''content-length'') (\<lambda>v. parse_u64 (trim v))"

definition put_gives_verdict :: "string \<Rightarrow> bool" where
  "put_gives_verdict path \<longleftrightarrow>
     (starts_with path ''/mokuro-reader/'' \<or> starts_with path ''/inbox/'') \<and> \<not> dav_is_compiled_metadata_path path"

definition stored_reply ::
  "'s put_env \<Rightarrow> dav_req \<Rightarrow> bool \<Rightarrow> stored \<Rightarrow> stat option \<Rightarrow> (string \<times> nat) option \<Rightarrow> put_reply" where
  "stored_reply pe req existed st now_stat follow_up =
     \<lparr>rp_status = (if existed then 204 else 201),
      rp_headers =
        (case now_stat of None \<Rightarrow> [] | Some s \<Rightarrow> [(''etag'', CHR 0x22 # pe_etag pe s @ [CHR 0x22])]) @
        (if put_gives_verdict (req_path req)
         then [(''x-mokuro-upload'', st_verdict st), (''x-mokuro-size'', show_nat (st_size st))] @
              (case st_digest st of None \<Rightarrow> [] | Some algo \<Rightarrow> [(''x-mokuro-digest-verified'', algo)])
         else []) @
        (case follow_up of
           None \<Rightarrow> []
         | Some (manifest, after) \<Rightarrow> [(''x-mokuro-manifest'', manifest), (''x-mokuro-recheck-after'', show_nat after)]),
      rp_body = (if existed then NoBody else StatusPage [])\<rparr>"

text \<open>
  Under the write lock of the destination: measure, stage, publish, report. For a history file the
  code also waits for the account's turn among its history writers before it measures; a request
  that waits there has done nothing on the disk, so the wait is no step here.
\<close>

definition put_work ::
  "nat \<Rightarrow> 's env \<Rightarrow> 's put_env \<Rightarrow> dav_req \<Rightarrow> frame list \<Rightarrow> fs_path \<Rightarrow> ('s, put_reply) put_op" where
  "put_work fuel e pe req body dest =
     with_guard e [dest]
       (write_lock_conflict req (file_audit_target e (req_path req) dest) ''write'' None)
       (look (\<lambda>s. stat_of (view e s) dest) (\<lambda>earlier.
          let existed = (earlier \<noteq> None); expected = expected_size req;
              replaced = (case earlier of None \<Rightarrow> 0 | Some st \<Rightarrow> size st)
          in
          try_op
            (case history_of (req_path req) of
               None \<Rightarrow> ret (Inr None)
             | Some _ \<Rightarrow> try_op (history_caps_of fuel e pe req expected replaced) (\<lambda>c. ret (Inr (Some c))))
            (\<lambda>caps.
               try_op
                 (upload_body e pe expected
                    (parse_content_digest (pe_lib pe) (req_headers req ''content-digest''))
                    caps (existed \<and> is_ocr_sidecar e dest) dest body)
                 (\<lambda>st.
                    bind_op (after_commit e pe req dest existed (st_unchanged st)) (\<lambda>follow_up.
                      look (\<lambda>s. stat_of (view e s) dest) (\<lambda>now_stat.
                        ret (Inr (stored_reply pe req existed st now_stat follow_up))))))))"

definition put_inner ::
  "nat \<Rightarrow> http_date \<Rightarrow> validators \<Rightarrow> 's env \<Rightarrow> 's put_env \<Rightarrow> 's \<Rightarrow> (nat \<Rightarrow> nat) \<Rightarrow> string list \<Rightarrow> dav_req \<Rightarrow>
   frame list \<Rightarrow> ('s, put_reply) put_op" where
  "put_inner fuel http_date validators e pe s clk opaque req body w =
     after_gate (put_gate http_date validators e s clk opaque req (lock_tbl (tables w)))
       (\<lambda>r. case r of Inl rej \<Rightarrow> reject rej | Inr dest \<Rightarrow> put_work fuel e pe req body dest) w"

text \<open>What the client is told: a verdict in JSON below the library, else a page.\<close>

definition valid_status :: "nat \<Rightarrow> nat" where
  "valid_status n = (if 100 \<le> n \<and> n < 1000 then n else 500)"

definition verdict_reply :: "rejection \<Rightarrow> put_reply" where
  "verdict_reply rej =
     \<lparr>rp_status = valid_status (rej_status rej), rp_headers = [],
      rp_body = JsonBody (failure_json (rej_reason rej) (rej_detail rej) (rej_retry rej))\<rparr>"

definition put_answer :: "string \<Rightarrow> dav_error + (rejection + put_reply) \<Rightarrow> put_reply" where
  "put_answer path r =
     (case r of
        Inr (Inr reply) \<Rightarrow> reply
      | Inr (Inl rej) \<Rightarrow>
          if put_gives_verdict path then verdict_reply rej
          else \<lparr>rp_status = valid_status (rej_status rej), rp_headers = [], rp_body = StatusPage (rej_detail rej)\<rparr>
      | Inl er \<Rightarrow>
          if put_gives_verdict path then verdict_reply (failure_for_status (status er))
          else \<lparr>rp_status = status er, rp_headers = [], rp_body = DavBody er\<rparr>)"

definition mark_cbz :: "'s env \<Rightarrow> string \<Rightarrow> put_reply \<Rightarrow> put_reply" where
  "mark_cbz e path reply =
     (if ends_with (lower_str e path) ''.cbz''
      then reply\<lparr>rp_headers := rp_headers reply @ [(''x-mokuro-put'', ''verified'')]\<rparr> else reply)"

definition put_method ::
  "nat \<Rightarrow> http_date \<Rightarrow> validators \<Rightarrow> 's env \<Rightarrow> 's put_env \<Rightarrow> 's \<Rightarrow> (nat \<Rightarrow> nat) \<Rightarrow> string list \<Rightarrow> dav_req \<Rightarrow>
   frame list \<Rightarrow> 's world \<Rightarrow> (put_reply \<times> 's world) option" where
  "put_method fuel http_date validators e pe s clk opaque req body w =
     map_option (\<lambda>(r, w'). (mark_cbz e (req_path req) (put_answer (req_path req) r), w'))
       (put_inner fuel http_date validators e pe s clk opaque req body w)"

text \<open>A refusal of another layer, turned into the same verdict.\<close>

definition refusal_verdict :: "'s env \<Rightarrow> string \<Rightarrow> put_reply \<Rightarrow> put_reply" where
  "refusal_verdict e path reply =
     mark_cbz e path
       (if put_gives_verdict path \<and> \<not> (200 \<le> rp_status reply \<and> rp_status reply < 300)
        then (verdict_reply (failure_for_status (rp_status reply)))\<lparr>rp_headers := rp_headers reply\<rparr>
        else reply)"

end
