(* ===== verification/Dav_Put_Facts.thy ===== *)
theory Dav_Put_Facts
  imports Dav_Put Dav_Write_Safe
begin

text \<open>
  What holds of PUT: where its calls go, that only a complete and checked body replaces the
  destination, what becomes of the staging file, and the limits of the reading history.
\<close>

section \<open>Runs\<close>

lemma try_op_cases:
  assumes "try_op m k w = Some (r, w')"
  obtains (fails) er where "m w = Some (Inl er, w')" "r = Inl er"
    | (refused) rej where "m w = Some (Inr (Inl rej), w')" "r = Inr (Inl rej)"
    | (goes_on) x w1 where "m w = Some (Inr (Inr x), w1)" "k x w1 = Some (r, w')"
proof -
  have "bind_op m (\<lambda>r. case r of Inl rej \<Rightarrow> reject rej | Inr x \<Rightarrow> k x) w = Some (r, w')"
    using assms by (simp add: try_op_def)
  then show thesis
  proof (cases rule: bind_op_cases)
    case (fails er)
    then show ?thesis by (rule that(1))
  next
    case (goes_on x w1)
    then show ?thesis by (cases x) (auto simp: reject_def ret_def intro: that(2,3))
  qed
qed

lemma staged_io_cases:
  assumes "staged_io e f doing w = Some (r, w')"
  obtains (fine) s where "sys e f (os_state w) = (Inr (), s)" "r = Inr (Inr ())"
      "w' = w\<lparr>os_state := s, trace := trace w @ [Sys f None]\<rparr>"
    | (broken) er s where "sys e f (os_state w) = (Inl er, s)" "r = Inr (Inl (from_io er doing))"
      "w' = w\<lparr>os_state := s, trace := trace w @ [Sys f (Some er)]\<rparr>"
  using assms
  by (cases "sys e f (os_state w)"; cases "fst (sys e f (os_state w))")
    (auto simp: staged_io_def sys_op_def bind_op_def reject_def ret_def Let_def)

lemma create_staging_result:
  "create_staging e dest sfs w = Some (Inr (Inr temp), w') \<Longrightarrow> \<exists>x\<in>set sfs. temp = upload_temp dest x"
proof (induction sfs arbitrary: w)
  case (Cons x sfs)
  from Cons.prems show ?case unfolding create_staging.simps Let_def
  proof (cases rule: bind_op_cases)
    case (goes_on r w1)
    then show ?thesis
      by (cases r) (auto simp: reject_def ret_def split: if_splits dest: Cons.IH)
  qed simp
qed (simp add: reject_def ret_def)

lemma staging_create_result:
  assumes "staging_create e pe dest w = Some (Inr (Inr temp), w')"
  shows "\<exists>x. temp = upload_temp dest x"
  using assms unfolding staging_create_def
  by (auto simp: reject_def ret_def split: option.splits elim!: try_op_cases dest: create_staging_result)

lemma upload_staging_name: "is_staging_name (''.'' @ x @ ''.upload-'' @ y @ ''.tmp'')"
  unfolding is_staging_name_def contains_str_def
  using split_once_str_occurs [of "''.upload-''" "''.'' @ x" "y @ ''.tmp''"]
  by (auto simp: starts_with_iff ends_with_iff)

lemma upload_temp_beside: "inside roots c q \<Longrightarrow> q \<noteq> [] \<Longrightarrow> staging_beside roots c (upload_temp q x)"
  using upload_staging_name by (auto simp: staging_beside_def upload_temp_def simp del: append.simps)

section \<open>Where the calls go\<close>

context write_observer
begin

lemma keeps_reject [intro!, simp]: "keeps_inv (reject rej)"
  by (simp add: reject_def)

lemma keeps_try [intro!]: "keeps_inv m \<Longrightarrow> (\<And>x. keeps_inv (k x)) \<Longrightarrow> keeps_inv (try_op m k)"
  unfolding keeps_inv_def by (metis try_op_cases)

lemma keeps_staged_io [intro!]: "call_ok (the_roots e) c f \<Longrightarrow> keeps_inv (staged_io e f doing)"
  unfolding staged_io_def by (auto split: option.splits)

lemma keeps_caps [intro!]: "keeps_inv (history_caps_of fuel e pe req expected replaced)"
  unfolding history_caps_of_def Let_def by (auto split: option.splits)

lemma keeps_create_staging:
  "(\<And>suffix. staging_beside (the_roots e) c (upload_temp dest suffix)) \<Longrightarrow> keeps_inv (create_staging e dest sfs)"
  by (induction sfs) (auto simp: Let_def split: option.splits)

lemma keeps_receive:
  "staging_beside (the_roots e) c temp \<Longrightarrow> keeps_inv (receive e temp expected caps body got)"
proof (induction body arbitrary: got)
  case (Cons f body)
  then show ?case by (cases f) (auto split: option.splits)
qed simp

lemma keeps_check_archive [intro!]: "keeps_inv (check_archive e pe dest temp sz digest)"
  unfolding keeps_inv_def check_archive_def Let_def
  by (auto split: prod.splits option.splits simp: reject_def ret_def obs_damage)

lemma keeps_forget_damaged [intro!]: "keeps_inv (forget_damaged dest)"
  unfolding keeps_inv_def forget_damaged_def by (auto simp: ret_def obs_damage)

lemma keeps_commit:
  assumes "staging_beside (the_roots e) c temp" "inside (the_roots e) c dest"
  shows "keeps_inv (commit e pe expected digest keep dest temp got)"
  unfolding commit_def check_staged_def sync_staged_def staged_size_def Let_def
  using assms by (auto split: option.splits prod.splits sum.splits)

lemma keeps_try_from:
  "keeps_inv m \<Longrightarrow> (\<And>w x w'. m w = Some (Inr (Inr x), w') \<Longrightarrow> keeps_inv (k x)) \<Longrightarrow> keeps_inv (try_op m k)"
  unfolding keeps_inv_def by (metis try_op_cases)

lemma keeps_staging_create:
  assumes "inside (the_roots e) c dest" "dest \<noteq> []"
  shows "keeps_inv (staging_create e pe dest)"
proof -
  have "call_ok (the_roots e) c (CreateDirAll (butlast dest))" using assms by auto
  with assms upload_temp_beside [OF assms] show ?thesis
    unfolding staging_create_def parent_dir_def
    by (auto intro!: keeps_try keeps_create_staging keeps_staged_io)
qed

lemma keeps_upload_body:
  assumes "inside (the_roots e) c dest" "dest \<noteq> []"
  shows "keeps_inv (upload_body e pe expected digest caps keep dest body)"
  unfolding upload_body_def
proof (rule keeps_try_from [OF keeps_staging_create [OF assms]])
  fix w temp w' assume "staging_create e pe dest w = Some (Inr (Inr temp), w')"
  then obtain x where "temp = upload_temp dest x" using staging_create_result by metis
  then have t: "staging_beside (the_roots e) c temp" using upload_temp_beside [OF assms] by simp
  then show "keeps_inv (bind_op (try_op (receive e temp expected caps body [])
      (commit e pe expected digest keep dest temp)) (drop_staging e temp))"
    using assms by (auto simp: drop_staging_def intro!: keeps_try keeps_receive keeps_commit)
qed

lemma keeps_after_commit [intro!]: "keeps_inv (after_commit e pe req dest existed unchanged)"
  unfolding after_commit_def Let_def ask_follow_up_def record_upload_def
  by (auto split: option.splits)

lemma keeps_put_work:
  assumes "inside (the_roots e) c dest" "dest \<noteq> []"
  shows "keeps_inv (put_work fuel e pe req body dest)"
  unfolding put_work_def Let_def
  by (auto split: option.splits intro!: keeps_upload_body [OF assms])

lemma keeps_put_inner:
  assumes "\<And>dest tbl. fst (put_gate http_date validators e s clk opaque req tbl) = Inr (Inr dest) \<Longrightarrow>
      inside (the_roots e) c dest \<and> dest \<noteq> []"
  shows "keeps_inv (put_inner fuel http_date validators e pe s clk opaque req body)"
proof -
  have "keeps_inv (after_gate (put_gate http_date validators e s clk opaque req tbl)
      (\<lambda>r. case r of Inl rej \<Rightarrow> reject rej | Inr dest \<Rightarrow> put_work fuel e pe req body dest))" for tbl
    by (rule keeps_after_gate) (auto split: sum.split simp: keeps_put_work assms)
  then show ?thesis unfolding keeps_inv_def put_inner_def by blast
qed

end

section \<open>The destination\<close>

lemma put_gate_dest:
  assumes "fst (put_gate http_date validators e s clk opaque req tbl) = Inr (Inr dest)"
  shows "(\<exists>r. lookup (view e s) (the_roots e) (req_path req) (req_caller req) = Some r \<and>
             \<not> is_collection r \<and> res_phys r = Some dest) \<or>
    (\<exists>parent kind. Option.bind (uri_parent (req_path req))
           (\<lambda>p. lookup (view e s) (the_roots e) p (req_caller req)) = Some parent \<and>
         member_path (view e s) (the_roots e) parent (uri_name (req_path req)) (req_caller req) = Some (dest, kind))"
  using assms
  by (auto simp: put_gate_def put_existing_def put_new_def Let_def bind_eq_Some_conv
      split: if_splits option.splits prod.splits dest!: check_opt_ok)

lemma put_gate_inside:
  assumes "fst (put_gate http_date validators e s clk opaque req tbl) = Inr (Inr dest)"
    and "\<And>st. stat_of (view e s) (library_root (the_roots e)) = Some st \<Longrightarrow> is_dir st"
    and "\<And>p parent kind. uri_parent (req_path req) = Some p \<Longrightarrow>
           lookup (view e s) (the_roots e) p (req_caller req) = Some parent \<Longrightarrow>
           member_path (view e s) (the_roots e) parent (uri_name (req_path req)) (req_caller req) \<noteq>
             Some (library_root (the_roots e), kind)"
  shows "inside (the_roots e) (req_caller req) dest"
  using put_gate_dest [OF assms(1)]
proof (elim disjE exE conjE)
  fix r assume r: "lookup (view e s) (the_roots e) (req_path req) (req_caller req) = Some r"
    "\<not> is_collection r" "res_phys r = Some dest"
  from lookup_placed_any [OF r(1,3)] have "inside (the_roots e) (req_caller req) dest \<or> dest = library_root (the_roots e)"
    by (simp add: placed_any_def)
  moreover have "dest \<noteq> library_root (the_roots e)"
    using r assms(2)
    by (auto simp: lookup_def Let_def make_resource_def split: dav_target.splits option.splits if_splits)
  ultimately show ?thesis by blast
next
  fix parent kind
  assume "Option.bind (uri_parent (req_path req)) (\<lambda>p. lookup (view e s) (the_roots e) p (req_caller req)) = Some parent"
    and m: "member_path (view e s) (the_roots e) parent (uri_name (req_path req)) (req_caller req) = Some (dest, kind)"
  then have "dest \<noteq> library_root (the_roots e)" using assms(3) by (auto simp: bind_eq_Some_conv)
  with member_path_placed_any [OF m] show ?thesis by (simp add: placed_any_def)
qed

section \<open>Runs of the staging\<close>

text \<open>What is done to the staging file before the rename, and to it only.\<close>

definition staging_act :: "fs_path \<Rightarrow> fs_path \<Rightarrow> act \<Rightarrow> bool" where
  "staging_act dest temp x \<longleftrightarrow>
     (\<exists>d r. x = Sys (WriteTo temp d) r) \<or> (\<exists>r. x = Sys (FlushFile temp) r) \<or> (\<exists>r. x = Sys (SyncFile temp) r) \<or>
     (\<exists>er. x = Sys (Rename temp dest) (Some er))"

definition attempt_act :: "fs_path \<Rightarrow> act \<Rightarrow> bool" where
  "attempt_act dest x \<longleftrightarrow> (\<exists>s er. x = Sys (CreateNew (upload_temp dest s)) (Some er))"

fun frame_data :: "frame list \<Rightarrow> string list" where
  "frame_data [] = []"
| "frame_data (Data d # fs) = d # frame_data fs"
| "frame_data (f # fs) = frame_data fs"

abbreviation write_acts :: "fs_path \<Rightarrow> string list \<Rightarrow> act list" where
  "write_acts temp ds \<equiv> map (\<lambda>d. Sys (WriteTo temp d) None) ds"

lemma sys_op_run:
  "sys_op e f w = Some (r, w') \<Longrightarrow>
     \<exists>err s. r = Inr err \<and> w' = w\<lparr>os_state := s, trace := trace w @ [Sys f err]\<rparr> \<and>
       (err = None \<longleftrightarrow> fst (sys e f (os_state w)) = Inr ()) \<and> s = snd (sys e f (os_state w))"
  by (cases "fst (sys e f (os_state w))") (auto simp: sys_op_def Let_def split: prod.splits sum.splits)

lemma create_staging_run:
  "create_staging e dest sfs w = Some (r, w') \<Longrightarrow>
     (\<exists>acts. trace w' = trace w @ acts \<and> list_all (attempt_act dest) acts \<and> (\<exists>rej. r = Inr (Inl rej))) \<or>
     (\<exists>acts x temp. trace w' = trace w @ acts @ [Sys (CreateNew temp) None] \<and> list_all (attempt_act dest) acts \<and>
        temp = upload_temp dest x \<and> r = Inr (Inr temp))"
proof (induction sfs arbitrary: w)
  case Nil
  then show ?case by (auto simp: reject_def ret_def)
next
  case (Cons x sfs)
  from Cons.prems show ?case unfolding create_staging.simps Let_def
  proof (cases rule: bind_op_cases)
    case (goes_on err w1)
    from sys_op_run [OF goes_on(1)] have w1: "trace w1 = trace w @ [Sys (CreateNew (upload_temp dest x)) err]"
      by auto
    show ?thesis
    proof (cases err)
      case None
      with goes_on w1 show ?thesis
        by (intro disjI2 exI [of _ "[]"] exI [of _ x] exI [of _ "upload_temp dest x"]) (auto simp: ret_def)
    next
      case (Some er)
      then have a: "attempt_act dest (Sys (CreateNew (upload_temp dest x)) err)" by (auto simp: attempt_act_def)
      show ?thesis
      proof (cases "io_kind er = IoAlreadyExists")
        case True
        with goes_on Some have "create_staging e dest sfs w1 = Some (r, w')" by simp
        from Cons.IH [OF this] show ?thesis
        proof (elim disjE exE conjE)
          fix acts rej assume "trace w' = trace w1 @ acts" "list_all (attempt_act dest) acts" "r = Inr (Inl rej)"
          with w1 a show ?thesis
            by (intro disjI1 exI [of _ "Sys (CreateNew (upload_temp dest x)) err # acts"]) auto
        next
          fix acts y temp
          assume "trace w' = trace w1 @ acts @ [Sys (CreateNew temp) None]" "list_all (attempt_act dest) acts"
            "temp = upload_temp dest y" "r = Inr (Inr temp)"
          with w1 a show ?thesis
            by (intro disjI2 exI [of _ "Sys (CreateNew (upload_temp dest x)) err # acts"] exI [of _ y] exI [of _ temp]) auto
        qed
      next
        case False
        with goes_on Some w1 a show ?thesis by (auto simp: reject_def ret_def)
      qed
    qed
  next
    case (fails er)
    then show ?thesis by (auto dest: sys_op_run)
  qed
qed

lemma staged_io_trace:
  assumes "staged_io e f doing w = Some (r, w')"
  shows "\<exists>err. trace w' = trace w @ [Sys f err] \<and>
     (err = None \<and> r = Inr (Inr ()) \<or> err \<noteq> None \<and> (\<exists>rej. r = Inr (Inl rej)))"
  using assms by (cases rule: staged_io_cases) auto

lemma staging_create_run:
  assumes "staging_create e pe dest w = Some (r, w')"
  shows "(\<exists>acts. trace w' = trace w @ acts \<and> (\<exists>rej. r = Inr (Inl rej)) \<and>
            list_all (\<lambda>x. attempt_act dest x \<or> (\<exists>er. x = Sys (CreateDirAll (butlast dest)) er)) acts) \<or>
     (\<exists>acts x temp. trace w' = trace w @ Sys (CreateDirAll (butlast dest)) None # acts @ [Sys (CreateNew temp) None] \<and>
        list_all (attempt_act dest) acts \<and> temp = upload_temp dest x \<and> r = Inr (Inr temp))"
proof (cases "dest = []")
  case True
  with assms show ?thesis by (auto simp: staging_create_def parent_dir_def reject_def ret_def)
next
  case False
  let ?mk = "staged_io e (CreateDirAll (butlast dest)) ''writing the upload''"
  from False assms have "try_op ?mk (\<lambda>_. create_staging e dest (map (pe_suffix pe) [0..<16])) w = Some (r, w')"
    by (simp add: staging_create_def parent_dir_def)
  then show ?thesis
  proof (cases rule: try_op_cases)
    case (fails er)
    then show ?thesis by (auto dest: staged_io_trace)
  next
    case (refused rej)
    then show ?thesis using staged_io_trace [OF refused(1)] by auto
  next
    case (goes_on x w1)
    from staged_io_trace [OF goes_on(1)] have w1: "trace w1 = trace w @ [Sys (CreateDirAll (butlast dest)) None]" by auto
    have "list_all (attempt_act dest) acts \<Longrightarrow>
        list_all (\<lambda>x. attempt_act dest x \<or> (\<exists>er. x = Sys (CreateDirAll (butlast dest)) er)) acts" for acts
      by (auto simp: list_all_iff)
    with create_staging_run [OF goes_on(2)] w1 show ?thesis by fastforce
  qed
qed

lemma receive_run:
  "receive e temp expected caps body got w = Some (r, w') \<Longrightarrow>
     (\<exists>acts rej. trace w' = trace w @ acts \<and> list_all (staging_act dest temp) acts \<and> r = Inr (Inl rej)) \<or>
     (trace w' = trace w @ write_acts temp (frame_data body) \<and> Broken \<notin> set body \<and>
      r = Inr (Inr (got @ concat (frame_data body))) \<and>
      (\<forall>c. caps = Some c \<longrightarrow> caps_check c (length got) = None \<longrightarrow>
         caps_check c (length (got @ concat (frame_data body))) = None))"
proof (induction body arbitrary: got w)
  case Nil
  then show ?case by (auto simp: ret_def)
next
  case (Cons f body)
  show ?case
  proof (cases f)
    case (Data d)
    with Cons.prems have "try_op (staged_io e (WriteTo temp d) ''writing the upload'') (\<lambda>_.
       case Option.bind caps (\<lambda>c. caps_check c (length (got @ d))) of
         Some rej \<Rightarrow> reject rej
       | None \<Rightarrow> receive e temp expected caps body (got @ d)) w = Some (r, w')" by simp
    then show ?thesis
    proof (cases rule: try_op_cases)
      case (fails er)
      then show ?thesis by (auto dest: staged_io_trace)
    next
      case (refused rej)
      then show ?thesis using staged_io_trace [OF refused(1)] by (auto simp: staging_act_def)
    next
      case (goes_on x w1)
      from staged_io_trace [OF goes_on(1)] have w1: "trace w1 = trace w @ [Sys (WriteTo temp d) None]" by auto
      have a: "staging_act dest temp (Sys (WriteTo temp d) None)" by (auto simp: staging_act_def)
      show ?thesis
      proof (cases "Option.bind caps (\<lambda>c. caps_check c (length (got @ d)))")
        case None
        with goes_on have "receive e temp expected caps body (got @ d) w1 = Some (r, w')" by simp
        from Cons.IH [OF this] w1 a Data None show ?thesis by (cases caps) auto
      next
        case (Some rej)
        with goes_on w1 a show ?thesis by (auto simp: reject_def ret_def)
      qed
    qed
  next
    case Trailers
    with Cons show ?thesis by auto
  next
    case Broken
    with Cons.prems show ?thesis by (auto simp: reject_def ret_def)
  qed
qed

text \<open>What the checks of \<open>commit\<close> establish of the staged file, in the state they look at.\<close>

definition passes ::
  "'s env \<Rightarrow> 's put_env \<Rightarrow> nat option \<Rightarrow> (digest_algo \<times> string) option \<Rightarrow> fs_path \<Rightarrow> fs_path \<Rightarrow> string \<Rightarrow> 's \<Rightarrow>
   nat \<Rightarrow> bool" where
  "passes e pe expected digest dest temp got s sz \<longleftrightarrow>
     map_option size (stat_of (view e s) temp) = Some sz \<and>
     (\<forall>n. expected = Some n \<longrightarrow> sz = n) \<and>
     (\<forall>algo want. digest = Some (algo, want) \<longrightarrow> lib_sha (pe_lib pe) algo got = want) \<and>
     (is_cbz dest \<longrightarrow> verified_ok (fst (verify_staged (pe_lib pe) (pe_zip pe s temp))))"

lemma judge_archive_accepts: "fst (judge_archive v sz digest dest now seen) = None \<longleftrightarrow> verified_ok v"
  by (auto simp: judge_archive_def Let_def split: option.splits prod.splits)

lemma check_archive_run:
  assumes "check_archive e pe dest temp sz digest w = Some (r, w')"
  shows "trace w' = trace w \<and> os_state w' = os_state w \<and>
     ((\<exists>rej. r = Inr (Inl rej)) \<or>
      r = Inr (Inr ()) \<and> verified_ok (fst (verify_staged (pe_lib pe) (pe_zip pe (os_state w) temp))))"
  using assms judge_archive_accepts
    [of "fst (verify_staged (pe_lib pe) (pe_zip pe (os_state w) temp))" sz digest dest "pe_now pe" "damaged w"]
  by (auto simp: check_archive_def Let_def reject_def ret_def split: prod.splits option.splits)

lemma sync_staged_run:
  assumes "sync_staged e temp w = Some (r, w')"
  shows "(\<exists>acts rej. trace w' = trace w @ acts \<and> list_all (staging_act dest temp) acts \<and> r = Inr (Inl rej)) \<or>
     (\<exists>err. trace w' = trace w @ [Sys (FlushFile temp) None, Sys (SyncFile temp) err] \<and> r = Inr (Inr ()))"
  using assms unfolding sync_staged_def
proof (cases rule: try_op_cases)
  case (fails er)
  then show ?thesis by (auto dest: staged_io_trace)
next
  case (refused rej)
  then show ?thesis using staged_io_trace [OF refused(1)] by (auto simp: staging_act_def)
next
  case (goes_on x w1)
  from staged_io_trace [OF goes_on(1)] have w1: "trace w1 = trace w @ [Sys (FlushFile temp) None]" by auto
  from goes_on(2) show ?thesis
  proof (cases rule: bind_op_cases)
    case (fails er)
    then show ?thesis by (auto dest: sys_op_run)
  next
    case goes_on': (goes_on err w2)
    from sys_op_run [OF goes_on'(1)] w1
    have w2: "trace w2 = trace w @ [Sys (FlushFile temp) None, Sys (SyncFile temp) err]" by auto
    have "list_all (staging_act dest temp) [Sys (FlushFile temp) None, Sys (SyncFile temp) err]"
      by (simp add: staging_act_def)
    with goes_on' w2 show ?thesis by (auto simp: reject_def ret_def split: option.splits if_splits)
  qed
qed

lemma check_staged_run:
  assumes "check_staged e pe expected digest dest temp got w = Some (r, w')"
  shows "(\<exists>acts rej. trace w' = trace w @ acts \<and> list_all (staging_act dest temp) acts \<and> r = Inr (Inl rej)) \<or>
     (\<exists>err sz known. trace w' = trace w @ [Sys (FlushFile temp) None, Sys (SyncFile temp) err] \<and>
        r = Inr (Inr (sz, known)) \<and> passes e pe expected digest dest temp got (os_state w') sz)"
    (is "?refused w' r \<or> ?fine w' r")
  using assms unfolding check_staged_def
proof (cases rule: try_op_cases)
  case (fails er)
  then show ?thesis using sync_staged_run [OF fails(1)] by auto
next
  case (refused rej)
  then show ?thesis using sync_staged_run [OF refused(1)] by auto
next
  case (goes_on x w1)
  then obtain err where w1: "trace w1 = trace w @ [Sys (FlushFile temp) None, Sys (SyncFile temp) err]"
    using sync_staged_run [OF goes_on(1)] by auto
  have acts: "list_all (staging_act dest temp) [Sys (FlushFile temp) None, Sys (SyncFile temp) err]"
    by (simp add: staging_act_def)
  have refusing: "?refused w' r" if "trace w' = trace w1" "r = Inr (Inl rej)" for rej
    using that w1 acts by auto
  from goes_on(2) show ?thesis
  proof (cases rule: try_op_cases)
    case (fails er)
    then show ?thesis by (auto simp: staged_size_def look_def reject_def ret_def split: option.splits)
  next
    case (refused rej)
    then have "trace w' = trace w1"
      by (auto simp: staged_size_def look_def reject_def ret_def split: option.splits)
    with refusing refused show ?thesis by blast
  next
    case sized: (goes_on sz w2)
    then have w2: "w2 = w1" and sz: "map_option size (stat_of (view e (os_state w1)) temp) = Some sz"
      by (auto simp: staged_size_def look_def reject_def ret_def split: option.splits)
    show ?thesis
    proof (cases "check_size expected sz = None \<and> (\<exists>known. check_digest (pe_lib pe) digest got = Inr known)")
      case False
      with sized(2) w2 have "trace w' = trace w1 \<and> (\<exists>rej. r = Inr (Inl rej))"
        by (auto simp: reject_def ret_def split: option.splits sum.splits)
      with refusing show ?thesis by blast
    next
      case True
      then obtain known where known: "check_size expected sz = None" "check_digest (pe_lib pe) digest got = Inr known"
        by blast
      then have size_ok: "\<forall>n. expected = Some n \<longrightarrow> sz = n"
        and digest_ok: "\<forall>algo want. digest = Some (algo, want) \<longrightarrow> lib_sha (pe_lib pe) algo got = want"
        by (auto simp: check_size_def check_digest_def split: option.splits if_splits)
      show ?thesis
      proof (cases "is_cbz dest")
        case False
        with sized(2) w2 w1 known sz size_ok digest_ok show ?thesis by (auto simp: ret_def passes_def)
      next
        case cbz: True
        with sized(2) w2 known have "try_op (check_archive e pe dest temp sz known) (\<lambda>_. ret (Inr (sz, known))) w1 = Some (r, w')"
          by simp
        then show ?thesis
        proof (cases rule: try_op_cases)
          case (fails er)
          then show ?thesis by (auto dest: check_archive_run)
        next
          case (refused rej)
          then show ?thesis using refusing check_archive_run by metis
        next
          case (goes_on y w3)
          from check_archive_run [OF goes_on(1)] have w3: "trace w3 = trace w1" "os_state w3 = os_state w1"
            and ok: "verified_ok (fst (verify_staged (pe_lib pe) (pe_zip pe (os_state w1) temp)))"
            by auto
          have "r = Inr (Inr (sz, known))" "w' = w3" using goes_on(2) by (auto simp: ret_def)
          with w3 ok w1 sz size_ok digest_ok show ?thesis by (auto simp: passes_def)
        qed
      qed
    qed
  qed
qed

text \<open>The published file: the acts of a commit that succeeds, with what was checked before.\<close>

lemma commit_run:
  assumes "commit e pe expected digest keep dest temp got w = Some (r, w')"
  shows "(\<exists>acts rej. trace w' = trace w @ acts \<and> list_all (staging_act dest temp) acts \<and> r = Inr (Inl rej)) \<or>
     (\<exists>acts st. trace w' = trace w @ acts \<and> list_all (staging_act dest temp) acts \<and> r = Inr (Inr st) \<and>
        st_unchanged st \<and> keep \<and> (\<exists>s. same_bytes e pe temp dest s)) \<or>
     (\<exists>err st s. r = Inr (Inr st) \<and> \<not> st_unchanged st \<and>
        trace w' = trace w @ [Sys (FlushFile temp) None, Sys (SyncFile temp) err, Sys (Rename temp dest) None] \<and>
        passes e pe expected digest dest temp got s (st_size st) \<and> sys e (Rename temp dest) s = (Inr (), os_state w'))"
  using assms unfolding commit_def
proof (cases rule: try_op_cases)
  case (fails er)
  then show ?thesis by (auto dest: check_staged_run)
next
  case (refused rej)
  then show ?thesis using check_staged_run [OF refused(1)] by auto
next
  case (goes_on x w1)
  obtain sz known where x: "x = (sz, known)" by (cases x)
  with check_staged_run [OF goes_on(1)] obtain err where
    w1: "trace w1 = trace w @ [Sys (FlushFile temp) None, Sys (SyncFile temp) err]" and
    ok: "passes e pe expected digest dest temp got (os_state w1) sz" by auto
  have acts: "list_all (staging_act dest temp) [Sys (FlushFile temp) None, Sys (SyncFile temp) err]"
    by (simp add: staging_act_def)
  show ?thesis
  proof (cases "keep \<and> same_bytes e pe temp dest (os_state w1)")
    case True
    with goes_on(2) x have "w' = w1" and st: "\<exists>st. r = Inr (Inr st) \<and> st_unchanged st"
      by (auto simp: look_def ret_def Let_def)
    with w1 acts True show ?thesis by (elim exE, intro disjI2 disjI1) auto
  next
    case False
    let ?tail = "\<lambda>_. bind_op (forget_damaged dest) (\<lambda>_. ret (Inr \<lparr>st_verdict = (if is_cbz dest then ''verified'' else ''stored''),
        st_size = sz, st_digest = known, st_unchanged = False\<rparr>))"
    from goes_on(2) x False
    have "try_op (staged_io e (Rename temp dest) ''moving the upload into place'') ?tail w1 = Some (r, w')"
      by (auto simp: look_def Let_def)
    then show ?thesis
    proof (cases rule: try_op_cases)
      case (fails er)
      then show ?thesis by (auto dest: staged_io_trace)
    next
      case (refused rej)
      then obtain er where "trace w' = trace w1 @ [Sys (Rename temp dest) (Some er)]"
        using staged_io_trace [OF refused(1)] by auto
      with w1 acts refused show ?thesis by (intro disjI1) (auto simp: staging_act_def)
    next
      case renamed: (goes_on y w2)
      from renamed(1) obtain s where "sys e (Rename temp dest) (os_state w1) = (Inr (), s)"
          "w2 = w1\<lparr>os_state := s, trace := trace w1 @ [Sys (Rename temp dest) None]\<rparr>"
        by (cases rule: staged_io_cases) auto
      moreover from renamed(2) obtain st where "r = Inr (Inr st)" "\<not> st_unchanged st" "st_size st = sz"
          "trace w' = trace w2" "os_state w' = os_state w2"
        by (auto simp: bind_op_def forget_damaged_def ret_def)
      ultimately show ?thesis using w1 ok by (intro disjI2) auto
    qed
  qed
qed

lemma drop_staging_run:
  assumes "drop_staging e temp r0 w = Some (r, w')"
  shows "r = Inr r0 \<and> (if (case r0 of Inl _ \<Rightarrow> True | Inr st \<Rightarrow> st_unchanged st)
     then (\<exists>err. trace w' = trace w @ [Sys (RemoveFile temp) err]) else w' = w)"
proof (cases "case r0 of Inl _ \<Rightarrow> True | Inr st \<Rightarrow> st_unchanged st")
  case True
  with assms have "bind_op (io_ignored e (RemoveFile temp)) (\<lambda>_. ret r0) w = Some (r, w')"
    by (simp add: drop_staging_def)
  then have "r = Inr r0 \<and> (\<exists>err. trace w' = trace w @ [Sys (RemoveFile temp) err])"
    by (auto simp: io_ignored_def ret_def elim!: bind_op_cases dest!: sys_op_run)
  with True show ?thesis by simp
next
  case False
  with assms have "ret r0 w = Some (r, w')" by (simp add: drop_staging_def)
  with False show ?thesis by (auto simp: ret_def)
qed

text \<open>
  The two things a PUT can do to the disk: leave it as it was, its staging file removed, or
  write the body into a new staging file and rename that over the destination.
\<close>

definition cleaned_up :: "fs_path \<Rightarrow> act list \<Rightarrow> bool" where
  "cleaned_up dest acts \<longleftrightarrow>
     list_all (\<lambda>x. attempt_act dest x \<or> (\<exists>er. x = Sys (CreateDirAll (butlast dest)) er)) acts \<or>
     (\<exists>tried x temp mid err. acts = Sys (CreateDirAll (butlast dest)) None # tried @ Sys (CreateNew temp) None # mid @
         [Sys (RemoveFile temp) err] \<and>
        list_all (attempt_act dest) tried \<and> list_all (staging_act dest temp) mid \<and> temp = upload_temp dest x)"

definition published ::
  "'s env \<Rightarrow> 's put_env \<Rightarrow> nat option \<Rightarrow> (digest_algo \<times> string) option \<Rightarrow> fs_path \<Rightarrow> frame list \<Rightarrow> act list \<Rightarrow>
   nat \<Rightarrow> 's \<Rightarrow> bool" where
  "published e pe expected digest dest body acts sz s' \<longleftrightarrow>
     Broken \<notin> set body \<and>
     (\<exists>tried x temp err s.
        acts = Sys (CreateDirAll (butlast dest)) None # tried @ Sys (CreateNew temp) None #
          write_acts temp (frame_data body) @
          [Sys (FlushFile temp) None, Sys (SyncFile temp) err, Sys (Rename temp dest) None] \<and>
        list_all (attempt_act dest) tried \<and> temp = upload_temp dest x \<and>
        passes e pe expected digest dest temp (concat (frame_data body)) s sz \<and>
        sys e (Rename temp dest) s = (Inr (), s'))"

lemma upload_body_run:
  assumes "upload_body e pe expected digest caps keep dest body w = Some (r, w')"
  shows "\<exists>acts. trace w' = trace w @ acts \<and>
     ((\<exists>rej. r = Inr (Inl rej)) \<and> cleaned_up dest acts \<or>
      (\<exists>st. r = Inr (Inr st) \<and> st_unchanged st \<and> keep \<and> cleaned_up dest acts) \<or>
      (\<exists>st. r = Inr (Inr st) \<and> \<not> st_unchanged st \<and>
         published e pe expected digest dest body acts (st_size st) (os_state w') \<and>
         (\<forall>c. caps = Some c \<longrightarrow> caps_check c 0 = None \<longrightarrow> caps_check c (length (concat (frame_data body))) = None)))"
    (is "\<exists>acts. trace w' = trace w @ acts \<and> ?what acts")
  using assms unfolding upload_body_def
proof (cases rule: try_op_cases)
  case (fails er)
  then show ?thesis by (auto dest: staging_create_run)
next
  case (refused rej)
  with staging_create_run [OF refused(1)] show ?thesis by (auto simp: cleaned_up_def)
next
  case (goes_on temp w1)
  from staging_create_run [OF goes_on(1)] obtain tried x where
    w1: "trace w1 = trace w @ Sys (CreateDirAll (butlast dest)) None # tried @ [Sys (CreateNew temp) None]" and
    tried: "list_all (attempt_act dest) tried" and temp: "temp = upload_temp dest x"
    by auto
  have clean: "\<exists>acts. trace w' = trace w @ acts \<and> cleaned_up dest acts"
    if "trace w2 = trace w1 @ mid" "list_all (staging_act dest temp) mid" "trace w' = trace w2 @ [Sys (RemoveFile temp) err]"
    for mid w2 err
    using that w1 tried temp unfolding cleaned_up_def
    by (intro exI [of _ "Sys (CreateDirAll (butlast dest)) None # tried @ Sys (CreateNew temp) None # mid @
        [Sys (RemoveFile temp) err]"] conjI) auto
  let ?m = "try_op (receive e temp expected caps body []) (commit e pe expected digest keep dest temp)"
  from goes_on(2) show ?thesis
  proof (cases rule: bind_op_cases)
    case (fails er)
    from fails(1) show ?thesis
    proof (cases rule: try_op_cases)
      case (fails er')
      then show ?thesis by (auto dest: receive_run [where dest = dest])
    next
      case goes_on: (goes_on got w2)
      from goes_on(2) show ?thesis by (auto dest: commit_run)
    qed simp
  next
    case ran: (goes_on r0 w2)
    from drop_staging_run [OF ran(2)] have r: "r = Inr r0" by simp
    have undone: "\<exists>acts. trace w' = trace w @ acts \<and> ?what acts"
      if "trace w2 = trace w1 @ mid" "list_all (staging_act dest temp) mid"
        "(\<exists>rej. r0 = Inl rej) \<or> (\<exists>st. r0 = Inr st \<and> st_unchanged st \<and> keep)" for mid
    proof -
      from that(3) drop_staging_run [OF ran(2)] obtain err where "trace w' = trace w2 @ [Sys (RemoveFile temp) err]"
        by auto
      from clean [OF that(1,2) this] that(3) r show ?thesis by auto
    qed
    from ran(1) show ?thesis
    proof (cases rule: try_op_cases)
      case (refused rej)
      with receive_run [OF refused(1), where dest = dest] undone show ?thesis by auto
    next
      case got: (goes_on data w3)
      from receive_run [OF got(1), where dest = dest] have
        w3: "trace w3 = trace w1 @ write_acts temp (frame_data body)" and whole: "Broken \<notin> set body" and
        data: "data = concat (frame_data body)" and
        caps: "\<forall>c. caps = Some c \<longrightarrow> caps_check c 0 = None \<longrightarrow> caps_check c (length (concat (frame_data body))) = None"
        by auto
      have writes: "list_all (staging_act dest temp) (write_acts temp (frame_data body))"
        by (auto simp: list_all_iff staging_act_def)
      from commit_run [OF got(2)] show ?thesis
      proof (elim disjE exE conjE)
        fix acts rej assume "trace w2 = trace w3 @ acts" "list_all (staging_act dest temp) acts" "Inr r0 = Inr (Inl rej)"
        then show ?thesis using w3 writes by (intro undone [of "write_acts temp (frame_data body) @ acts"]) auto
      next
        fix acts st s
        assume "trace w2 = trace w3 @ acts" "list_all (staging_act dest temp) acts" "Inr r0 = Inr (Inr st)"
          "st_unchanged st" "keep"
        then show ?thesis using w3 writes by (intro undone [of "write_acts temp (frame_data body) @ acts"]) auto
      next
        fix err st s
        assume st: "Inr r0 = Inr (Inr st)" "\<not> st_unchanged st"
          and t: "trace w2 = trace w3 @ [Sys (FlushFile temp) None, Sys (SyncFile temp) err, Sys (Rename temp dest) None]"
          and p: "passes e pe expected digest dest temp data s (st_size st)" "sys e (Rename temp dest) s = (Inr (), os_state w2)"
        from drop_staging_run [OF ran(2)] st have "w' = w2" by auto
        with st t p w3 w1 whole data caps tried temp r show ?thesis
          by (intro exI [of _ "Sys (CreateDirAll (butlast dest)) None # tried @ Sys (CreateNew temp) None #
              write_acts temp (frame_data body) @
              [Sys (FlushFile temp) None, Sys (SyncFile temp) err, Sys (Rename temp dest) None]"])
            (auto simp: published_def)
      qed
    qed simp
  qed
qed

section \<open>Operations that leave the disk alone\<close>

definition no_call :: "act \<Rightarrow> bool" where
  "no_call x = (case x of Sys _ _ \<Rightarrow> False | _ \<Rightarrow> True)"

definition silent :: "('s, 'a) op \<Rightarrow> bool" where
  "silent m \<longleftrightarrow>
     (\<forall>w r w'. m w = Some (r, w') \<longrightarrow>
        os_state w' = os_state w \<and> (\<exists>acts. trace w' = trace w @ acts \<and> list_all no_call acts))"

lemma silentD:
  "silent m \<Longrightarrow> m w = Some (r, w') \<Longrightarrow>
     os_state w' = os_state w \<and> (\<exists>acts. trace w' = trace w @ acts \<and> list_all no_call acts)"
  by (auto simp: silent_def)

lemma silent_basic [simp, intro!]:
  "silent (ret x)" "silent (fail er)" "silent no_fuel" "silent (hook h)" "silent (note_eff f)"
  "silent (invalidate_paths ps)" "silent (reject rej)" "silent (forget_damaged dest)"
  by (auto simp: silent_def ret_def fail_def no_fuel_def hook_def note_eff_def invalidate_paths_def reject_def
      forget_damaged_def no_call_def)

lemma silent_bind [intro!]:
  assumes "silent m" "\<And>x. silent (k x)" shows "silent (bind_op m k)"
  unfolding silent_def
proof (intro allI impI)
  fix w r w' assume "bind_op m k w = Some (r, w')"
  then show "os_state w' = os_state w \<and> (\<exists>acts. trace w' = trace w @ acts \<and> list_all no_call acts)"
  proof (cases rule: bind_op_cases)
    case (fails er)
    then show ?thesis using silentD [OF assms(1)] by blast
  next
    case (goes_on x w1)
    from silentD [OF assms(1) goes_on(1)] silentD [OF assms(2) goes_on(2)] show ?thesis by fastforce
  qed
qed

lemma silent_try [intro!]: "silent m \<Longrightarrow> (\<And>x. silent (k x)) \<Longrightarrow> silent (try_op m k)"
  unfolding try_op_def by (rule silent_bind) (auto split: sum.split)

lemma silent_block [intro!]: "silent (block [])" "silent m \<Longrightarrow> silent (block ms) \<Longrightarrow> silent (block (m # ms))"
  by auto

lemma silent_when [intro!]: "(b \<Longrightarrow> silent m) \<Longrightarrow> silent (when_op b m)"
  by (auto simp: when_op_def)

lemma silent_look [intro!]: "(\<And>s. silent (k (f s))) \<Longrightarrow> silent (look f k)"
  by (auto simp: silent_def look_def)

lemma silent_for_each [intro!]: "(\<And>x. silent (f x)) \<Longrightarrow> silent (for_each f xs)"
  unfolding for_each_def by (induction xs) auto

lemma silent_fire [intro!]: "silent (fire e)"
proof -
  have "silent (block
        [when_op (a \<noteq> []) (invalidate_paths a), when_op (b \<noteq> []) (hook (ArchivesRemoved b)),
         for_each (\<lambda>p. hook (ArchiveArrived p)) d, when_op (f \<noteq> []) (hook (LibraryChanged f))])" for a b d f
    by blast
  then show ?thesis unfolding silent_def fire_def Let_def by blast
qed

lemma silent_bookkeeping [intro!]:
  "silent (audit req action target details)"
  "silent (write_lock_conflict req target operation destination)"
  "silent (forget_ocr_records e rel archive_too)"
  "silent (note_removed e p)" "silent (note_arrived e p)" "silent (touch v ph)"
  by (auto simp: audit_def write_lock_conflict_def forget_ocr_records_def note_removed_def note_arrived_def
      touch_def Let_def split: option.splits)

lemma silent_after_commit [intro!]: "silent (after_commit e pe req dest existed unchanged)"
  unfolding after_commit_def Let_def ask_follow_up_def record_upload_def
  by (auto split: option.splits)

lemma silent_caps [intro!]: "silent (history_caps_of fuel e pe req expected replaced)"
  unfolding history_caps_of_def Let_def by (auto split: option.splits)

text \<open>Operations that cannot be refused.\<close>

definition succeeds :: "('s, 'a) op \<Rightarrow> bool" where
  "succeeds m \<longleftrightarrow> (\<forall>w r w'. m w = Some (r, w') \<longrightarrow> (\<exists>x. r = Inr x))"

lemma succeeds_basic [simp, intro!]:
  "succeeds (ret x)" "succeeds (hook h)" "succeeds (note_eff f)" "succeeds (invalidate_paths ps)"
  by (auto simp: succeeds_def ret_def hook_def note_eff_def invalidate_paths_def)

lemma succeeds_bind [intro!]: "succeeds m \<Longrightarrow> (\<And>x. succeeds (k x)) \<Longrightarrow> succeeds (bind_op m k)"
  unfolding succeeds_def by (metis bind_op_cases Inl_Inr_False)

lemma succeeds_block [intro!]: "succeeds (block [])" "succeeds m \<Longrightarrow> succeeds (block ms) \<Longrightarrow> succeeds (block (m # ms))"
  by auto

lemma succeeds_when [intro!]: "(b \<Longrightarrow> succeeds m) \<Longrightarrow> succeeds (when_op b m)"
  by (auto simp: when_op_def)

lemma succeeds_for_each [intro!]: "(\<And>x. succeeds (f x)) \<Longrightarrow> succeeds (for_each f xs)"
  unfolding for_each_def by (induction xs) auto

lemma succeeds_fire [intro!]: "succeeds (fire e)"
proof -
  have "succeeds (block
        [when_op (a \<noteq> []) (invalidate_paths a), when_op (b \<noteq> []) (hook (ArchivesRemoved b)),
         for_each (\<lambda>p. hook (ArchiveArrived p)) d, when_op (f \<noteq> []) (hook (LibraryChanged f))])" for a b d f
    by blast
  then show ?thesis unfolding succeeds_def fire_def Let_def by blast
qed

lemma succeeds_bookkeeping [intro!]:
  "succeeds (audit req action target details)" "succeeds (forget_ocr_records e rel archive_too)"
  "succeeds (note_arrived e p)" "succeeds (touch v ph)"
  by (auto simp: audit_def forget_ocr_records_def note_arrived_def touch_def Let_def split: option.splits)

lemma succeeds_after_commit: "succeeds (after_commit e pe req dest existed unchanged)"
  unfolding after_commit_def Let_def ask_follow_up_def record_upload_def
  by (auto split: option.splits)

section \<open>Runs of the handler\<close>

lemma put_report_run:
  assumes "bind_op (after_commit e pe req dest existed unchanged) (\<lambda>follow_up.
      look f (\<lambda>st. ret (Inr (g st follow_up)))) w = Some (r, w')"
  shows "(\<exists>reply. r = Inr (Inr reply)) \<and> os_state w' = os_state w \<and>
     (\<exists>told. trace w' = trace w @ told \<and> list_all no_call told)"
  using assms
proof (cases rule: bind_op_cases)
  case (fails er)
  then show ?thesis using succeeds_after_commit unfolding succeeds_def by blast
next
  case (goes_on x w1)
  then have "w' = w1" "\<exists>reply. r = Inr (Inr reply)" by (auto simp: look_def ret_def)
  with silentD [OF silent_after_commit goes_on(1)] show ?thesis by auto
qed

text \<open>The limits of the reading history, as measured in the state \<open>s\<close>.\<close>

definition replaced_at :: "'s env \<Rightarrow> fs_path \<Rightarrow> 's \<Rightarrow> nat" where
  "replaced_at e dest s = (case stat_of (view e s) dest of None \<Rightarrow> 0 | Some st \<Rightarrow> size st)"

definition within_quota :: "nat \<Rightarrow> 's env \<Rightarrow> 's put_env \<Rightarrow> dav_req \<Rightarrow> fs_path \<Rightarrow> 's \<Rightarrow> nat \<Rightarrow> bool" where
  "within_quota fuel e pe req dest s n \<longleftrightarrow>
     (history_of (req_path req) \<noteq> None \<longrightarrow>
       (\<exists>stored. (case req_caller req of None \<Rightarrow> Some 0 | Some c \<Rightarrow> history_bytes fuel e pe c s) = Some stored \<and>
          n \<le> pe_max_file pe \<and> n \<le> pe_max_total pe - (stored - replaced_at e dest s)))"

lemma caps_check_accepts: "caps_check c n = None \<longleftrightarrow> n \<le> cap_file c \<and> n \<le> cap_room c"
  by (auto simp: caps_check_def)

lemma history_caps_run:
  assumes "history_caps_of fuel e pe req expected replaced w = Some (Inr (Inr c), w')"
  shows "w' = w \<and> (\<exists>stored. (case req_caller req of None \<Rightarrow> Some 0 | Some c \<Rightarrow> history_bytes fuel e pe c (os_state w)) =
      Some stored \<and> c = measured_caps pe stored replaced)"
  using assms by (auto simp: history_caps_of_def look_def reject_def ret_def no_fuel_def Let_def split: option.splits)

lemma put_work_run:
  assumes "put_work fuel e pe req body dest w = Some (r, w')"
  shows "\<exists>staged told. trace w' = trace w @ staged @ told \<and> list_all no_call told \<and>
     (cleaned_up dest staged \<or>
      (\<exists>reply sz. r = Inr (Inr reply) \<and>
         published e pe (expected_size req)
           (parse_content_digest (pe_lib pe) (req_headers req ''content-digest'')) dest body staged sz (os_state w') \<and>
         within_quota fuel e pe req dest (os_state w) (length (concat (frame_data body)))))"
    (is "?P w'")
proof -
  have quiet: "?P w'" if quiet_acts: "\<exists>acts. trace w' = trace w @ acts \<and> list_all no_call acts"
  proof -
    from quiet_acts obtain acts where "trace w' = trace w @ acts \<and> list_all no_call acts" by blast
    then show ?thesis by (intro exI [of _ "[]"] exI [of _ acts]) (simp add: cleaned_up_def)
  qed
  show ?thesis
  proof (cases "try_lock_all (lower_str e) (held e (os_state w)) [dest]")
    case None
    with assms have "write_lock_conflict req (file_audit_target e (req_path req) dest) ''write'' None w = Some (r, w')"
      by (simp add: put_work_def with_guard_def look_def)
    then show ?thesis using silentD quiet silent_bookkeeping(2) by metis
  next
    case (Some g)
    define existed where "existed = (stat_of (view e (os_state w)) dest \<noteq> None)"
    let ?digest = "parse_content_digest (pe_lib pe) (req_headers req ''content-digest'')"
    let ?caps = "case history_of (req_path req) of None \<Rightarrow> ret (Inr None)
      | Some _ \<Rightarrow> try_op (history_caps_of fuel e pe req (expected_size req) (replaced_at e dest (os_state w))) (\<lambda>c. ret (Inr (Some c)))"
    let ?report = "\<lambda>st. bind_op (after_commit e pe req dest existed (st_unchanged st)) (\<lambda>follow_up.
       look (\<lambda>s. stat_of (view e s) dest) (\<lambda>now_stat. ret (Inr (stored_reply pe req existed st now_stat follow_up))))"
    from assms Some have run: "try_op ?caps (\<lambda>caps. try_op
         (upload_body e pe (expected_size req) ?digest caps (existed \<and> is_ocr_sidecar e dest) dest body) ?report) w =
       Some (r, w')"
      unfolding existed_def replaced_at_def by (simp add: put_work_def with_guard_def look_def Let_def)
    have caps: "silent ?caps" by (auto split: option.split)
    from run show ?thesis
    proof (cases rule: try_op_cases)
      case (fails er)
      then show ?thesis using silentD [OF caps] quiet by blast
    next
      case (refused rej)
      then show ?thesis using silentD [OF caps] quiet by blast
    next
      case measured: (goes_on c w1)
      have w1: "w1 = w" and quota: "\<forall>cp. c = Some cp \<longrightarrow> caps_check cp 0 = None \<longrightarrow>
          caps_check cp (length (concat (frame_data body))) = None \<Longrightarrow>
          within_quota fuel e pe req dest (os_state w) (length (concat (frame_data body)))"
        using measured(1)
        by (auto simp: ret_def within_quota_def caps_check_accepts measured_caps_def
            split: option.splits elim!: try_op_cases dest!: history_caps_run)
      from measured(2) show ?thesis
      proof (cases rule: try_op_cases)
        case (fails er)
        then show ?thesis using upload_body_run [OF fails(1)] by auto
      next
        case (refused rej)
        with upload_body_run [OF refused(1)] w1 obtain staged where "trace w' = trace w @ staged" "cleaned_up dest staged"
          by auto
        then show ?thesis by (intro exI [of _ staged] exI [of _ "[]"]) simp
      next
        case done': (goes_on st w2)
        from put_report_run [OF done'(2)] obtain told reply where
          told: "trace w' = trace w2 @ told" "list_all no_call told" "r = Inr (Inr reply)" "os_state w' = os_state w2"
          by blast
        from upload_body_run [OF done'(1)] obtain staged where "trace w2 = trace w1 @ staged" and
          "cleaned_up dest staged \<or>
           published e pe (expected_size req) ?digest dest body staged (st_size st) (os_state w2) \<and>
           within_quota fuel e pe req dest (os_state w) (length (concat (frame_data body)))"
          using quota by auto
        with told w1 show ?thesis by (intro exI [of _ staged] exI [of _ told]) auto
      qed
    qed
  qed
qed

lemma put_inner_run:
  assumes "put_inner fuel http_date validators e pe s clk opaque req body w = Some (r, w')"
  shows "(trace w' = trace w \<and> (\<forall>reply. r \<noteq> Inr (Inr reply))) \<or>
     (\<exists>dest staged told.
        fst (put_gate http_date validators e s clk opaque req (lock_tbl (tables w))) = Inr (Inr dest) \<and>
        trace w' = trace w @ staged @ told \<and> list_all no_call told \<and>
        (cleaned_up dest staged \<or>
         (\<exists>reply sz. r = Inr (Inr reply) \<and>
            published e pe (expected_size req)
              (parse_content_digest (pe_lib pe) (req_headers req ''content-digest'')) dest body staged sz (os_state w') \<and>
            within_quota fuel e pe req dest (os_state w) (length (concat (frame_data body))))))"
proof -
  let ?g = "put_gate http_date validators e s clk opaque req (lock_tbl (tables w))"
  let ?w = "w\<lparr>tables := (tables w)\<lparr>lock_tbl := snd ?g\<rparr>, eff := no_effects\<rparr>"
  consider (failed) er where "fst ?g = Inl er" | (refused) rej where "fst ?g = Inr (Inl rej)"
    | (open_for) dest where "fst ?g = Inr (Inr dest)" by (metis sum.exhaust)
  then show ?thesis
  proof cases
    case (open_for dest)
    with assms have "put_work fuel e pe req body dest ?w = Some (r, w')"
      by (simp add: put_inner_def after_gate_def Let_def)
    from put_work_run [OF this] open_for show ?thesis by auto
  qed (use assms in \<open>auto simp: put_inner_def after_gate_def Let_def reject_def ret_def\<close>)
qed

lemma cleaned_up_no_rename: "cleaned_up dest staged \<Longrightarrow> Sys (Rename a b) None \<notin> set staged"
  by (auto simp: cleaned_up_def list_all_iff attempt_act_def staging_act_def)

lemma no_call_sys: "list_all no_call told \<Longrightarrow> Sys f er \<notin> set told"
  by (auto simp: list_all_iff no_call_def split: act.splits)

lemma cleaned_up_removes:
  assumes "cleaned_up dest staged" and "Sys (CreateNew t) None \<in> set staged"
  shows "\<exists>early err. staged = early @ [Sys (RemoveFile t) err]"
  using assms unfolding cleaned_up_def
proof (elim disjE exE conjE)
  fix tried x temp mid err
  assume staged: "staged = Sys (CreateDirAll (butlast dest)) None # tried @ Sys (CreateNew temp) None # mid @ [Sys (RemoveFile temp) err]"
    and "list_all (attempt_act dest) tried" "list_all (staging_act dest temp) mid"
  with assms(2) have "t = temp" by (auto simp: list_all_iff attempt_act_def staging_act_def)
  with staged show ?thesis
    by (intro exI [of _ "Sys (CreateDirAll (butlast dest)) None # tried @ Sys (CreateNew temp) None # mid"] exI [of _ err]) simp
qed (auto simp: list_all_iff attempt_act_def)

section \<open>An example\<close>

text \<open>An upload of a side file of one byte.\<close>

definition mem_put_env :: "mem put_env" where
  "mem_put_env =
     \<lparr>pe_lib = \<lparr>lib_b64 = Some, lib_sha = (\<lambda>_ x. x), lib_gib = show_nat, lib_mib = show_nat\<rparr>,
      pe_zip = (\<lambda>_ _. None), pe_bytes = (\<lambda>_ _. None), pe_stat_error = (\<lambda>_ _. io_missing),
      pe_link_len = (\<lambda>_ _. 0), pe_suffix = show_nat, pe_now = 0, pe_follow = (\<lambda>_ _ _. None), pe_etag = (\<lambda>_. ''e''),
      pe_max_file = 9, pe_max_total = 9\<rparr>"

definition put_cover :: dav_req where
  "put_cover = mem_req ''PUT'' ''/mokuro-reader/S/N.webp'' []"

definition mem_put :: "frame list \<Rightarrow> mem world \<Rightarrow> ((dav_error + (rejection + put_reply)) \<times> mem world) option" where
  "mem_put body = put_inner 5 no_dates plain_validators (mem_env []) mem_put_env mem_sample (\<lambda>i. i) [] put_cover body"

definition mem_staged :: fs_path where
  "mem_staged = mem_lib [''S'', ''.N.webp.upload-0.tmp'']"

text \<open>The calls of a run, and whether it was answered with success.\<close>

definition put_calls :: "((dav_error + (rejection + put_reply)) \<times> mem world) option \<Rightarrow> (bool \<times> act list) option" where
  "put_calls r = map_option (\<lambda>(a, w). (case a of Inr (Inr _) \<Rightarrow> True | _ \<Rightarrow> False, filter (\<lambda>x. \<not> no_call x) (trace w))) r"

lemma put_calls_run:
  "put_calls run = Some (b, acts) \<Longrightarrow> \<exists>a w'. run = Some (a, w') \<and> acts = filter (\<lambda>x. \<not> no_call x) (trace w') \<and>
     (b \<longleftrightarrow> (\<exists>reply. a = Inr (Inr reply)))"
  by (cases run) (auto simp: put_calls_def split: sum.splits)

lemma put_calls_member:
  assumes "put_calls run = Some (b, acts)" and "x \<in> set acts"
  obtains a w' where "run = Some (a, w')" "x \<in> set (trace w')" "b \<longleftrightarrow> (\<exists>reply. a = Inr (Inr reply))"
proof -
  from put_calls_run [OF assms(1)] obtain a w' where "run = Some (a, w')" "acts = filter (\<lambda>x. \<not> no_call x) (trace w')"
    "b \<longleftrightarrow> (\<exists>reply. a = Inr (Inr reply))" by blast
  with assms(2) show thesis by (intro that [of a w']) auto
qed

lemma mem_put_stored:
  "put_calls (mem_put [Data ''x''] (mem_world mem_sample [] [])) =
     Some (True, [Sys (CreateDirAll (mem_lib [''S''])) None, Sys (CreateNew mem_staged) None, Sys (WriteTo mem_staged ''x'') None,
       Sys (FlushFile mem_staged) None, Sys (SyncFile mem_staged) None, Sys (Rename mem_staged (mem_lib [''S'', ''N.webp''])) None])"
  by code_simp

lemma mem_put_short:
  "put_calls (mem_put [Data ''x'', Broken] (mem_world mem_sample [] [])) =
     Some (False, [Sys (CreateDirAll (mem_lib [''S''])) None, Sys (CreateNew mem_staged) None, Sys (WriteTo mem_staged ''x'') None,
       Sys (RemoveFile mem_staged) None])"
  by code_simp

section \<open>Properties\<close>

text \<open>
  C1: a PUT that replaces anything stored the whole body: the one rename it makes brings a new
  staging file beside the destination, into which exactly the data of the body were written in
  order, over the destination that was allowed; the body was not broken off, the file had the
  announced length, its digest was the announced one, an archive passed the check of its
  members, a history file was within the limits measured before, and the answer is success.
\<close>

theorem put_stores_whole_bodies:
  assumes "put_inner fuel http_date validators e pe s clk opaque req body w = Some (r, w')"
    and "trace w' = trace w @ acts" and "Sys (Rename a b) None \<in> set acts"
  shows "\<exists>staged told sz reply. acts = staged @ told \<and> list_all no_call told \<and> r = Inr (Inr reply) \<and>
     fst (put_gate http_date validators e s clk opaque req (lock_tbl (tables w))) = Inr (Inr b) \<and>
     published e pe (expected_size req)
       (parse_content_digest (pe_lib pe) (req_headers req ''content-digest'')) b body staged sz (os_state w') \<and>
     within_quota fuel e pe req b (os_state w) (length (concat (frame_data body)))"
  using put_inner_run [OF assms(1)]
proof (elim disjE exE conjE)
  fix dest staged told reply sz
  assume g: "fst (put_gate http_date validators e s clk opaque req (lock_tbl (tables w))) = Inr (Inr dest)"
    and t: "trace w' = trace w @ staged @ told" and told: "list_all no_call told"
    and r: "r = Inr (Inr reply)"
    and p: "published e pe (expected_size req)
       (parse_content_digest (pe_lib pe) (req_headers req ''content-digest'')) dest body staged sz (os_state w')"
    and q: "within_quota fuel e pe req dest (os_state w) (length (concat (frame_data body)))"
  have "Sys (Rename a b) None \<in> set staged" using assms(2,3) t no_call_sys [OF told] by auto
  with p have "b = dest" by (auto simp: published_def list_all_iff attempt_act_def)
  with g t told r p q assms(2) show ?thesis by (intro exI [of _ staged] exI [of _ told]) auto
next
  fix dest staged told
  assume "trace w' = trace w @ staged @ told" and told: "list_all no_call told" and "cleaned_up dest staged"
  then show ?thesis using assms(2,3) no_call_sys [OF told] cleaned_up_no_rename by auto
qed (use assms(2,3) in auto)

theorem put_stores_whole_bodies_witness:
  "\<exists>(w' :: mem world) staged told sz. trace w' = staged @ told \<and>
     published (mem_env []) mem_put_env None None (mem_lib [''S'', ''N.webp'']) [Data ''x''] staged sz (os_state w')"
proof -
  obtain a w' where run: "mem_put [Data ''x''] (mem_world mem_sample [] []) = Some (a, w')" and
    acts: "Sys (Rename mem_staged (mem_lib [''S'', ''N.webp''])) None \<in> set (trace w')"
    by (rule put_calls_member [OF mem_put_stored, of "Sys (Rename mem_staged (mem_lib [''S'', ''N.webp''])) None"]) auto
  have req: "expected_size put_cover = None"
    "parse_content_digest (pe_lib mem_put_env) (req_headers put_cover ''content-digest'') = None"
    by code_simp+
  have "trace w' = trace (mem_world mem_sample [] []) @ trace w'" by (simp add: mem_world_def)
  from put_stores_whole_bodies [OF run [unfolded mem_put_def] this, of mem_staged "mem_lib [''S'', ''N.webp'']"] acts
  show ?thesis unfolding req by auto
qed

text \<open>
  C16: a PUT that is not answered with success replaces nothing, and leaves no staging file
  without having asked for its removal: after a staging file was created its removal is the
  last call made on the disk.
\<close>

theorem failed_puts_clean_up:
  assumes "put_inner fuel http_date validators e pe s clk opaque req body w = Some (r, w')"
    and "\<And>reply. r \<noteq> Inr (Inr reply)"
  shows "\<exists>acts. trace w' = trace w @ acts \<and> (\<forall>a b. Sys (Rename a b) None \<notin> set acts) \<and>
     (\<forall>t. Sys (CreateNew t) None \<in> set acts \<longrightarrow>
        (\<exists>early err told. acts = early @ Sys (RemoveFile t) err # told \<and> list_all no_call told))"
  using put_inner_run [OF assms(1)]
proof (elim disjE exE conjE)
  fix dest staged told
  assume t: "trace w' = trace w @ staged @ told" and told: "list_all no_call told" and c: "cleaned_up dest staged"
  have "\<exists>early err told'. staged @ told = early @ Sys (RemoveFile t) err # told' \<and> list_all no_call told'"
    if "Sys (CreateNew t) None \<in> set (staged @ told)" for t
    using cleaned_up_removes [OF c, of t] that no_call_sys [OF told] told by fastforce
  moreover have "Sys (Rename a b) None \<notin> set (staged @ told)" for a b
    using cleaned_up_no_rename [OF c] no_call_sys [OF told] by auto
  ultimately show ?thesis using t by blast
qed (use assms(2) in auto)

theorem failed_puts_clean_up_witness:
  "\<exists>(w' :: mem world) early err told. trace w' = early @ Sys (RemoveFile mem_staged) err # told \<and> list_all no_call told \<and>
     (\<forall>a b. Sys (Rename a b) None \<notin> set (trace w'))"
proof -
  obtain a w' where run: "mem_put [Data ''x'', Broken] (mem_world mem_sample [] []) = Some (a, w')" and a: "\<And>reply. a \<noteq> Inr (Inr reply)" and
    acts: "Sys (CreateNew mem_staged) None \<in> set (trace w')"
    by (rule put_calls_member [OF mem_put_short, of "Sys (CreateNew mem_staged) None"]) auto
  from failed_puts_clean_up [OF run [unfolded mem_put_def] a] acts show ?thesis
    by (fastforce simp: mem_world_def)
qed

text \<open>
  C17: no PUT of one account writes to a file of another account's own tree: every path it hands
  to a call is apart from that file, where the library folder is a folder and the request does
  not name it by a link of its own.
\<close>

theorem put_keeps_others_files:
  assumes "lookup d (the_roots e) path (Some a) = Some r" and "res_kind r = Some KProgress"
    and "res_phys r = Some p"
    and "put_inner fuel http_date validators e pe s clk opaque req body w = Some (answer, w')"
    and "apart (library_root (the_roots e)) (users_root (the_roots e))"
    and "\<And>st. stat_of (view e s) (library_root (the_roots e)) = Some st \<Longrightarrow> is_dir st"
    and "\<And>q parent kind. uri_parent (req_path req) = Some q \<Longrightarrow>
           lookup (view e s) (the_roots e) q (req_caller req) = Some parent \<Longrightarrow>
           member_path (view e s) (the_roots e) parent (uri_name (req_path req)) (req_caller req) \<noteq>
             Some (library_root (the_roots e), kind)"
    and "\<And>b. req_caller req = Some b \<Longrightarrow>
           caller_username a \<noteq> caller_username b \<and> \<not> (owns_cloud_root a \<and> owns_cloud_root b)"
  shows "\<exists>acts. trace w' = trace w @ acts \<and>
           (\<forall>f er q. Sys f er \<in> set acts \<longrightarrow> q \<in> set (call_paths f) \<longrightarrow>
              apart p q \<or> q = library_root (the_roots e) \<and> owns_cloud_root a)"
proof -
  have own: "own_place (the_roots e) a p"
    using lookup_placed [OF assms(1,3)] assms(2) by (simp add: placed_def)
  have in_place: "inside (the_roots e) (req_caller req) dest \<and> dest \<noteq> []"
    if "fst (put_gate http_date validators e s clk opaque req tbl) = Inr (Inr dest)" for dest tbl
  proof -
    have "inside (the_roots e) (req_caller req) dest"
      by (rule put_gate_inside [OF that]) (erule assms(6), erule (1) assms(7))
    then show ?thesis by (auto simp: inside_def own_place_def)
  qed
  have "only_ok_since e (req_caller req) (trace w) w" by (simp add: only_ok_since_def)
  moreover have "calls.keeps_inv e (req_caller req) (trace w)
      (put_inner fuel http_date validators e pe s clk opaque req body)"
    by (rule calls.keeps_put_inner) (rule in_place)
  ultimately have "only_ok_since e (req_caller req) (trace w) w'"
    using assms(4) calls.keeps_invD by blast
  then show ?thesis by (rule own_apart_since [OF own]) (fact assms(5), fact assms(8))
qed

theorem put_keeps_others_files_witness:
  "\<exists>answer w'. mem_put [Data ''x''] (mem_world mem_sample [] []) = Some (answer, w') \<and>
     (\<forall>f er q. Sys f er \<in> set (trace w') \<longrightarrow> q \<in> set (call_paths f) \<longrightarrow>
        apart [''srv'', ''users'', ''al'', ''goals.json''] q)"
proof -
  obtain a w' where run: "mem_put [Data ''x''] (mem_world mem_sample [] []) = Some (a, w')"
    using put_calls_run [OF mem_put_stored] by blast
  let ?e = "mem_env []" and ?req = "put_cover" and ?p = "[''srv'', ''users'', ''al'', ''goals.json'']"
  have roots: "the_roots ?e = demo_roots" by (simp add: mem_env_def)
  have l: "lookup demo_disk demo_roots ''/mokuro-reader/goals.json'' (Some (demo_caller ''al'' False)) =
      Some (RFile ''/mokuro-reader/goals.json'' ?p (demo_stat False) KProgress)"
    by code_simp
  have d: "is_dir st" if "stat_of (view ?e mem_sample) (library_root (the_roots ?e)) = Some st" for st
  proof -
    have "map_option is_dir (stat_of (view ?e mem_sample) (library_root (the_roots ?e))) = Some True" by code_simp
    with that show ?thesis by simp
  qed
  have m: "member_path (view ?e mem_sample) (the_roots ?e) parent (uri_name (req_path ?req)) (req_caller ?req) \<noteq>
      Some (library_root (the_roots ?e), kind)"
    if "uri_parent (req_path ?req) = Some q" "lookup (view ?e mem_sample) (the_roots ?e) q (req_caller ?req) = Some parent"
    for q parent kind
  proof -
    have "map_option fst (Option.bind (Option.bind (uri_parent (req_path ?req))
        (\<lambda>q. lookup (view ?e mem_sample) (the_roots ?e) q (req_caller ?req)))
        (\<lambda>parent. member_path (view ?e mem_sample) (the_roots ?e) parent (uri_name (req_path ?req)) (req_caller ?req))) =
      Some (mem_lib [''S'', ''N.webp''])"
      by code_simp
    moreover have "mem_lib [''S'', ''N.webp''] \<noteq> library_root (the_roots ?e)" by code_simp
    ultimately show ?thesis using that by auto
  qed
  have "\<exists>acts. trace w' = trace (mem_world mem_sample [] []) @ acts \<and>
      (\<forall>f er q. Sys f er \<in> set acts \<longrightarrow> q \<in> set (call_paths f) \<longrightarrow>
         apart ?p q \<or> q = library_root (the_roots ?e) \<and> owns_cloud_root (demo_caller ''al'' False))"
    by (rule put_keeps_others_files [OF _ _ _ run [unfolded mem_put_def] _ d m, where d = demo_disk
          and a = "demo_caller ''al'' False" and path = "''/mokuro-reader/goals.json''"])
      (use l demo_apart in \<open>auto simp: roots put_cover_def mem_req_def req_caller_def demo_caller_def\<close>)
  with run show ?thesis by (auto simp: mem_world_def demo_caller_def)
qed

end
