(* ===== verification/Dav_Upload_Facts.thy ===== *)
theory Dav_Upload_Facts
  imports Dav_Upload
begin

text \<open>
  What holds of the checks of \<open>upload.rs\<close>: how much of an archive is ever inflated, what an
  accepted archive is, and when the sender of a damaged one is told to send it again.
\<close>

section \<open>Inflation\<close>

definition small_reads :: "nat \<Rightarrow> zip_member \<Rightarrow> bool" where
  "small_reads chunk m = (case zm_open m of Reads reads _ \<Rightarrow> list_all (\<lambda>n. n \<le> chunk) reads | _ \<Rightarrow> True)"

text \<open>A member that is read to its end gives what its reads give, no more than it declared.\<close>

definition sound_member :: "zip_member \<Rightarrow> bool" where
  "sound_member m =
     (case zm_open m of Encrypted \<Rightarrow> True | Unopenable \<Rightarrow> False
      | Reads reads fine \<Rightarrow> fine \<and> sum_list reads \<le> zm_size m)"

fun bytes_out :: "zip_open \<Rightarrow> nat" where
  "bytes_out (Reads reads _) = sum_list reads"
| "bytes_out _ = 0"

lemma read_member_bounds:
  assumes "list_all (\<lambda>n. n \<le> chunk) reads" and "inflated \<le> allowed"
  shows "(\<forall>t. read_member allowed declared reads fine produced inflated = PastAllowance t \<longrightarrow> t \<le> allowed + chunk) \<and>
     (\<forall>t. read_member allowed declared reads fine produced inflated = Damaged t \<longrightarrow> t \<le> allowed) \<and>
     (\<forall>t. read_member allowed declared reads fine produced inflated = Whole t \<longrightarrow>
        t \<le> allowed \<and> t = inflated + sum_list reads \<and> fine \<and> (reads = [] \<or> produced + sum_list reads \<le> declared))"
  using assms
proof (induction reads arbitrary: produced inflated)
  case (Cons n reads)
  show ?case
  proof (cases "inflated + n \<le> allowed \<and> produced + n \<le> declared")
    case True
    with Cons.IH [of "inflated + n" "produced + n"] Cons.prems show ?thesis by (cases reads) (auto simp: Let_def)
  next
    case False
    with Cons.prems show ?thesis by (auto simp: Let_def)
  qed
qed auto

lemma read_members_bounds:
  assumes "list_all (small_reads chunk) ms" and "inflated \<le> allowed" and "v_refused v = None"
    and "read_members past allowed ms inflated v = (v', t)"
  shows "t \<le> allowed + chunk \<and> (v_refused v' = None \<longrightarrow> t \<le> allowed) \<and>
     (verified_ok v' \<longrightarrow> list_all sound_member ms \<and> t = inflated + sum_list (map (bytes_out \<circ> zm_open) ms) \<and> verified_ok v)"
  using assms
proof (induction ms arbitrary: inflated v)
  case (Cons m ms)
  show ?case
  proof (cases "zm_open m")
    case Encrypted
    with Cons.IH [of inflated "v\<lparr>v_members := v_members v + 1\<rparr>"] Cons.prems show ?thesis
      by (auto simp: sound_member_def verified_ok_def Let_def)
  next
    case Unopenable
    with Cons.IH [of inflated "v\<lparr>v_members := v_members v + 1, v_damaged := v_damaged v @ [zm_name m]\<rparr>"] Cons.prems show ?thesis
      by (auto simp: sound_member_def verified_ok_def Let_def)
  next
    case (Reads reads fine)
    with Cons.prems have small: "list_all (\<lambda>n. n \<le> chunk) reads" by (simp add: small_reads_def)
    note b = read_member_bounds [OF small Cons.prems(2), of "zm_size m" fine 0]
    show ?thesis
    proof (cases "read_member allowed (zm_size m) reads fine 0 inflated")
      case (PastAllowance t')
      with Cons.prems Reads b show ?thesis by (auto simp: Let_def verified_ok_def)
    next
      case (Damaged t')
      with b have "t' \<le> allowed" by auto
      from Cons.IH [OF _ this, of "v\<lparr>v_members := v_members v + 1, v_damaged := v_damaged v @ [zm_name m]\<rparr>"] Cons.prems Reads Damaged
      show ?thesis by (auto simp: Let_def verified_ok_def)
    next
      case (Whole t')
      with b have t': "t' \<le> allowed" "t' = inflated + sum_list reads" "fine" "sum_list reads \<le> zm_size m" by auto
      from Cons.IH [OF _ t'(1), of "v\<lparr>v_members := v_members v + 1\<rparr>"] Cons.prems Reads Whole t'
      show ?thesis by (auto simp: Let_def verified_ok_def sound_member_def)
    qed
  qed
qed (auto simp: verified_ok_def)

lemma inflate_allowance_ceiling: "inflate_allowance n \<le> inflate_ceiling"
  by (simp add: inflate_allowance_def)

section \<open>Properties\<close>

text \<open>
  C15: checking an uploaded archive never inflates more than its allowance and one read beyond
  it, whatever sizes its directory declares (their 64-bit sum may wrap): twenty times its
  length, at least 256 MiB and at most 16 GiB. An archive that is accepted holds no member
  compressed otherwise than stored or deflated, and every member that is not encrypted was
  read to its end without an error, giving no more bytes than it declares and all together no
  more than the allowance.
\<close>

theorem archive_inflation_bounded:
  assumes "zv_archive z = Inr (map Inr ms)" and "list_all (small_reads chunk) ms"
    and "verify_staged lib (Some z) = (v, t)"
  shows "t \<le> inflate_allowance (zv_len z) + chunk \<and> inflate_allowance (zv_len z) \<le> inflate_ceiling \<and>
     (verified_ok v \<longrightarrow> t \<le> inflate_allowance (zv_len z) \<and>
        (\<forall>m\<in>set ms. zm_dir m \<or> zm_method m \<in> {0, 8} \<and> sound_member m) \<and>
        t = sum_list (map (bytes_out \<circ> zm_open) (filter (\<lambda>m. \<not> zm_dir m) ms)))"
proof -
  have "raw_members (map Inr ms) = Inr ms" by (induction ms) auto
  with assms have run: "verify_members lib z ms = (v, t)" by (simp add: verify_staged_def Let_def)
  let ?r = "filter (\<lambda>m. \<not> zm_dir m) ms"
  have small: "list_all (small_reads chunk) ?r" using assms(2) by (auto simp: list_all_iff)
  have odd_empty: "\<forall>m\<in>set ?r. zm_method m \<in> {0, 8}" if "odd_methods ?r = []"
  proof -
    have "sort xs = [] \<Longrightarrow> xs = []" for xs :: "string list" by (metis length_0_conv length_sort)
    with that have "map (\<lambda>m. method_name (zm_method m)) (filter (\<lambda>m. zm_method m \<noteq> 0 \<and> zm_method m \<noteq> 8) ?r) = []"
      unfolding odd_methods_def remdups_adj_Nil_iff by blast
    then show ?thesis by (auto simp: filter_empty_conv)
  qed
  show ?thesis
  proof (cases "odd_methods ?r = [] \<and> declared_sum ?r \<le> inflate_allowance (zv_len z)")
    case False
    with run show ?thesis
      by (auto simp: verify_members_def Let_def verified_ok_def inflate_allowance_ceiling split: if_splits)
  next
    case True
    with run have "read_members (refused_size lib ''inflate past'' (inflate_allowance (zv_len z)) (zv_len z))
        (inflate_allowance (zv_len z)) ?r 0 (unverified\<lparr>v_head := zv_head z\<rparr>) = (v, t)"
      by (auto simp: verify_members_def Let_def)
    from read_members_bounds [OF small _ _ this] odd_empty True show ?thesis
      by (auto simp: unverified_def inflate_allowance_ceiling verified_ok_def list_all_iff)
  qed
qed

theorem archive_inflation_bounded_witness:
  "snd (verify_staged \<lparr>lib_b64 = Some, lib_sha = (\<lambda>_ x. x), lib_gib = show_nat, lib_mib = show_nat\<rparr>
     (Some \<lparr>zv_head = [], zv_len = 9, zv_archive = Inr [Inr \<lparr>zm_name = ''1.jpg'', zm_dir = False, zm_method = 8,
        zm_size = 3, zm_open = Reads [2, 1] True\<rparr>]\<rparr>)) \<le> inflate_allowance 9 + 2"
proof -
  let ?m = "\<lparr>zm_name = ''1.jpg'', zm_dir = False, zm_method = 8, zm_size = 3, zm_open = Reads [2, 1] True\<rparr>"
  let ?z = "\<lparr>zv_head = [], zv_len = 9, zv_archive = Inr [Inr ?m]\<rparr>"
  let ?lib = "\<lparr>lib_b64 = Some, lib_sha = (\<lambda>_ x. x), lib_gib = show_nat, lib_mib = show_nat\<rparr>"
  have "zv_archive ?z = Inr (map Inr [?m])" by simp
  from archive_inflation_bounded [OF this, of 2 ?lib "fst (verify_staged ?lib (Some ?z))" "snd (verify_staged ?lib (Some ?z))"]
  show ?thesis by (simp add: small_reads_def)
qed

section \<open>Damage that comes twice\<close>

lemma take_first_last:
  "path \<notin> fst ` set seen \<Longrightarrow> take_first path (seen @ [(path, sig, at)]) = (Some (sig, at), seen)"
  by (induction seen) auto

lemma take_first_gone:
  assumes "distinct (map fst seen)"
  shows "path \<notin> fst ` set (snd (take_first path seen)) \<and> distinct (map fst (snd (take_first path seen))) \<and>
     set (snd (take_first path seen)) \<subseteq> set seen"
  using assms
proof (induction seen)
  case (Cons x seen)
  then show ?case by (cases x) (auto split: prod.splits)
qed auto

text \<open>The memory holds one entry a path, at most \<open>damage_capacity\<close> of them.\<close>

definition memory_ok :: "damage_memory \<Rightarrow> bool" where
  "memory_ok seen \<longleftrightarrow> distinct (map fst seen) \<and> length seen \<le> damage_capacity"

lemma memory_ok_forget: "memory_ok seen \<Longrightarrow> memory_ok (forget_damage path seen)"
  by (auto simp: memory_ok_def forget_damage_def distinct_map_filter intro: order_trans [OF length_filter_le])

lemma memory_ok_seen:
  assumes "memory_ok seen" and "seen_before_at path sig now seen = (b, seen')"
  shows "memory_ok seen' \<and> (\<exists>rest. seen' = rest @ [(path, sig, now)] \<and> path \<notin> fst ` set rest)"
proof -
  let ?rest = "snd (take_first path seen)"
  let ?all = "?rest @ [(path, sig, now)]"
  have rest: "path \<notin> fst ` set ?rest" "distinct (map fst ?rest)"
    using take_first_gone assms(1) unfolding memory_ok_def by blast+
  have seen': "seen' = drop (length ?all - damage_capacity) ?all"
    using assms(2) by (auto simp: seen_before_at_def Let_def split: prod.splits)
  have "damage_capacity > 0" by (simp add: damage_capacity_def)
  then have e: "seen' = drop (length ?all - damage_capacity) ?rest @ [(path, sig, now)]"
    unfolding seen' by simp
  have "distinct (map fst ?all)" using rest by (auto simp: image_iff)
  then have "distinct (map fst seen')" unfolding seen' by (metis drop_map distinct_drop)
  moreover have "length seen' \<le> damage_capacity" unfolding seen' by simp
  moreover have "path \<notin> fst ` set (drop (length ?all - damage_capacity) ?rest)"
    using rest(1) set_drop_subset by fastforce
  ultimately show ?thesis using e by (auto simp: memory_ok_def)
qed

lemma judge_damaged:
  assumes "v_refused v = None" and "\<not> verified_ok v"
    and "v_structural v = None \<or> v_head v \<in> {[CHR ''P'', CHR ''K'', CHR 0x03, CHR 0x04], [CHR ''P'', CHR ''K'', CHR 0x05, CHR 0x06]}"
  shows "\<exists>rej. fst (judge_archive v sz None dest now seen) = Some rej \<and> rej_status rej = 422 \<and>
     rej_reason rej = ''archive-damaged'' \<and>
     rej_retry rej = (\<not> fst (seen_before_at (path_text dest) (damage_signature v sz) now seen)) \<and>
     snd (judge_archive v sz None dest now seen) = snd (seen_before_at (path_text dest) (damage_signature v sz) now seen)"
  using assms
  by (auto simp: judge_archive_def damaged_rejection_def rejection_new_def Let_def split: prod.splits)

text \<open>
  the sender of a damaged archive without a digest is asked to send it once more, and is
  told that its own copy is damaged when the same damage arrives for the same path within the
  hour (the memory kept in between at most forgets); the memory never holds two entries of one
  path, nor more than its capacity.
\<close>

theorem same_damage_twice:
  assumes "memory_ok seen" and "v_refused v = None" and "\<not> verified_ok v"
    and "v_structural v = None \<or> v_head v \<in> {[CHR ''P'', CHR ''K'', CHR 0x03, CHR 0x04], [CHR ''P'', CHR ''K'', CHR 0x05, CHR 0x06]}"
    and "path_text dest \<notin> fst ` set seen"
    and "judge_archive v sz None dest now seen = (first, seen1)"
    and "judge_archive v sz None dest now' seen1 = (second, seen2)" and "now' - now \<le> damage_ttl"
  shows "(\<exists>rej. first = Some rej \<and> rej_retry rej) \<and> (\<exists>rej. second = Some rej \<and> \<not> rej_retry rej) \<and>
     memory_ok seen1 \<and> memory_ok seen2"
proof -
  let ?p = "path_text dest" and ?s = "damage_signature v sz"
  have new: "take_first ?p seen = (None, seen)"
    using assms(5) by (induction seen) auto
  then have once: "fst (seen_before_at ?p ?s now seen) = False" by (simp add: seen_before_at_def Let_def)
  have s1: "seen1 = snd (seen_before_at ?p ?s now seen)"
    using judge_damaged [OF assms(2-4), of sz dest now seen] assms(6) by auto
  from memory_ok_seen [OF assms(1), of ?p ?s now False seen1] once s1 obtain rest where
    m1: "memory_ok seen1" and r: "seen1 = rest @ [(?p, ?s, now)]" "?p \<notin> fst ` set rest"
    by (metis prod.collapse)
  have "take_first ?p seen1 = (Some (?s, now), rest)" using take_first_last [OF r(2)] r(1) by simp
  then have twice: "fst (seen_before_at ?p ?s now' seen1) = True"
    using assms(8) by (simp add: seen_before_at_def Let_def)
  have s2: "seen2 = snd (seen_before_at ?p ?s now' seen1)"
    using judge_damaged [OF assms(2-4), of sz dest now' seen1] assms(7) by auto
  have "memory_ok seen2" using memory_ok_seen [OF m1, of ?p ?s now' True seen2] twice s2 by (metis prod.collapse)
  then show ?thesis
    using judge_damaged [OF assms(2-4), of sz dest now seen] judge_damaged [OF assms(2-4), of sz dest now' seen1]
      assms(6,7) once twice m1 by auto
qed

theorem same_damage_twice_witness:
  "\<exists>first second seen1 seen2 rej.
     judge_archive (unverified\<lparr>v_damaged := [''1.jpg'']\<rparr>) 9 None [''S''] 5 [] = (first, seen1) \<and>
     judge_archive (unverified\<lparr>v_damaged := [''1.jpg'']\<rparr>) 9 None [''S''] 7 seen1 = (second, seen2) \<and>
     second = Some rej \<and> \<not> rej_retry rej"
proof -
  let ?v = "unverified\<lparr>v_damaged := [''1.jpg'']\<rparr>"
  obtain first seen1 where f: "judge_archive ?v 9 None [''S''] 5 [] = (first, seen1)" by (metis prod.exhaust)
  obtain second seen2 where s: "judge_archive ?v 9 None [''S''] 7 seen1 = (second, seen2)" by (metis prod.exhaust)
  have "(\<exists>rej. first = Some rej \<and> rej_retry rej) \<and> (\<exists>rej. second = Some rej \<and> \<not> rej_retry rej) \<and>
      memory_ok seen1 \<and> memory_ok seen2"
    by (rule same_damage_twice [OF _ _ _ _ _ f s])
      (simp_all add: memory_ok_def unverified_def verified_ok_def damage_ttl_def)
  with f s show ?thesis by blast
qed

end
