(* ===== verification/Dav_Path_Case.thy ===== *)
theory Dav_Path_Case
  imports Dav_Paths
begin

text \<open>
  \<open>bunko-dav/src/path_case.rs\<close>: library paths are case-insensitive and case-preserving. Every
  segment of a library request path that names something on disk takes the spelling on disk.
  Unicode normalisation and case mapping are parameters, and so is the file system: \<open>present\<close> is
  \<open>symlink_metadata\<close> succeeding, \<open>read_dir\<close> a listing (\<open>None\<close>: the folder cannot be read; an
  entry \<open>None\<close>: an error in the middle of it). Paths of both are below the library folder.
\<close>

section \<open>Telling whether the file system knows case\<close>

record char_case =
  is_lowercase :: "string \<Rightarrow> bool"
  is_uppercase :: "string \<Rightarrow> bool"
  to_uppercase :: "string \<Rightarrow> string"
  to_lowercase :: "string \<Rightarrow> string"

text \<open>The characters of a UTF-8 string, each as its bytes.\<close>

fun utf8_chars :: "string \<Rightarrow> string list" where
  "utf8_chars [] = []"
| "utf8_chars (b # bs) =
     (case utf8_chars bs of
        (c # cs) # rest \<Rightarrow> if cont_byte c then (b # c # cs) # rest else [b] # (c # cs) # rest
      | rest \<Rightarrow> [b] # rest)"

definition swapcase :: "char_case \<Rightarrow> string \<Rightarrow> string" where
  "swapcase u name =
     concat (map (\<lambda>c. if is_lowercase u c then to_uppercase u c
                      else if is_uppercase u c then to_lowercase u c else c) (utf8_chars name))"

text \<open>\<open>ident p\<close> is the device and inode of what \<open>p\<close> names.\<close>

definition same_file :: "(fs_path \<Rightarrow> (nat \<times> nat) option) \<Rightarrow> fs_path \<Rightarrow> fs_path \<Rightarrow> bool" where
  "same_file ident a b =
     (case (ident a, ident b) of (Some x, Some y) \<Rightarrow> x = y | _ \<Rightarrow> False)"

definition is_case_sensitive :: "char_case \<Rightarrow> (fs_path \<Rightarrow> (nat \<times> nat) option) \<Rightarrow> fs_path \<Rightarrow> bool" where
  "is_case_sensitive u ident path =
     (if path = [] \<or> last path = ''..'' \<or> \<not> utf8_valid (last path) then True
      else
        let name = last path; swapped = swapcase u name in
        if swapped = name then True
        else \<not> same_file ident path (butlast path @ [swapped]))"

section \<open>The spelling on disk\<close>

record canonicalizer =
  case_sensitive :: bool
  nfc :: "string \<Rightarrow> string"
  lowercase :: "string \<Rightarrow> string"
  present :: "fs_path \<Rightarrow> bool"
  read_dir :: "fs_path \<Rightarrow> string option list option"

definition canonicalizer_new ::
  "char_case \<Rightarrow> (fs_path \<Rightarrow> (nat \<times> nat) option) \<Rightarrow> fs_path \<Rightarrow> bool option \<Rightarrow> canonicalizer \<Rightarrow> canonicalizer" where
  "canonicalizer_new u ident library cs z =
     z\<lparr>case_sensitive := (case cs of Some b \<Rightarrow> b | None \<Rightarrow> is_case_sensitive u ident library)\<rparr>"

definition fold_name :: "canonicalizer \<Rightarrow> string \<Rightarrow> string" where
  "fold_name z name = lowercase z (nfc z name)"

text \<open>The names of a listing; one that is not UTF-8 is never what a request spells.\<close>

definition names_of :: "string option list \<Rightarrow> string list" where
  "names_of es = filter utf8_valid (List.map_filter id es)"

fun scan_names ::
  "canonicalizer \<Rightarrow> string \<Rightarrow> bool \<Rightarrow> string \<Rightarrow> string list \<Rightarrow> string list \<Rightarrow> string option" where
  "scan_names z name root_level target variants [] =
     (case variants of [] \<Rightarrow> None | v # vs \<Rightarrow> Some (foldl min v vs))"
| "scan_names z name root_level target variants (e # es) =
     (if e = name then Some name
      else if root_level \<and> is_per_user_root_name e then scan_names z name root_level target variants es
      else if fold_name z e = target then scan_names z name root_level target (variants @ [e]) es
      else scan_names z name root_level target variants es)"

definition on_disk_name :: "canonicalizer \<Rightarrow> fs_path \<Rightarrow> string \<Rightarrow> bool \<Rightarrow> string option" where
  "on_disk_name z parent name root_level =
     (if case_sensitive z \<and> present z (parent @ [name]) then Some name
      else
        (case read_dir z parent of
           None \<Rightarrow> None
         | Some es \<Rightarrow> scan_names z name root_level (fold_name z name) [] (names_of es)))"

text \<open>
  The segments one after the other; \<open>resolved\<close> are the names found so far, \<open>keep\<close> the source of a
  MOVE. Empty segments stay where they are.
\<close>

fun canon_parts :: "canonicalizer \<Rightarrow> string option \<Rightarrow> string list \<Rightarrow> string list \<Rightarrow> string list" where
  "canon_parts z keep resolved [] = []"
| "canon_parts z keep resolved (part # parts) =
     (if part = [] then part # canon_parts z keep resolved parts
      else
        (case on_disk_name z resolved part (resolved = []) of
           None \<Rightarrow> part # parts
         | Some on_disk \<Rightarrow>
             if list_all (\<lambda>p. p = []) parts \<and> on_disk \<noteq> part \<and>
                keep = Some (join_c CHR ''/'' (resolved @ [on_disk]))
             then part # parts
             else on_disk # canon_parts z keep (resolved @ [on_disk]) parts))"

definition canonicalize :: "canonicalizer \<Rightarrow> string \<Rightarrow> string option \<Rightarrow> string" where
  "canonicalize z rel keep =
     (let parts = split_c CHR ''/'' rel in
      if list_ex (\<lambda>p. p = ''.'' \<or> p = ''..'') parts then rel
      else join_c CHR ''/'' (canon_parts z (map_option (trim_c CHR ''/'') keep) [] parts))"

definition library_prefix :: string where
  "library_prefix = ''/mokuro-reader/''"

definition case_library_relative :: "string \<Rightarrow> string option" where
  "case_library_relative path =
     (case strip_prefix library_prefix path of
        None \<Rightarrow> None
      | Some rel \<Rightarrow> if trim_c CHR ''/'' rel = [] \<or> is_per_user_rel rel then None else Some rel)"

definition canonical_path :: "canonicalizer \<Rightarrow> string \<Rightarrow> string option \<Rightarrow> string" where
  "canonical_path z path keep =
     (case case_library_relative path of
        None \<Rightarrow> path
      | Some rel \<Rightarrow> library_prefix @ canonicalize z rel keep)"

section \<open>Rewriting a request\<close>

text \<open>
  The parts of a request the rewriting reads: \<open>None\<close> for a \<open>Destination\<close> that is absent, and
  \<open>dest_text\<close> its text where it is visible ASCII.
\<close>

record case_req =
  cr_method :: string
  cr_path :: string
  cr_query :: "string option"
  cr_destination :: "string option"

text \<open>What the rewriting calls: percent coding, and the two parsers of the \<open>http\<close> crate.\<close>

record coding =
  cd_decode :: "string \<Rightarrow> string"
  quote_path :: "string \<Rightarrow> string"
  uri_parses :: "string \<Rightarrow> bool"
  header_text :: "string \<Rightarrow> bool"
  header_value :: "string \<Rightarrow> bool"

definition with_path :: "coding \<Rightarrow> string option \<Rightarrow> string \<Rightarrow> string option" where
  "with_path c query encoded_path =
     (let path_and_query = (case query of Some q \<Rightarrow> encoded_path @ ''?'' @ q | None \<Rightarrow> encoded_path) in
      if uri_parses c path_and_query then Some encoded_path else None)"

definition may_rewrite :: "coding \<Rightarrow> case_req \<Rightarrow> bool" where
  "may_rewrite c r \<longleftrightarrow>
     (case decode_request_path (cd_decode c) (cr_path r) of
        Some p \<Rightarrow> case_library_relative p \<noteq> None
      | None \<Rightarrow> False) \<or>
     (cr_method r = ''MOVE'' \<or> cr_method r = ''COPY'') \<and> cr_destination r \<noteq> None"

text \<open>Where the path of a \<open>Destination\<close> starts: after the host, if it has one.\<close>

definition split_header :: "string \<Rightarrow> (string \<times> string \<times> string) option" where
  "split_header header =
     map_option
       (\<lambda>(front, rest).
          let path = takeWhile (\<lambda>c. c \<noteq> CHR ''?'' \<and> c \<noteq> CHR ''#'') rest
          in (front, path, drop (length path) rest))
       (case split_once_str ''://'' header of
          Some (scheme, rest) \<Rightarrow>
            map_option (\<lambda>(host, p). (scheme @ ''://'' @ host, CHR ''/'' # p)) (split_once_c CHR ''/'' rest)
        | None \<Rightarrow> Some ([], header))"

definition rewrite_destination :: "coding \<Rightarrow> canonicalizer \<Rightarrow> string option \<Rightarrow> case_req \<Rightarrow> case_req" where
  "rewrite_destination c z keep r =
     (case cr_destination r of
        None \<Rightarrow> r
      | Some header \<Rightarrow>
          if \<not> header_text c header then r
          else
            (case split_header header of
               None \<Rightarrow> r
             | Some (front, raw, back) \<Rightarrow>
                 (case decode_request_path (cd_decode c) raw of
                    None \<Rightarrow> r
                  | Some path \<Rightarrow>
                      let canonical = canonical_path z path keep;
                          rewritten = front @ quote_path c canonical @ back
                      in if canonical = path then r
                         else if header_value c rewritten then r\<lparr>cr_destination := Some rewritten\<rparr>
                         else r)))"

definition rewrite_request :: "coding \<Rightarrow> canonicalizer \<Rightarrow> case_req \<Rightarrow> case_req" where
  "rewrite_request c z r =
     (case decode_request_path (cd_decode c) (cr_path r) of
        None \<Rightarrow> r
      | Some path \<Rightarrow>
          let canonical = canonical_path z path None;
              r = (if canonical \<noteq> path
                   then (case with_path c (cr_query r) (quote_path c canonical) of
                           Some p \<Rightarrow> r\<lparr>cr_path := p\<rparr> | None \<Rightarrow> r)
                   else r)
          in if cr_method r = ''MOVE'' \<or> cr_method r = ''COPY''
             then rewrite_destination c z
                    (if cr_method r = ''MOVE'' then case_library_relative canonical else None) r
             else r)"

section \<open>What a found name is\<close>

definition listed :: "canonicalizer \<Rightarrow> fs_path \<Rightarrow> string set" where
  "listed z p = (case read_dir z p of None \<Rightarrow> {} | Some es \<Rightarrow> set (names_of es))"

text \<open>What operating systems promise of a listing: names of one segment, and never the dots.\<close>

definition listing_ok :: "canonicalizer \<Rightarrow> bool" where
  "listing_ok z \<longleftrightarrow> (\<forall>p. \<forall>n\<in>listed z p. plain_segment n \<and> CHR ''/'' \<notin> set n)"

definition named :: "string list \<Rightarrow> string list" where
  "named = filter (\<lambda>p. p \<noteq> [])"

lemma foldl_min_in: "foldl min v vs \<in> set (v # vs)"
  by (induction vs arbitrary: v) (auto simp: min_def split: if_splits)

lemma foldl_min_same: "(\<forall>x\<in>set (v # vs). x = n) \<Longrightarrow> foldl min v vs = n"
  using foldl_min_in [of v vs] by blast

lemma scan_names_exact: "n \<in> set es \<Longrightarrow> scan_names z n r t vs es = Some n"
  by (induction es arbitrary: vs) auto

lemma scan_names_variants:
  "name \<notin> set es \<Longrightarrow> scan_names z name r t vs es =
     (case vs @ filter (\<lambda>e. \<not> (r \<and> is_per_user_root_name e) \<and> fold_name z e = t) es of
        [] \<Rightarrow> None | w # ws \<Rightarrow> Some (foldl min w ws))"
  by (induction es arbitrary: vs) auto

lemma on_disk_name_cases:
  assumes "on_disk_name z p name r = Some n"
  obtains "n = name"
  | "n \<noteq> name" "n \<in> listed z p" "fold_name z n = fold_name z name" "\<not> (r \<and> is_per_user_root_name n)"
proof (cases "n = name")
  case False
  with assms obtain es where es: "read_dir z p = Some es"
    "scan_names z name r (fold_name z name) [] (names_of es) = Some n"
    by (auto simp: on_disk_name_def split: if_splits option.splits)
  have "name \<notin> set (names_of es)"
    using es(2) False scan_names_exact by fastforce
  with es(2) obtain w ws where
    w: "filter (\<lambda>e. \<not> (r \<and> is_per_user_root_name e) \<and> fold_name z e = fold_name z name) (names_of es) = w # ws"
    "n = foldl min w ws"
    by (auto simp: scan_names_variants split: list.splits)
  have "n \<in> set (w # ws)" using foldl_min_in w(2) by simp
  then have "n \<in> set (filter (\<lambda>e. \<not> (r \<and> is_per_user_root_name e) \<and> fold_name z e = fold_name z name) (names_of es))"
    using w(1) by simp
  with that(2) False es(1) show ?thesis by (auto simp: listed_def)
qed (use that in auto)

lemma on_disk_name_again:
  assumes "on_disk_name z p name r = Some n"
  shows "on_disk_name z p n r = Some n"
  using assms
proof (cases rule: on_disk_name_cases)
  case 2
  then obtain es where "read_dir z p = Some es" "n \<in> set (names_of es)"
    by (auto simp: listed_def split: option.splits)
  then show ?thesis by (auto simp: on_disk_name_def scan_names_exact)
qed (use assms in simp)

text \<open>
  The rewriting keeps the shape of the path: a segment is the client's or a name on disk that
  folds to it, and the first is no name of a private tree unless the client wrote it.
\<close>

definition respelled :: "canonicalizer \<Rightarrow> string \<Rightarrow> string \<Rightarrow> bool" where
  "respelled z q p \<longleftrightarrow>
     q = p \<or> (p \<noteq> [] \<and> plain_segment q \<and> CHR ''/'' \<notin> set q \<and> fold_name z q = fold_name z p)"

lemma respelled_refl [simp]: "respelled z p p"
  by (simp add: respelled_def)

lemma respelled_refl_list [simp]: "list_all2 (respelled z) ps ps"
  by (simp add: list.rel_refl)

lemma respelled_on_disk:
  assumes "listing_ok z" "on_disk_name z p name r = Some n" "name \<noteq> []"
  shows "respelled z n name"
  using assms(2)
proof (cases rule: on_disk_name_cases)
  case 2
  with assms(1,3) show ?thesis by (auto simp: respelled_def listing_ok_def)
qed simp

lemma canon_parts_respelled:
  "listing_ok z \<Longrightarrow> list_all2 (respelled z) (canon_parts z keep resolved ps) ps"
  by (induction ps arbitrary: resolved) (auto simp: respelled_on_disk split: option.splits)

lemma respelled_named:
  "list_all2 (respelled z) qs ps \<Longrightarrow> list_all2 (respelled z) (named qs) (named ps)"
  by (induction rule: list_all2_induct) (auto simp: named_def respelled_def plain_segment_def)

lemma canon_parts_first:
  assumes "listing_ok z" "named (canon_parts z keep [] ps) = q # qs"
  shows "q = hd (named ps) \<or> \<not> is_per_user_root_name q"
  using assms(2)
proof (induction ps)
  case (Cons p ps)
  show ?case
  proof (cases "p = []")
    case True
    with Cons show ?thesis by (simp add: named_def)
  next
    case False
    show ?thesis
    proof (cases "on_disk_name z [] p True")
      case None
      with False Cons.prems show ?thesis by (simp add: named_def)
    next
      case (Some n)
      have ne: "n \<noteq> []" using respelled_on_disk [OF assms(1) Some False] False
        by (auto simp: respelled_def plain_segment_def)
      from Some consider "n = p" | "\<not> is_per_user_root_name n" "n \<noteq> p" by (cases rule: on_disk_name_cases) auto
      then show ?thesis using ne Some False Cons.prems
        by cases (auto simp: named_def split: if_splits)
    qed
  qed
qed (simp add: named_def)

section \<open>A path keeps its class\<close>

text \<open>Whose tree a path below the reader root is in shows in its named segments.\<close>

lemma split_c_last:
  assumes "s = [] \<or> last s \<noteq> c"
  shows "split_c c s = [s] \<or> last (split_c c s) \<noteq> []"
proof (cases "split_c c s" rule: rev_cases)
  case (snoc xs x)
  have s: "join_c c (xs @ [x]) = s" using join_split_c [of c s] snoc by simp
  show ?thesis
  proof (cases "xs = []")
    case True
    with s snoc show ?thesis by simp
  next
    case False
    have "join_c c (xs @ [[]]) = join_c c xs @ [c]" using False
      by (induction xs rule: join_c.induct) auto
    with s assms snoc show ?thesis by (cases "x = []") auto
  qed
qed simp

lemma per_user_named:
  "is_per_user_rel rel \<longleftrightarrow>
     (case named (split_c CHR ''/'' rel) of
        [] \<Rightarrow> False
      | n # ns \<Rightarrow> n = history_dir \<or> ns = [] \<and> n \<in> set per_user_files)"
proof -
  let ?s = "trim_c CHR ''/'' rel"
  have named: "named (split_c CHR ''/'' rel) = named (split_c CHR ''/'' ?s)"
    by (simp add: named_def filter_split_c_trim)
  have pu: "is_per_user_rel rel \<longleftrightarrow> ?s \<in> set per_user_files \<or> ?s = history_dir \<or> (\<exists>r. ?s = history_dir @ CHR ''/'' # r)"
    by (auto simp: is_per_user_rel_def per_user_cases Let_def strip_prefix_append_pat strip_prefix_Some_iff
        split: option.splits Option.bind_splits)
  have hist: "CHR ''/'' \<notin> set history_dir" by (simp add: history_dir_def)
  show ?thesis
  proof (cases "?s = []")
    case True
    moreover from this have "named (split_c CHR ''/'' rel) = []" unfolding named by (simp add: named_def)
    ultimately show ?thesis using pu per_user_files_plain by (auto simp: history_dir_def)
  next
    case False
    obtain n ns where split: "split_c CHR ''/'' ?s = n # ns" by (cases "split_c CHR ''/'' ?s") auto
    have s: "?s = (if ns = [] then n else n @ CHR ''/'' # join_c CHR ''/'' ns)"
      using join_split_c [of "CHR ''/''" ?s] split by (cases ns) auto
    have n: "n \<noteq> []" using trim_c_ends(1) [OF False] False s by (auto split: if_splits)
    have ns: "named ns = [] \<longleftrightarrow> ns = []"
    proof
      assume none: "named ns = []"
      show "ns = []"
      proof (rule ccontr)
        assume "ns \<noteq> []"
        with split_c_last [of ?s "CHR ''/''"] trim_c_ends(2) [OF False] split have "last ns \<noteq> []" by auto
        moreover have "last ns \<in> set ns" using \<open>ns \<noteq> []\<close> by simp
        ultimately show False using none by (auto simp: named_def filter_empty_conv)
      qed
    qed (simp add: named_def)
    have n_slash: "CHR ''/'' \<notin> set n" using split_c_parts [of n "CHR ''/''" ?s] split by simp
    have "n = history_dir \<longleftrightarrow> ?s = history_dir \<or> (\<exists>r. ?s = history_dir @ CHR ''/'' # r)"
    proof
      assume "n = history_dir"
      with s show "?s = history_dir \<or> (\<exists>r. ?s = history_dir @ CHR ''/'' # r)" by (metis append_Cons)
    next
      assume "?s = history_dir \<or> (\<exists>r. ?s = history_dir @ CHR ''/'' # r)"
      then show "n = history_dir"
      proof
        assume "?s = history_dir"
        with split split_c_no_sep [OF hist] show ?thesis by simp
      next
        assume "\<exists>r. ?s = history_dir @ CHR ''/'' # r"
        then obtain r where "?s = history_dir @ CHR ''/'' # r" by blast
        with split split_c_append [OF hist, of r] show ?thesis by simp
      qed
    qed
    moreover have "ns = [] \<and> n \<in> set per_user_files \<longleftrightarrow> ?s \<in> set per_user_files"
      using s per_user_files_plain [of ?s] by (auto split: if_splits)
    moreover have "named (split_c CHR ''/'' rel) = n # named ns"
      unfolding named split using n by (simp add: named_def)
    ultimately show ?thesis unfolding pu using ns by auto
  qed
qed

lemma trim_named: "trim_c CHR ''/'' rel = [] \<longleftrightarrow> named (split_c CHR ''/'' rel) = []"
proof
  assume "trim_c CHR ''/'' rel = []"
  then show "named (split_c CHR ''/'' rel) = []"
    using filter_split_c_trim [of "CHR ''/''" rel] by (simp add: named_def)
next
  assume none: "named (split_c CHR ''/'' rel) = []"
  show "trim_c CHR ''/'' rel = []"
  proof (rule ccontr)
    let ?s = "trim_c CHR ''/'' rel"
    assume s: "?s \<noteq> []"
    have "named (split_c CHR ''/'' ?s) = []" using none by (simp add: named_def filter_split_c_trim)
    then have "x = []" if "x \<in> set (split_c CHR ''/'' ?s)" for x using that by (auto simp: named_def filter_empty_conv)
    then show False
      using split_c_last [of ?s "CHR ''/''"] trim_c_ends(2) [OF s] s by (cases "split_c CHR ''/'' ?s" rule: rev_cases) auto
  qed
qed

lemma canonicalize_split:
  assumes "listing_ok z"
  shows "\<exists>qs. split_c CHR ''/'' (canonicalize z rel keep) = qs \<and>
     list_all2 (respelled z) qs (split_c CHR ''/'' rel) \<and>
     (named qs \<noteq> [] \<longrightarrow> hd (named qs) = hd (named (split_c CHR ''/'' rel)) \<or> \<not> is_per_user_root_name (hd (named qs)))"
proof (cases "list_ex (\<lambda>p. p = ''.'' \<or> p = ''..'') (split_c CHR ''/'' rel)")
  case True
  then show ?thesis by (simp add: canonicalize_def)
next
  case False
  let ?ps = "split_c CHR ''/'' rel"
  let ?qs = "canon_parts z (map_option (trim_c CHR ''/'') keep) [] ?ps"
  have rs: "list_all2 (respelled z) ?qs ?ps" using assms by (rule canon_parts_respelled)
  have "CHR ''/'' \<notin> set q" if q: "q \<in> set ?qs" for q
  proof -
    from q obtain i where i: "i < length ?qs" "q = ?qs ! i" by (auto simp: in_set_conv_nth)
    then have "respelled z q (?ps ! i)" "?ps ! i \<in> set ?ps"
      using list_all2_nthD [OF rs] list_all2_lengthD [OF rs] by auto
    with split_c_parts show ?thesis by (fastforce simp: respelled_def)
  qed
  moreover have "?qs \<noteq> []" using rs by auto
  ultimately have "split_c CHR ''/'' (join_c CHR ''/'' ?qs) = ?qs" by (rule split_join_c [rotated])
  moreover have "hd (named ?qs) = hd (named ?ps) \<or> \<not> is_per_user_root_name (hd (named ?qs))" if "named ?qs \<noteq> []"
    using canon_parts_first [OF assms, of _ ?ps "hd (named ?qs)" "tl (named ?qs)"] that by simp
  ultimately show ?thesis using rs False by (simp add: canonicalize_def)
qed

lemma canonicalize_library:
  assumes "listing_ok z" "trim_c CHR ''/'' rel \<noteq> []" "\<not> is_per_user_rel rel"
  shows "trim_c CHR ''/'' (canonicalize z rel keep) \<noteq> [] \<and> \<not> is_per_user_rel (canonicalize z rel keep)"
proof -
  obtain qs where qs: "split_c CHR ''/'' (canonicalize z rel keep) = qs"
    "list_all2 (respelled z) qs (split_c CHR ''/'' rel)"
    "named qs \<noteq> [] \<longrightarrow> hd (named qs) = hd (named (split_c CHR ''/'' rel)) \<or> \<not> is_per_user_root_name (hd (named qs))"
    using canonicalize_split [OF assms(1)] by blast
  obtain p ps where p: "named (split_c CHR ''/'' rel) = p # ps"
    using assms(2) by (cases "named (split_c CHR ''/'' rel)") (auto simp: trim_named)
  from respelled_named [OF qs(2)] p obtain q rest where q: "named qs = q # rest" "(rest = []) = (ps = [])"
    by (cases "named qs") auto
  have "\<not> is_per_user_rel (canonicalize z rel keep)"
    using qs(3) q p assms(3)
    by (auto simp: per_user_named qs(1) is_per_user_root_name_def per_user_dirs_def)
  with q(1) qs(1) show ?thesis by (simp add: trim_named)
qed

lemma trim_end_append: "trim_end_c c s \<noteq> [] \<Longrightarrow> trim_end_c c (p @ s) = p @ trim_end_c c s"
proof (induction s rule: rev_induct)
  case (snoc x xs)
  show ?case
  proof (cases "x = c")
    case True
    with snoc show ?thesis using trim_end_c_snoc [of c "p @ xs" x] by simp
  next
    case False
    then show ?thesis using trim_end_c_snoc [of c "p @ xs" x] by simp
  qed
qed (simp add: trim_end_c_def)

lemma below_reader:
  assumes "trim_c CHR ''/'' rel \<noteq> []"
  shows "class_of (library_prefix @ rel) = (if is_per_user_rel rel then CProgress else CLibrary)"
proof -
  let ?r = "trim_end_c CHR ''/'' rel"
  have ne: "?r \<noteq> []"
  proof
    assume none: "?r = []"
    have "named (split_c CHR ''/'' rel) = named (split_c CHR ''/'' ?r)"
      by (simp add: named_def filter_split_c_trim_end)
    with none assms show False by (simp add: trim_named named_def)
  qed
  have "trim_c CHR ''/'' (library_prefix @ rel) = trim_end_c CHR ''/'' (''mokuro-reader/'' @ rel)"
    by (simp add: library_prefix_def trim_c_def)
  also have "\<dots> = ''mokuro-reader/'' @ ?r" by (rule trim_end_append [OF ne])
  finally have "reader_relative (library_prefix @ rel) = Some ?r" by (simp add: reader_relative_Some_iff)
  moreover have "is_per_user_rel ?r = is_per_user_rel rel"
    by (simp add: per_user_named named_def filter_split_c_trim_end)
  ultimately show ?thesis by (simp add: class_of_def classify_cases)
qed

lemma canonical_path_class:
  assumes "listing_ok z"
  shows "class_of (canonical_path z path keep) = class_of path"
proof (cases "case_library_relative path")
  case None
  then show ?thesis by (simp add: canonical_path_def)
next
  case (Some rel)
  then have rel: "path = library_prefix @ rel" "trim_c CHR ''/'' rel \<noteq> []" "\<not> is_per_user_rel rel"
    by (auto simp: case_library_relative_def strip_prefix_Some_iff split: option.splits if_splits)
  note canonicalize_library [OF assms rel(2,3), of keep]
  with rel Some show ?thesis by (simp add: canonical_path_def below_reader)
qed

section \<open>One spelling for one file\<close>

text \<open>
  \<open>stored z [] ns\<close>: the names \<open>ns\<close> lead from the library folder to something on disk, no
  neighbour of any of them folds to the same name, and they are not in a private tree.
\<close>

fun stored :: "canonicalizer \<Rightarrow> fs_path \<Rightarrow> string list \<Rightarrow> bool" where
  "stored z p [] = True"
| "stored z p (n # ns) =
     (n \<in> listed z p \<and> (\<forall>m\<in>listed z p. fold_name z m = fold_name z n \<longrightarrow> m = n) \<and>
      (p = [] \<longrightarrow> \<not> is_per_user_root_name n) \<and> stored z (p @ [n]) ns)"

text \<open>What can be looked up by name is listed, on a file system that knows case.\<close>

definition lookup_listed :: "canonicalizer \<Rightarrow> bool" where
  "lookup_listed z \<longleftrightarrow> (\<forall>p n. case_sensitive z \<longrightarrow> present z (p @ [n]) \<longrightarrow> n \<in> listed z p)"

lemma on_disk_name_stored:
  assumes "lookup_listed z" "n \<in> listed z p" "\<forall>m\<in>listed z p. fold_name z m = fold_name z n \<longrightarrow> m = n"
    and "r \<longrightarrow> \<not> is_per_user_root_name n" "fold_name z name = fold_name z n"
  shows "on_disk_name z p name r = Some n"
proof -
  from assms(2) obtain es where es: "read_dir z p = Some es" "n \<in> set (names_of es)"
    "listed z p = set (names_of es)" by (auto simp: listed_def split: option.splits)
  show ?thesis
  proof (cases "name \<in> set (names_of es)")
    case True
    with assms(3,5) es have "name = n" by auto
    with es(2) show ?thesis by (auto simp: on_disk_name_def es(1) scan_names_exact)
  next
    case False
    with assms(1) es have np: "\<not> (case_sensitive z \<and> present z (p @ [name]))" by (auto simp: lookup_listed_def)
    let ?vs = "filter (\<lambda>e. \<not> (r \<and> is_per_user_root_name e) \<and> fold_name z e = fold_name z name) (names_of es)"
    have "n \<in> set ?vs" "\<forall>v\<in>set ?vs. v = n" using es assms(3-5) by auto
    then have "(case ?vs of [] \<Rightarrow> None | w # ws \<Rightarrow> Some (foldl min w ws)) = Some n"
      using foldl_min_same [of _ _ n] by (cases ?vs) (metis empty_iff empty_set, metis list.case(2))
    then show ?thesis
      unfolding on_disk_name_def es(1) option.case if_not_P [OF np] scan_names_variants [OF False] append_Nil .
  qed
qed

lemma canon_parts_stored:
  assumes "lookup_listed z" "listing_ok z" "stored z p ns"
    and "list_all2 (\<lambda>q n. fold_name z q = fold_name z n) (named ps) ns"
  shows "named (canon_parts z None p ps) = ns"
  using assms(3,4)
proof (induction ps arbitrary: p ns)
  case (Cons q ps)
  show ?case
  proof (cases "q = []")
    case True
    with Cons show ?thesis by (simp add: named_def)
  next
    case False
    with Cons.prems(2) obtain n ms where ns: "ns = n # ms" "fold_name z q = fold_name z n"
      "list_all2 (\<lambda>q n. fold_name z q = fold_name z n) (named ps) ms"
      by (cases ns) (auto simp: named_def)
    have "on_disk_name z p q (p = []) = Some n"
      using Cons.prems(1) ns by (intro on_disk_name_stored [OF assms(1)]) auto
    moreover have "n \<noteq> []" using Cons.prems(1) ns assms(2) by (auto simp: listing_ok_def plain_segment_def)
    moreover have "named (canon_parts z None (p @ [n]) ps) = ms" using Cons ns by auto
    ultimately show ?thesis using False ns(1) by (simp add: named_def)
  qed
qed (simp add: named_def)

lemma canon_parts_again:
  assumes "listing_ok z"
  shows "canon_parts z None p (canon_parts z None p ps) = canon_parts z None p ps"
proof (induction ps arbitrary: p)
  case (Cons q ps)
  show ?case
  proof (cases "q = []")
    case True
    with Cons show ?thesis by simp
  next
    case False
    show ?thesis
    proof (cases "on_disk_name z p q (p = [])")
      case None
      with False show ?thesis by simp
    next
      case (Some n)
      have "n \<noteq> []" using respelled_on_disk [OF assms Some False] False
        by (auto simp: respelled_def plain_segment_def)
      with Some False Cons on_disk_name_again [OF Some] show ?thesis by simp
    qed
  qed
qed simp

section \<open>Properties\<close>

text \<open>A library of one folder with one volume, and a folder of its own that looks private.\<close>

definition demo_library :: canonicalizer where
  "demo_library =
     \<lparr>case_sensitive = True, nfc = id, lowercase = to_ascii_lower,
      present = (\<lambda>p. p \<in> {[''Kingdom''], [''history''], [''Kingdom'', ''Vol 1.cbz'']}),
      read_dir = (\<lambda>p. if p = [] then Some [Some ''Kingdom'', None, Some ''history'']
                      else if p = [''Kingdom''] then Some [Some ''Vol 1.cbz''] else None)\<rparr>"

lemma demo_listed: "listed demo_library p =
    (if p = [] then {''Kingdom'', ''history''} else if p = [''Kingdom''] then {''Vol 1.cbz''} else {})"
proof -
  have "set (names_of [Some ''Kingdom'', None, Some ''history'']) = {''Kingdom'', ''history''}"
    "set (names_of [Some ''Vol 1.cbz'']) = {''Vol 1.cbz''}" by code_simp+
  then show ?thesis by (simp add: listed_def demo_library_def)
qed

lemma demo_ok: "listing_ok demo_library \<and> lookup_listed demo_library"
  by (auto simp: listing_ok_def lookup_listed_def demo_listed plain_segment_def) (auto simp: demo_library_def)

text \<open>
  Rewriting a path to the spelling on disk never moves it between the classes: a library path
  stays one (\<open>History/\<close> does not become the private \<open>history/\<close> of an account), and everything
  that is not below the library keeps every byte.
\<close>

theorem rewriting_keeps_class:
  assumes "listing_ok z"
  shows "class_of (canonical_path z path keep) = class_of path \<and>
    (class_of path \<noteq> CLibrary \<longrightarrow> canonical_path z path keep = path)"
proof -
  have "canonical_path z path keep = path" if "class_of path \<noteq> CLibrary"
  proof (cases "case_library_relative path")
    case (Some rel)
    then have "path = library_prefix @ rel" "trim_c CHR ''/'' rel \<noteq> []" "\<not> is_per_user_rel rel"
      by (auto simp: case_library_relative_def strip_prefix_Some_iff split: option.splits if_splits)
    with that show ?thesis by (simp add: below_reader)
  qed (simp add: canonical_path_def)
  with canonical_path_class [OF assms] show ?thesis by blast
qed

theorem rewriting_keeps_class_witness:
  "canonical_path demo_library ''/mokuro-reader/KINGDOM/vol 1.cbz'' None = ''/mokuro-reader/Kingdom/Vol 1.cbz'' \<and>
   canonical_path demo_library ''/mokuro-reader/HISTORY/x'' None = ''/mokuro-reader/HISTORY/x'' \<and>
   class_of (canonical_path demo_library ''/mokuro-reader/HISTORY/x'' None) = CLibrary"
proof -
  have "class_of (canonical_path demo_library ''/mokuro-reader/HISTORY/x'' None) = class_of ''/mokuro-reader/HISTORY/x''"
    using rewriting_keeps_class [of demo_library "''/mokuro-reader/HISTORY/x''" None] demo_ok by simp
  moreover have "canonical_path demo_library ''/mokuro-reader/KINGDOM/vol 1.cbz'' None = ''/mokuro-reader/Kingdom/Vol 1.cbz''"
    "canonical_path demo_library ''/mokuro-reader/HISTORY/x'' None = ''/mokuro-reader/HISTORY/x''"
    "class_of ''/mokuro-reader/HISTORY/x'' = CLibrary" by code_simp+
  ultimately show ?thesis by simp
qed

text \<open>
  C22: one spelling for one file: whatever spelling of a stored path a request uses, the rewritten
  path names it by the spelling on disk, so two requests for one file get the same names, and
  rewriting again changes nothing.
\<close>

theorem one_spelling:
  assumes "listing_ok z" "lookup_listed z" "stored z [] ns"
    and "list_all2 (\<lambda>q n. fold_name z q = fold_name z n) (named (split_c CHR ''/'' rel)) ns"
    and "''.'' \<notin> set (split_c CHR ''/'' rel)" "''..'' \<notin> set (split_c CHR ''/'' rel)"
  shows "named (split_c CHR ''/'' (canonicalize z rel None)) = ns \<and>
    canonicalize z (canonicalize z rel None) None = canonicalize z rel None"
proof -
  let ?ps = "split_c CHR ''/'' rel"
  let ?qs = "canon_parts z None [] ?ps"
  have c: "canonicalize z rel None = join_c CHR ''/'' ?qs"
    using assms(5,6) by (auto simp: canonicalize_def list_ex_iff Let_def)
  have q: "named ?qs = ns" by (rule canon_parts_stored [OF assms(2,1,3,4)])
  have rs: "list_all2 (respelled z) ?qs ?ps" by (rule canon_parts_respelled [OF assms(1)])
  have split: "split_c CHR ''/'' (canonicalize z rel None) = ?qs"
  proof -
    have "CHR ''/'' \<notin> set x \<and> x \<noteq> ''.'' \<and> x \<noteq> ''..''" if x: "x \<in> set ?qs" for x
    proof -
      from x obtain i where "i < length ?qs" "x = ?qs ! i" by (auto simp: in_set_conv_nth)
      then have "respelled z x (?ps ! i)" "?ps ! i \<in> set ?ps"
        using list_all2_nthD [OF rs] list_all2_lengthD [OF rs] by auto
      with split_c_parts assms(5,6) show ?thesis by (fastforce simp: respelled_def plain_segment_def)
    qed
    moreover have "?qs \<noteq> []" using rs by auto
    ultimately show ?thesis by (simp add: c split_join_c)
  qed
  have "\<not> list_ex (\<lambda>p. p = ''.'' \<or> p = ''..'') ?qs"
  proof
    assume "list_ex (\<lambda>p. p = ''.'' \<or> p = ''..'') ?qs"
    then obtain x where "x \<in> set (named ?qs)" "x = ''.'' \<or> x = ''..''" by (auto simp: list_ex_iff named_def)
    then have "x \<in> set ns" "\<not> plain_segment x" by (auto simp: q plain_segment_def)
    moreover have "\<forall>n\<in>set ns. plain_segment n" if "stored z p ns" for p
      using that assms(1) by (induction z p ns rule: stored.induct) (auto simp: listing_ok_def)
    ultimately show False using assms(3) by blast
  qed
  then have "canonicalize z (canonicalize z rel None) None = join_c CHR ''/'' (canon_parts z None [] ?qs)"
    unfolding canonicalize_def [of z "canonicalize z rel None"] split by (simp add: Let_def)
  with split q c show ?thesis by (simp add: canon_parts_again [OF assms(1)])
qed

theorem one_spelling_witness:
  "canonicalize demo_library ''KINGDOM//VOL 1.CBZ/'' None = ''Kingdom//Vol 1.cbz/'' \<and>
   named (split_c CHR ''/'' (canonicalize demo_library ''KINGDOM//VOL 1.CBZ/'' None)) = [''Kingdom'', ''Vol 1.cbz'']"
proof -
  have st: "stored demo_library [] [''Kingdom'', ''Vol 1.cbz'']"
    by (auto simp: demo_listed) (code_simp)+
  have f: "named (split_c CHR ''/'' ''KINGDOM//VOL 1.CBZ/'') = [''KINGDOM'', ''VOL 1.CBZ'']"
    "fold_name demo_library ''KINGDOM'' = fold_name demo_library ''Kingdom''"
    "fold_name demo_library ''VOL 1.CBZ'' = fold_name demo_library ''Vol 1.cbz''"
    "''.'' \<notin> set (split_c CHR ''/'' ''KINGDOM//VOL 1.CBZ/'')" "''..'' \<notin> set (split_c CHR ''/'' ''KINGDOM//VOL 1.CBZ/'')"
    "canonicalize demo_library ''KINGDOM//VOL 1.CBZ/'' None = ''Kingdom//Vol 1.cbz/''"
    by code_simp+
  from one_spelling [of demo_library "[''Kingdom'', ''Vol 1.cbz'']" "''KINGDOM//VOL 1.CBZ/''"] demo_ok st f
  show ?thesis by simp
qed

lemma canon_parts_keep:
  assumes "lookup_listed z" "listing_ok z" "fold_name z q = fold_name z n" "q \<noteq> n" "q \<noteq> []"
  shows "stored z p (ds @ [n]) \<Longrightarrow>
     canon_parts z (Some (join_c CHR ''/'' (p @ ds @ [n]))) p (ds @ [q]) = ds @ [q]"
proof (induction ds arbitrary: p)
  case Nil
  have "on_disk_name z p q (p = []) = Some n"
    using Nil assms(3) by (intro on_disk_name_stored [OF assms(1)]) auto
  with assms(4,5) show ?case by simp
next
  case (Cons d ds)
  have "on_disk_name z p d (p = []) = Some d"
    using Cons.prems by (intro on_disk_name_stored [OF assms(1)]) auto
  moreover have "d \<noteq> []" using Cons.prems assms(2) by (auto simp: listing_ok_def plain_segment_def)
  ultimately show ?case using Cons.IH [of "p @ [d]"] Cons.prems assms(5) by simp
qed

lemma stored_plain:
  "listing_ok z \<Longrightarrow> stored z p ns \<Longrightarrow> \<forall>n\<in>set ns. plain_segment n \<and> CHR ''/'' \<notin> set n"
  by (induction z p ns rule: stored.induct) (auto simp: listing_ok_def)

lemma join_plain:
  assumes "\<forall>n\<in>set ns. n \<noteq> [] \<and> c \<notin> set n" "ns \<noteq> []"
  shows "trim_c c (join_c c ns) = join_c c ns"
proof (rule trim_c_id, rule disjI2)
  have "join_c c ns \<noteq> [] \<and> hd (join_c c ns) \<noteq> c \<and> last (join_c c ns) \<noteq> c"
    using assms
  proof (induction c ns rule: join_c.induct)
    case (2 c x)
    then show ?case by (cases x rule: rev_cases) (auto simp: hd_append)
  next
    case (3 c x y ys)
    then show ?case by (auto simp: hd_append)
  qed simp
  then show "hd (join_c c ns) \<noteq> c \<and> last (join_c c ns) \<noteq> c" by blast
qed

text \<open>
  A MOVE that only changes the case of a stored name keeps the spelling the client asks for,
  so renaming \<open>kingdom\<close> to \<open>Kingdom\<close> is not turned into a move onto itself.
\<close>

theorem case_rename_kept:
  assumes "listing_ok z" "lookup_listed z" "stored z [] (ds @ [n])"
    and "fold_name z q = fold_name z n" "q \<noteq> n" "plain_segment q" "CHR ''/'' \<notin> set q"
  shows "canonicalize z (join_c CHR ''/'' (ds @ [q])) (Some (join_c CHR ''/'' (ds @ [n]))) =
    join_c CHR ''/'' (ds @ [q])"
proof -
  have plain: "\<forall>x\<in>set (ds @ [n]). plain_segment x \<and> CHR ''/'' \<notin> set x" by (rule stored_plain [OF assms(1,3)])
  then have split: "split_c CHR ''/'' (join_c CHR ''/'' (ds @ [q])) = ds @ [q]"
    using assms(7) by (intro split_join_c) auto
  have dots: "\<not> list_ex (\<lambda>p. p = ''.'' \<or> p = ''..'') (ds @ [q])"
    using plain assms(6) by (auto simp: list_ex_iff plain_segment_def)
  have keep: "trim_c CHR ''/'' (join_c CHR ''/'' (ds @ [n])) = join_c CHR ''/'' (ds @ [n])"
    using plain by (intro join_plain) (auto simp: plain_segment_def)
  have "canon_parts z (Some (join_c CHR ''/'' (ds @ [n]))) [] (ds @ [q]) = ds @ [q]"
    using canon_parts_keep [OF assms(2,1,4,5), of "[]" ds] assms(3,6) by (simp add: plain_segment_def)
  then show ?thesis by (simp add: canonicalize_def split dots keep Let_def)
qed

theorem case_rename_kept_witness:
  "canonicalize demo_library ''Kingdom/VOL 1.cbz'' (Some ''Kingdom/Vol 1.cbz'') = ''Kingdom/VOL 1.cbz'' \<and>
   canonicalize demo_library ''Kingdom/VOL 1.cbz'' None = ''Kingdom/Vol 1.cbz''"
proof -
  have "stored demo_library [] ([''Kingdom''] @ [''Vol 1.cbz''])" by (auto simp: demo_listed) (code_simp)+
  moreover have "fold_name demo_library ''VOL 1.cbz'' = fold_name demo_library ''Vol 1.cbz''"
    "canonicalize demo_library ''Kingdom/VOL 1.cbz'' None = ''Kingdom/Vol 1.cbz''" by code_simp+
  ultimately show ?thesis
    using case_rename_kept [of demo_library "[''Kingdom'']" "''Vol 1.cbz''" "''VOL 1.cbz''"] demo_ok
    by (simp add: plain_segment_def)
qed

end
