(* ===== verification/Request_Edge.thy ===== *)
theory Request_Edge
  imports Dav_Path_Case Dav_Write Auth
begin

text \<open>
  The edge of the server: \<open>path_guard\<close> of \<open>bunko-server/src/http/headers.rs\<close>, the path-case
  middleware of \<open>app.rs\<close>, and the two readings of a \<open>Destination\<close> header behind it, that of the
  authorisation (\<open>auth/paths.rs\<close>) and that of the DAV layer (\<open>methods/write.rs\<close>).
\<close>

section \<open>The path guard\<close>

definition path_is_clean :: "(string \<Rightarrow> string) \<Rightarrow> string \<Rightarrow> bool" where
  "path_is_clean pct raw =
     (let decoded = pct raw in
      if \<not> utf8_valid decoded then False
      else CHR 0x00 \<notin> set decoded \<and> \<not> has_dotdot decoded)"

definition destination_is_clean :: "(string \<Rightarrow> string) \<Rightarrow> string \<Rightarrow> bool" where
  "destination_is_clean pct raw =
     (let path = (case split_once_str ''://'' raw of
                    Some (_, rest) \<Rightarrow>
                      (let p = dropWhile (\<lambda>c. c \<noteq> CHR ''/'') rest in if p = [] then ''/'' else p)
                  | None \<Rightarrow> raw)
      in path_is_clean pct (takeWhile (\<lambda>c. c \<noteq> CHR ''?'' \<and> c \<noteq> CHR ''#'') path))"

text \<open>\<open>Some 400\<close> when the guard refuses the request.\<close>

definition path_guard :: "coding \<Rightarrow> case_req \<Rightarrow> nat option" where
  "path_guard c r =
     (let dest_ok = (case cr_destination r of
                       None \<Rightarrow> True
                     | Some v \<Rightarrow> header_text c v \<and> destination_is_clean (cd_decode c) v)
      in if \<not> path_is_clean (cd_decode c) (cr_path r) \<or> \<not> dest_ok then Some 400 else None)"

definition path_case_middleware :: "coding \<Rightarrow> canonicalizer \<Rightarrow> case_req \<Rightarrow> case_req" where
  "path_case_middleware c z r = (if \<not> may_rewrite c r then r else rewrite_request c z r)"

section \<open>Splitting at a delimiter\<close>

lemma split_once_str_Nil: "p \<noteq> [] \<Longrightarrow> split_once_str p [] = None"
  by (subst split_once_str.simps) (cases p; simp)

lemma strip_prefix_front:
  assumes "strip_prefix p (s @ p @ b) = None" and "s \<noteq> []"
  shows "strip_prefix p (s @ p @ b') = None"
proof (rule ccontr)
  assume "strip_prefix p (s @ p @ b') \<noteq> None"
  then obtain r where "s @ p @ b' = p @ r" by (auto simp: strip_prefix_Some_iff)
  then have "take (length p) (s @ p) = p"
    by (metis append_assoc append_eq_conv_conj length_append le_add2 take_append take_all diff_is_0_eq take_0 append_Nil2)
  then have "s @ p @ b = p @ drop (length p) (s @ p @ b)"
    by (metis append_assoc append_take_drop_id length_append le_add2 take_append diff_is_0_eq take_0 append_Nil2)
  with assms(1) show False by (metis option.distinct(1) strip_prefix_append)
qed

lemma split_once_str_again:
  "split_once_str p s = Some (a, b) \<Longrightarrow> split_once_str p (a @ p @ b') = Some (a, b')"
proof (induction p s arbitrary: a rule: split_once_str.induct)
  case (1 p s)
  show ?case
  proof (cases "strip_prefix p s")
    case (Some r)
    with "1.prems" have "a = []" by (subst (asm) split_once_str.simps) simp
    then show ?thesis by (subst split_once_str.simps) simp
  next
    case None
    with "1.prems" obtain x xs a' where s: "s = x # xs" "split_once_str p xs = Some (a', b)" "a = x # a'"
      by (subst (asm) split_once_str.simps) (auto split: list.splits)
    from split_once_str_Some [OF s(2)] None s(1) have "strip_prefix p ((x # a') @ p @ b) = None" by simp
    from strip_prefix_front [OF this] have "strip_prefix p (x # a' @ p @ b') = None" by simp
    with "1.IH" [OF None s(1,2)] s(3) show ?thesis by (simp add: split_once_str_Cons)
  qed
qed

lemma split_once_str_None:
  "p \<noteq> [] \<Longrightarrow> split_once_str p s = None \<longleftrightarrow> (\<forall>a b. s \<noteq> a @ p @ b)"
proof (induction s)
  case Nil
  then show ?case by (simp add: split_once_str_Nil)
next
  case (Cons x xs)
  have "(\<forall>a b. x # xs \<noteq> a @ p @ b) \<longleftrightarrow> strip_prefix p (x # xs) = None \<and> (\<forall>a b. xs \<noteq> a @ p @ b)"
    (is "?l \<longleftrightarrow> ?r")
  proof
    assume l: ?l
    have "strip_prefix p (x # xs) = None" using l [rule_format, of "[]"] by (auto simp: strip_prefix_None_iff)
    moreover have "xs \<noteq> a @ p @ b" for a b using l [rule_format, of "x # a" b] by simp
    ultimately show ?r by blast
  next
    assume r: ?r
    show ?l
    proof (intro allI)
      fix a b
      show "x # xs \<noteq> a @ p @ b" using r by (cases a) (auto simp: strip_prefix_None_iff)
    qed
  qed
  with Cons show ?case by (auto simp: split_once_str_Cons split: option.splits)
qed

lemma no_scheme_append:
  assumes "split_once_str ''://'' (s @ t) = None" "CHR '':'' \<notin> set q"
  shows "split_once_str ''://'' (q @ t) = None"
proof (rule ccontr)
  assume "split_once_str ''://'' (q @ t) \<noteq> None"
  then obtain a b where "q @ t = a @ ''://'' @ b" by (auto simp: split_once_str_None)
  with assms(2) obtain a' where "t = a' @ ''://'' @ b"
    by (fastforce simp: append_eq_append_conv2 append_eq_Cons_conv Cons_eq_append_conv)
  with assms(1) show False by (auto simp: split_once_str_None) (metis append.assoc)
qed

section \<open>The path of a Destination\<close>

definition until_query :: "string \<Rightarrow> string" where
  "until_query = takeWhile (\<lambda>c. c \<noteq> CHR ''?'' \<and> c \<noteq> CHR ''#'')"

text \<open>The part of the header the DAV layer decodes.\<close>

definition dest_part :: "string \<Rightarrow> string" where
  "dest_part h = until_query (snd (split_destination h))"


lemma until_query_append:
  assumes "CHR ''?'' \<notin> set q" "CHR ''#'' \<notin> set q" "until_query s @ t = s"
  shows "until_query (q @ t) = q"
proof -
  have "until_query t = []"
  proof -
    have "drop (length (until_query s)) s = t" using assms(3) by (metis append_eq_conv_conj)
    then have "t = dropWhile (\<lambda>c. c \<noteq> CHR ''?'' \<and> c \<noteq> CHR ''#'') s"
      by (simp add: until_query_def dropWhile_eq_drop)
    then have "t = [] \<or> hd t = CHR ''?'' \<or> hd t = CHR ''#''"
      using hd_dropWhile [of "\<lambda>c. c \<noteq> CHR ''?'' \<and> c \<noteq> CHR ''#''" s] by auto
    then show ?thesis by (cases t) (auto simp: until_query_def)
  qed
  moreover have "until_query (q @ t) = q @ until_query t"
    unfolding until_query_def using assms(1,2) by (intro takeWhile_append2) auto
  ultimately show ?thesis by simp
qed

lemma destination_is_clean_part: "destination_is_clean pct h = path_is_clean pct (dest_part h)"
proof (cases "split_once_str ''://'' h")
  case (Some ab)
  obtain scheme rest where ab: "ab = (scheme, rest)" by (cases ab)
  show ?thesis
  proof (cases "split_once_c CHR ''/'' rest")
    case None
    then have "dropWhile (\<lambda>c. c \<noteq> CHR ''/'') rest = []" by (auto simp: split_once_c_None_iff)
    then show ?thesis by (simp add: destination_is_clean_def dest_part_def until_query_def split_destination_def Some ab None)
  next
    case (Some hp)
    then obtain host p where hp: "hp = (host, p)" "rest = host @ CHR ''/'' # p" "CHR ''/'' \<notin> set host"
      by (cases hp) (auto simp: split_once_c_Some_iff)
    have "dropWhile (\<lambda>c. c \<noteq> CHR ''/'') (host @ CHR ''/'' # p) = CHR ''/'' # p"
      using hp(3) by (subst dropWhile_append2) auto
    with hp \<open>split_once_str _ h = _\<close> ab Some show ?thesis
      by (simp add: destination_is_clean_def dest_part_def until_query_def split_destination_def)
  qed
qed (simp add: destination_is_clean_def dest_part_def until_query_def split_destination_def)

lemma split_header_cases:
  assumes "split_header h = Some (front, raw, post)"
  obtains rest where "split_once_str ''://'' h = None" "front = []" "rest = h"
      "raw = until_query rest" "raw @ post = rest"
  | scheme host p where "split_once_str ''://'' h = Some (scheme, host @ CHR ''/'' # p)" "CHR ''/'' \<notin> set host"
      "front = scheme @ ''://'' @ host" "raw = until_query (CHR ''/'' # p)" "raw @ post = CHR ''/'' # p"
proof -
  have joined: "until_query s @ drop (length (until_query s)) s = s" for s
    by (metis append_take_drop_id takeWhile_eq_take until_query_def)
  show thesis
  proof (cases "split_once_str ''://'' h")
    case None
    with assms have "front = []" "raw = until_query h" "raw @ post = h"
      using joined [of h] by (auto simp: split_header_def until_query_def Let_def)
    with that(1) None show thesis by blast
  next
    case (Some ab)
    obtain scheme rest where ab: "ab = (scheme, rest)" by (cases ab)
    from assms Some ab obtain host p where hp: "split_once_c CHR ''/'' rest = Some (host, p)"
      by (auto simp: split_header_def)
    with assms Some ab have "front = scheme @ ''://'' @ host" "raw = until_query (CHR ''/'' # p)" "raw @ post = CHR ''/'' # p"
      using joined [of "CHR ''/'' # p"] by (auto simp: split_header_def until_query_def Let_def)
    with that(2) Some ab hp show thesis by (auto simp: split_once_c_Some_iff)
  qed
qed

lemma dest_part_raw:
  assumes "split_header h = Some (front, raw, post)"
  shows "dest_part h = raw"
  using assms
proof (cases rule: split_header_cases)
  case 1
  then show ?thesis by (simp add: dest_part_def split_destination_def)
next
  case (2 scheme host p)
  then have "split_once_c CHR ''/'' (host @ CHR ''/'' # p) = Some (host, p)" by (simp add: split_once_c_Some_iff)
  with 2 show ?thesis by (simp add: dest_part_def split_destination_def)
qed

lemma dest_part_replaced:
  assumes "split_header h = Some (front, raw, post)"
    and "CHR ''?'' \<notin> set q" "CHR ''#'' \<notin> set q" "CHR '':'' \<notin> set q" "q = CHR ''/'' # q'"
  shows "dest_part (front @ q @ post) = q"
  using assms(1)
proof (cases rule: split_header_cases)
  case 1
  have "split_once_str ''://'' (raw @ post) = None" unfolding 1(5,3) by (rule 1(1))
  from no_scheme_append [OF this assms(4)] have "split_once_str ''://'' (q @ post) = None" .
  with 1 show ?thesis using until_query_append [OF assms(2,3), of h post]
    by (simp add: dest_part_def split_destination_def)
next
  case (2 scheme host p)
  have "split_once_str ''://'' (scheme @ ''://'' @ host @ q @ post) = Some (scheme, host @ q @ post)"
    by (rule split_once_str_again [OF 2(1)])
  moreover have "split_once_c CHR ''/'' (host @ q @ post) = Some (host, q' @ post)"
    using 2(2) assms(5) by (simp add: split_once_c_Some_iff)
  ultimately show ?thesis using until_query_append [OF assms(2,3), of "CHR ''/'' # p" post] 2 assms(5)
    by (simp add: dest_part_def split_destination_def)
qed

section \<open>The rewriting at the edge\<close>

text \<open>
  What \<open>percent-encoding\<close> documents: decoding undoes encoding, and the set of \<open>quote_path\<close>
  leaves slashes alone and encodes \<open>?\<close>, \<open>#\<close> and \<open>:\<close>.
\<close>

definition coding_ok :: "coding \<Rightarrow> bool" where
  "coding_ok c \<longleftrightarrow>
     (\<forall>s. cd_decode c (quote_path c s) = s \<and>
          CHR ''?'' \<notin> set (quote_path c s) \<and> CHR ''#'' \<notin> set (quote_path c s) \<and> CHR '':'' \<notin> set (quote_path c s) \<and>
          (\<exists>q. quote_path c (CHR ''/'' # s) = CHR ''/'' # q))"

lemma decode_path: "decode_request_path pct raw = Some p \<Longrightarrow> p = pct raw"
  by (auto simp: decode_request_path_def Let_def split: if_splits)

lemma with_path_Some: "with_path c q p = Some p' \<Longrightarrow> p' = p"
  by (auto simp: with_path_def Let_def split: if_splits)

lemma rewrite_destination_keeps:
  assumes "listing_ok z" "coding_ok c"
  shows "cr_path (rewrite_destination c z keep r) = cr_path r \<and>
    rel_option (\<lambda>h' h. class_of (cd_decode c (dest_part h')) = class_of (cd_decode c (dest_part h)))
      (cr_destination (rewrite_destination c z keep r)) (cr_destination r)"
proof (cases "rewrite_destination c z keep r = r")
  case True
  then show ?thesis by (simp add: option.rel_refl)
next
  case False
  then obtain h front raw post path where h: "cr_destination r = Some h" "split_header h = Some (front, raw, post)"
    "decode_request_path (cd_decode c) raw = Some path" "canonical_path z path keep \<noteq> path"
    "rewrite_destination c z keep r =
       r\<lparr>cr_destination := Some (front @ quote_path c (canonical_path z path keep) @ post)\<rparr>"
    by (auto simp: rewrite_destination_def Let_def split: option.splits if_splits)
  let ?q = "quote_path c (canonical_path z path keep)"
  obtain s where s: "canonical_path z path keep = CHR ''/'' # s"
    using h(4) by (auto simp: canonical_path_def library_prefix_def split: option.splits)
  from assms(2) s obtain q where q: "?q = CHR ''/'' # q" by (auto simp: coding_ok_def)
  have "dest_part (front @ ?q @ post) = ?q"
    using assms(2) by (intro dest_part_replaced [OF h(2) _ _ _ q]) (auto simp: coding_ok_def)
  moreover have "cd_decode c ?q = canonical_path z path keep" using assms(2) by (simp add: coding_ok_def)
  moreover have "path = cd_decode c (dest_part h)" using decode_path [OF h(3)] dest_part_raw [OF h(2)] by simp
  ultimately show ?thesis using canonical_path_class [OF assms(1), of path keep] h(1,5) by simp
qed

lemma rewrite_request_keeps:
  assumes "listing_ok z" "coding_ok c"
  shows "class_of (cd_decode c (cr_path (rewrite_request c z r))) = class_of (cd_decode c (cr_path r)) \<and>
    rel_option (\<lambda>h' h. class_of (cd_decode c (dest_part h')) = class_of (cd_decode c (dest_part h)))
      (cr_destination (rewrite_request c z r)) (cr_destination r)"
proof (cases "decode_request_path (cd_decode c) (cr_path r)")
  case None
  then show ?thesis by (simp add: rewrite_request_def option.rel_refl)
next
  case (Some path)
  let ?r = "if canonical_path z path None \<noteq> path
      then (case with_path c (cr_query r) (quote_path c (canonical_path z path None)) of
              Some p \<Rightarrow> r\<lparr>cr_path := p\<rparr> | None \<Rightarrow> r) else r"
  have p: "class_of (cd_decode c (cr_path ?r)) = class_of (cd_decode c (cr_path r))"
    using canonical_path_class [OF assms(1), of path None] decode_path [OF Some] assms(2)
    by (auto simp: coding_ok_def dest: with_path_Some split: option.split)
  have d: "cr_destination ?r = cr_destination r" by (simp split: option.split)
  have rr: "rewrite_request c z r = (if cr_method ?r = ''MOVE'' \<or> cr_method ?r = ''COPY''
      then rewrite_destination c z (if cr_method ?r = ''MOVE'' then case_library_relative (canonical_path z path None) else None) ?r
      else ?r)"
    by (simp only: rewrite_request_def Some option.case Let_def)
  show ?thesis
  proof (cases "cr_method ?r = ''MOVE'' \<or> cr_method ?r = ''COPY''")
    case True
    show ?thesis unfolding rr if_P [OF True]
      using rewrite_destination_keeps [OF assms, of _ ?r] p d by metis
  next
    case False
    show ?thesis unfolding rr if_not_P [OF False] using p d by (simp add: option.rel_refl)
  qed
qed

lemma unchanged_without_rewrite: "\<not> may_rewrite c r \<Longrightarrow> rewrite_request c z r = r"
  by (cases "decode_request_path (cd_decode c) (cr_path r)")
    (auto simp: may_rewrite_def rewrite_request_def rewrite_destination_def canonical_path_def split: option.split)

section \<open>Properties\<close>

text \<open>Percent decoding as RFC 3986 has it, for the examples: a lone percent sign stays.\<close>

definition hex_val :: "char \<Rightarrow> nat option" where
  "hex_val c =
     (if is_ascii_digit c then Some (digit_val c)
      else if c \<in> set ''ABCDEF'' then Some (of_char c - 55)
      else if c \<in> set ''abcdef'' then Some (of_char c - 87) else None)"

fun rfc_decode :: "string \<Rightarrow> string" where
  "rfc_decode (p # a # b # s) =
     (case (p = CHR ''%'', hex_val a, hex_val b) of
        (True, Some x, Some y) \<Rightarrow> char_of (16 * x + y) # rfc_decode s
      | _ \<Rightarrow> p # rfc_decode (a # b # s))"
| "rfc_decode s = s"

text \<open>And encoding with the set of \<open>quote_path\<close>.\<close>

definition hex_digit :: "nat \<Rightarrow> char" where
  "hex_digit n = (if n < 10 then char_of (48 + n) else char_of (55 + n))"

definition quote_safe :: "char \<Rightarrow> bool" where
  "quote_safe c \<longleftrightarrow> is_ascii_alnum c \<or> c \<in> set ''/-_.~''"

definition rfc_encode :: "string \<Rightarrow> string" where
  "rfc_encode s =
     concat (map (\<lambda>c. if quote_safe c then [c]
                      else [CHR ''%'', hex_digit (of_char c div 16), hex_digit (of_char c mod 16)]) s)"

lemma hex_val_digit: "n < 16 \<Longrightarrow> hex_val (hex_digit n) = Some n"
proof -
  assume "n < 16"
  then have "n \<in> set [0..<16]" by simp
  moreover have "\<forall>n\<in>set [0..<16]. hex_val (hex_digit n) = Some n" by code_simp
  ultimately show ?thesis by blast
qed

lemma high_digit: "(of_char c :: nat) div 16 < 16"
  using nat_of_char_less_256 [of c] by (simp add: div_less_iff_less_mult)

lemma rfc_decode_plain: "c \<noteq> CHR ''%'' \<Longrightarrow> rfc_decode (c # s) = c # rfc_decode s"
  by (cases s; cases "tl s") auto

lemma rfc_decode_encode: "rfc_decode (rfc_encode s) = s"
proof (induction s)
  case (Cons c s)
  show ?case
  proof (cases "quote_safe c")
    case True
    then have "c \<noteq> CHR ''%''" by (auto simp: quote_safe_def is_ascii_alnum_def is_ascii_digit_def is_ascii_lower_def is_ascii_upper_def)
    with True Cons show ?thesis by (simp add: rfc_encode_def rfc_decode_plain)
  next
    case False
    note high_digit [of c]
    with False Cons show ?thesis by (simp add: rfc_encode_def hex_val_digit)
  qed
qed (simp add: rfc_encode_def)

definition demo_coding :: coding where
  "demo_coding = \<lparr>cd_decode = rfc_decode, quote_path = rfc_encode, uri_parses = (\<lambda>_. True),
     header_text = (\<lambda>_. True), header_value = (\<lambda>_. True)\<rparr>"

lemma hex_digit_alnum: "n < 16 \<Longrightarrow> quote_safe (hex_digit n)"
proof -
  assume "n < 16"
  then have "n \<in> set [0..<16]" by simp
  moreover have "\<forall>n\<in>set [0..<16]. quote_safe (hex_digit n)" by code_simp
  ultimately show ?thesis by blast
qed

lemma rfc_encode_chars: "c \<in> set (rfc_encode s) \<Longrightarrow> quote_safe c \<or> c = CHR ''%''"
proof (induction s)
  case (Cons x s)
  have "quote_safe (hex_digit (of_char x div 16))" "quote_safe (hex_digit (of_char x mod 16))"
    by (auto intro: hex_digit_alnum high_digit)
  with Cons show ?case by (auto simp: rfc_encode_def split: if_splits)
qed (simp add: rfc_encode_def)

lemma demo_coding_ok: "coding_ok demo_coding"
proof -
  have "c \<notin> set (rfc_encode s)" if "\<not> quote_safe c" "c \<noteq> CHR ''%''" for c s
    using that rfc_encode_chars by blast
  moreover have "\<not> quote_safe CHR ''?''" "\<not> quote_safe CHR ''#''" "\<not> quote_safe CHR '':''" "quote_safe CHR ''/''"
    by code_simp+
  ultimately show ?thesis by (auto simp: coding_ok_def demo_coding_def rfc_decode_encode) (auto simp: rfc_encode_def)
qed

text \<open>
  C21: the rewriting at the edge never moves a request between the classes of paths: the path and
  the \<open>Destination\<close> that the layers below decode are of the class the client sent, and a request
  it is not called for would not have changed.
\<close>

theorem edge_keeps_classes:
  assumes "listing_ok z" "coding_ok c"
  shows "class_of (cd_decode c (cr_path (path_case_middleware c z r))) = class_of (cd_decode c (cr_path r)) \<and>
    rel_option (\<lambda>h' h. class_of (cd_decode c (dest_part h')) = class_of (cd_decode c (dest_part h)))
      (cr_destination (path_case_middleware c z r)) (cr_destination r) \<and>
    path_case_middleware c z r = rewrite_request c z r"
  using rewrite_request_keeps [OF assms, of r] unchanged_without_rewrite [of c r z]
  by (cases "may_rewrite c r") (auto simp: path_case_middleware_def)

theorem edge_keeps_classes_witness:
  "(let r = path_case_middleware demo_coding demo_library
       \<lparr>cr_method = ''MOVE'', cr_path = ''/mokuro-reader/KINGDOM/vol%201.cbz'', cr_query = None,
        cr_destination = Some ''http://h/mokuro-reader/kingdom/X.cbz?a=://''\<rparr>
    in cr_path r = ''/mokuro-reader/Kingdom/Vol%201.cbz'' \<and>
       cr_destination r = Some ''http://h/mokuro-reader/Kingdom/X.cbz?a=://'' \<and>
       class_of (rfc_decode (cr_path r)) = CLibrary)"
proof -
  let ?r = "\<lparr>cr_method = ''MOVE'', cr_path = ''/mokuro-reader/KINGDOM/vol%201.cbz'', cr_query = None,
    cr_destination = Some ''http://h/mokuro-reader/kingdom/X.cbz?a=://''\<rparr>"
  have out: "cr_path (path_case_middleware demo_coding demo_library ?r) = ''/mokuro-reader/Kingdom/Vol%201.cbz''"
    "cr_destination (path_case_middleware demo_coding demo_library ?r) = Some ''http://h/mokuro-reader/Kingdom/X.cbz?a=://''"
    "class_of (cd_decode demo_coding (cr_path ?r)) = CLibrary" by code_simp+
  have d: "cd_decode demo_coding = rfc_decode" by (simp add: demo_coding_def)
  from edge_keeps_classes [OF conjunct1 [OF demo_ok] demo_coding_ok, of ?r]
  have "class_of (cd_decode demo_coding (cr_path (path_case_middleware demo_coding demo_library ?r))) =
      class_of (cd_decode demo_coding (cr_path ?r))" by (rule conjunct1)
  from trans [OF this out(3)]
  have "class_of (rfc_decode (cr_path (path_case_middleware demo_coding demo_library ?r))) = CLibrary"
    unfolding d .
  with out(1,2) show ?thesis unfolding Let_def by blast
qed



text \<open>
  A bare path with an encoded \<open>://\<close> needs no question mark: the authorisation takes what is before
  it for a scheme and the name after it for a host, and reads no path at all.
\<close>

lemma encoded_scheme_in_path:
  "Auth_Paths.destination_path rfc_decode ''/mokuro-reader/S:%2F%2Fseries.json'' = None"
  "Dav_Write.destination_path rfc_decode (Some ''h'')
     (demo_req ''/mokuro-reader/S'' ''bo'' [''destination'' \<mapsto> ''/mokuro-reader/S:%2F%2Fseries.json'']) =
     Inr ''/mokuro-reader/S://series.json''"
  "destination_is_clean rfc_decode ''/mokuro-reader/S:%2F%2Fseries.json''"
  by code_simp+

text \<open>
  C24: but the authorisation decodes the header before it splits it, and the DAV layer after: an
  encoded \<open>://\<close> behind the question mark hides the destination. Whoever may MOVE or COPY the source
  at all may do so onto any path, the compiled \<open>catalog.json\<close> and \<open>series.json\<close> included, and
  the guard lets the request pass.
\<close>

theorem hidden_destination:
  assumes "m = ''MOVE'' \<or> m = ''COPY''" "authorize pct m path None i anon backend = Inr ()"
    and "h = dst @ ''?%3A%2F%2Fh/x''" "pct h = dst @ ''?://h/x''" "pct dst = dst" "utf8_valid (pct h)"
    and "CHR ''?'' \<notin> set dst" "CHR ''#'' \<notin> set dst" "CHR '':'' \<notin> set dst"
    and "dst = CHR ''/'' # rest" "path_is_clean pct dst" "req_headers req ''destination'' = Some h"
  shows "authorize pct m path (Some h) i anon backend = Inr () \<and> destination_is_clean pct h \<and>
    Dav_Write.destination_path pct authority req = Inr dst"
proof -
  have none: "split_once_str ''://'' h = None"
  proof -
    have "split_once_str ''://'' ''?%3A%2F%2Fh/x'' = None" by code_simp
    then show ?thesis unfolding assms(3) using assms(9) no_scheme_append [of "[]" "''?%3A%2F%2Fh/x''" dst] by simp
  qed
  have part: "until_query h = dst"
    unfolding assms(3) by (rule until_query_append [OF assms(7,8), of "''?%3A%2F%2Fh/x''"]) (simp add: until_query_def)
  have "split_once_str ''://'' ((dst @ ''?'') @ ''://'' @ ''h/x'') = Some (dst @ ''?'', ''h/x'')"
    using assms(9) by (intro split_once_str_first) auto
  then have "Auth_Paths.destination_path pct h = Some ''/x''"
    using assms(4,6) by (simp add: Auth_Paths.destination_path_def Let_def)
  moreover have "\<not> is_compiled_metadata_path ''/x''" "\<not> is_history_path ''/x''" by code_simp+
  ultimately have "authorize pct m path (Some h) i anon backend = authorize pct m path None i anon backend"
    by (simp add: authorize_def Let_def)
  moreover have "destination_is_clean pct h"
    using part none assms(11) by (simp add: destination_is_clean_part dest_part_def split_destination_def)
  moreover have "Dav_Write.destination_path pct authority req = Inr dst"
  proof -
    have "starts_with dst ''/''" by (simp add: assms(10) starts_with_iff)
    moreover have "decode_request_path pct dst = Some dst" "\<not> has_dotdot dst"
      using assms(5,11) by (auto simp: path_is_clean_def decode_request_path_def Let_def split: if_splits)
    ultimately show ?thesis using part none assms(12)
      by (simp add: Dav_Write.destination_path_def split_destination_def until_query_def Let_def)
  qed
  ultimately show ?thesis using assms(2) by simp
qed

theorem hidden_destination_witness:
  "let i = logged_in \<lparr>user_id = 1, user_name = ''ed'', user_role = Editor\<rparr>;
       anon = \<lparr>browse = True, download = True\<rparr>;
       dst = ''/mokuro-reader/S/series.json'';
       ask = (\<lambda>h. authorize rfc_decode ''COPY'' ''/mokuro-reader/S/v.cbz'' (Some h) i anon demo_backend)
   in is_compiled_metadata_path dst \<and> ask dst \<noteq> Inr () \<and>
      ask (dst @ ''?%3A%2F%2Fh/x'') = Inr () \<and>
      Dav_Write.destination_path rfc_decode None
        (demo_req ''/mokuro-reader/S/v.cbz'' ''ed'' [''destination'' \<mapsto> dst @ ''?%3A%2F%2Fh/x'']) = Inr dst"
proof -
  let ?i = "logged_in \<lparr>user_id = 1, user_name = ''ed'', user_role = Editor\<rparr>"
  let ?anon = "\<lparr>browse = True, download = True\<rparr>"
  let ?dst = "''/mokuro-reader/S/series.json''"
  let ?h = "''/mokuro-reader/S/series.json?%3A%2F%2Fh/x''"
  have f: "rfc_decode ?h = ?dst @ ''?://h/x''" "rfc_decode ?dst = ?dst" "utf8_valid (rfc_decode ?h)"
    "CHR ''?'' \<notin> set ?dst" "CHR ''#'' \<notin> set ?dst" "CHR '':'' \<notin> set ?dst" "path_is_clean rfc_decode ?dst" by code_simp+
  have a: "authorize rfc_decode ''COPY'' ''/mokuro-reader/S/v.cbz'' None ?i ?anon demo_backend = Inr ()"
    "is_compiled_metadata_path ?dst"
    "authorize rfc_decode ''COPY'' ''/mokuro-reader/S/v.cbz'' (Some ?dst) ?i ?anon demo_backend \<noteq> Inr ()" by code_simp+
  have "req_headers (demo_req ''/mokuro-reader/S/v.cbz'' ''ed'' [''destination'' \<mapsto> ?h]) ''destination'' = Some ?h"
    by (simp add: demo_req_def)
  from hidden_destination [OF disjI2 [OF refl] a(1) _ f(1-6) refl f(7) this, of None] a(2,3)
  show ?thesis unfolding Let_def append_Cons append_Nil by blast
qed

end
