(* ===== verification/Spec2Isabelle.thy ===== *)
theory Spec2Isabelle
  imports Difflib Web_Guards Write_Locks Dav_Lock_Methods Login_Cache Account_Life Db_Uploads Dav_Write_Uploads Dav_Write_Ends
    Dav_Put_Facts Dav_Upload_Facts Request_Edge
begin

text \<open>
  A verification development for mokuro-bunko, a WebDAV server for a manga library with
  accounts, invites, per-user reading data and OCR (Rust, \<open>crates/\<close>).

  \<^bold>\<open>The parts and how they meet.\<close> A request first passes the guards of the HTTP front
  (\<open>Web_Guards\<close>) and is rewritten to the spelling on disk (\<open>Dav_Path_Case\<close>, \<open>Request_Edge\<close>, which
  also compares the two readings of a \<open>Destination\<close>). It goes through the limiter and the
  authentication of \<open>bunko-server\<close> (theories \<open>Limiter\<close>, \<open>Auth\<close>, with the login cache of \<open>backend.rs\<close> in
  \<open>Login_Cache\<close>), which asks the database crate for accounts and tokens (\<open>Db_Accounts\<close>), and is
  then authorised by method, path and role (\<open>Roles\<close>, \<open>Auth_Paths\<close>, \<open>Auth\<close>) and by who uploaded a
  volume (\<open>Db_Uploads\<close>; the two meet in this theory). An authorised request reaches the DAV
  crate: its path is classified and resolved to a place on the disk (\<open>Dav_Paths\<close>, \<open>Dav_Resource\<close>,
  the private trees in \<open>Reader_Tree\<close>), conditional headers and DAV locks are checked
  (\<open>Dav_Conditional\<close>, \<open>Dav_Locks\<close>, \<open>Dav_Lock_Methods\<close>, bodies read in \<open>Dav_Xml\<close>), and a write
  takes the per-path write locks (\<open>Write_Locks\<close>), works on the disk and tells the server's hooks
  (\<open>Dav_Effects\<close>, \<open>Dav_Write\<close>, \<open>Dav_Write_Uploads\<close>); an upload is received, checked and committed
  (\<open>Dav_Upload\<close>, \<open>Dav_Put\<close>). Apart from all this, \<open>Difflib\<close> aligns an old OCR text with a new one.

  \<^bold>\<open>Theories and sources.\<close>
  \<^item> \<open>Rust_Prelude\<close>: Rust's string, path and integer operations as list functions, and the
    generic lemmas; \<open>Guard_Protocol\<close>: the interface of a table of guards.
  \<^item> \<open>Roles\<close>, \<open>Reader_Tree\<close>: \<open>bunko-core/src/roles.rs\<close>, \<open>reader_tree.rs\<close>.
  \<^item> \<open>Auth_Paths\<close>, \<open>Auth\<close>, \<open>Limiter\<close>, \<open>Login_Cache\<close>: \<open>bunko-server/src/auth/paths.rs\<close>, \<open>auth/mod.rs\<close>,
    \<open>http/limiter.rs\<close>, \<open>backend.rs\<close>.
  \<^item> \<open>Dav_Paths\<close>, \<open>Dav_Resource\<close>, \<open>Dav_Conditional\<close>, \<open>Dav_Xml\<close>, \<open>Dav_Locks\<close>, \<open>Write_Locks\<close>: the files of
    the same names of \<open>bunko-dav/src\<close>; \<open>Dav_Lock_Methods\<close>: \<open>methods/lock.rs\<close> and the shared checks
    of \<open>methods/mod.rs\<close>.
  \<^item> \<open>Dav_Effects\<close>, \<open>Dav_Write\<close>: \<open>hooks.rs\<close>, \<open>sidecars.rs\<close>, the effects of \<open>methods/mod.rs\<close>, and
    \<open>methods/write.rs\<close> (DELETE, MKCOL, COPY, MOVE). \<open>Dav_Mem\<close> is a disk in memory on which the
    examples run. \<open>Dav_Write_Safe\<close>, \<open>Dav_Write_Facts\<close>, \<open>Dav_Write_Ends\<close> hold what is proved of
    them, \<open>Dav_Write_Uploads\<close> the hooks of \<open>bunko-server/src/davhooks.rs\<close> on the uploads table.
  \<^item> \<open>Db_Accounts\<close>, \<open>Db_Invites\<close>, \<open>Py_Time\<close>, \<open>Db_Uploads\<close>: \<open>users.rs\<close>, \<open>tokens.rs\<close>, \<open>validation.rs\<close>,
    \<open>invites.rs\<close>, \<open>pytime.rs\<close>, \<open>uploads.rs\<close> of \<open>bunko-db/src\<close>. \<open>Db_Machine\<close> makes one step relation
    of the calls; \<open>Account_Book\<close> is the abstract book of accounts and invites the tables refine,
    \<open>Account_Life\<close> what holds along every sequence of calls.
  \<^item> \<open>Dav_Upload\<close>, \<open>Dav_Put\<close>: \<open>upload.rs\<close> and \<open>methods/put.rs\<close> of \<open>bunko-dav/src\<close>; \<open>Dav_Put_Facts\<close> and
    \<open>Dav_Upload_Facts\<close> hold what is proved of them.
  \<^item> \<open>Dav_Path_Case\<close>: \<open>bunko-dav/src/path_case.rs\<close>; \<open>Web_Guards\<close>: \<open>csrf.rs\<close>, \<open>cors.rs\<close>, \<open>client_ip.rs\<close> of
    \<open>bunko-server/src/http\<close>; \<open>Request_Edge\<close>: \<open>path_guard\<close> of \<open>headers.rs\<close> and the middleware of
    \<open>app.rs\<close> around them.
  \<^item> \<open>Difflib\<close>: \<open>bunko-layout/src/difflib.rs\<close>.
  \<^item> This theory: the composition of authorisation and ownership.

  \<^bold>\<open>What the groups of lemmas show.\<close> Paths: nothing resolves outside the library, and nobody
  reaches another account's own files (but through the library root, a finding), by a lookup or by any call a write makes on the disk.
  Rights: what every accepted write needed. Locks: two conflicting writes are never in progress
  together, a DAV lock stops the writes it should. Accounts: the last admin stays, an invite
  makes one account, sessions end with the password, the cache answers as the database would
  once a change has moved its version. Writes: refusals before the work change nothing, every request ends, what the hooks do to
  ownership. Uploads: what is stored is whole and checked, a failed upload leaves nothing behind,
  an archive never inflates past its allowance. The edge: pages of other sites cannot change
  state, what decides the address a client counts for, one spelling reaches the disk for one file, and the
  rewriting never leaves the tree a path is in. Alignment: the blocks are those of the in-order
  recursion over first longest matches, the opcodes tile both texts and give them back. Some properties record what the code does against its intent, as the manifest's
  findings say.

  \<^bold>\<open>Parameters.\<close> What is not under \<open>crates/\<close> is an argument: lower-casing and case folding of
  Unicode, percent coding, the HTTP date parser, password hashing, random tokens, the clock
  (each reading separate), and the operating system. For reads that is a \<open>disk\<close> of functions; for
  writes \<open>sys\<close>, which answers a call and gives the next state, in which other requests may have
  changed anything. Strings are lists of bytes; where the code counts characters the model does.
  Integers are of the width of the code where they can wrap or saturate, else \<open>nat\<close> or \<open>int\<close>.

  \<^bold>\<open>Fuel.\<close> The loops of \<open>write.rs\<close> over folder trees take fuel, and \<open>None\<close> means it ran out: where
  no path of \<open>N\<close> components can be opened and no folder has more than \<open>B\<close> entries,
  \<open>(B + 1) ^ N\<close> is enough (\<open>Dav_Write_Ends\<close>). Operating systems bound both. Everything else
  recurs on its input or has a measure.

  \<^bold>\<open>Not modelled.\<close> The answers' bodies, the async runtime and its pool of blocking threads, HTTP
  and TLS, SQLite itself (its statements are functions on lists of rows, a transaction is one
  step); of the DAV crate the listing cache and PROPFIND's rendering; the crates for OCR, images
  and GPUs and the rest of the layout crate (floating point, Unicode tables and foreign code); the
  scheduler, whose estimates are floats; the JSON endpoints; the desktop tools, the command line
  and the build tasks.
\<close>

section \<open>Uploads and authorisation together\<close>

text \<open>The rights of \<open>uploads.rs\<close> as the server's \<open>AuthBackend\<close> hands them to \<open>authorize\<close>.\<close>

definition with_uploads :: "(string \<Rightarrow> string) \<Rightarrow> volume_row list \<Rightarrow> auth_backend \<Rightarrow> auth_backend" where
  "with_uploads lower t b = b\<lparr>can_user_delete := (\<lambda>user path. can_user_delete_library_path lower user path t)\<rparr>"

text \<open>
  C11: as long as the ownership row of a volume is neither moved nor forgotten, an account that may
  not modify files can neither delete nor overwrite the volume another account uploaded, archive or
  side file, whatever it and everyone else uploaded, renamed or forgot since: its PUT onto the
  existing file and its DELETE are refused. (The row is moved by a MOVE of the archive, of a folder
  around it or, C35, of one of its side files, onto it or away from it, and forgotten by a DELETE of
  the archive or a folder around it: those operations, of whichever account, are excluded.)
\<close>

theorem others_uploads_safe:
  assumes "st \<noteq> []" "hd st \<noteq> CHR ''/''" "list_all (keeps lower) volume_suffixes" "suf \<in> set volume_suffixes"
    and "owner_of (st @ ''.cbz'') t = Some u" "list_all (\<lambda>x. \<not> moves_key lower (st @ ''.cbz'') x) ops"
    and "path = ''/mokuro-reader/'' @ st @ suf" "\<not> is_progress_path path" "series_title_from_series_file_path path = None"
    and "\<not> is_processor_path path" "\<not> is_admin_path path"
    and "backend = with_uploads lower (foldl (upload_step lower) t ops) b"
    and "id_username i \<noteq> Some u" "\<not> has_perm (id_role i) ModifyDelete"
    and "m = ''DELETE'' \<or> m = ''PUT'' \<and> physical_exists backend path (id_caller i)"
  shows "\<exists>d. authorize pct_decode m path destination i anon backend = Inl d"
proof -
  have own: "owner_of (st @ ''.cbz'') (foldl (upload_step lower) t ops) = Some u"
    using assms(5,6) by (induction ops arbitrary: t) (auto simp: owner_kept_step)
  have no: "\<not> can_user_delete backend n path" if "id_username i = Some n" for n
    using may_delete_iff [OF assms(1-4) own, of n] that assms(7,12,13) by (auto simp: with_uploads_def)
  then have none: "\<not> (case id_username i of Some n \<Rightarrow> can_user_delete backend n path | None \<Rightarrow> False)"
    by (auto split: option.split)
  from assms(15) have "authorize pct_decode m path destination i anon backend \<noteq> Inr ()"
  proof
    assume "m = ''DELETE''"
    with assms(8,10,11,14) none show ?thesis
      by (simp add: authorize_def method_simps uploader_and_def del: has_perm.simps split: option.split)
  next
    assume "m = ''PUT'' \<and> physical_exists backend path (id_caller i)"
    with assms(8-11,14) no show ?thesis
      by (simp add: authorize_def method_simps authorize_put_ok del: has_perm.simps)
  qed
  then show ?thesis by (cases "authorize pct_decode m path destination i anon backend") auto
qed

theorem others_uploads_safe_witness:
  "\<exists>d. authorize id ''DELETE'' ''/mokuro-reader/S/V.mokuro'' None
     (logged_in \<lparr>user_id = 2, user_name = ''bob'', user_role = Uploader\<rparr>) \<lparr>browse = True, download = True\<rparr>
     (with_uploads (\<lambda>c. c) (record_volume_upload (\<lambda>c. c) [] ''S/V.cbz'' ''bob''
        (record_volume_upload (\<lambda>c. c) [] ''S/V.cbz'' ''alice'' [])) demo_backend) = Inl d"
proof -
  let ?t = "record_volume_upload (\<lambda>c. c) [] ''S/V.cbz'' ''alice'' []"
  let ?i = "logged_in \<lparr>user_id = 2, user_name = ''bob'', user_role = Uploader\<rparr>"
  let ?b = "with_uploads (\<lambda>c. c) (foldl (upload_step (\<lambda>c. c)) ?t [URecord [] ''S/V.cbz'' ''bob'']) demo_backend"
  have h: "list_all (keeps (\<lambda>c. c)) volume_suffixes" "''.mokuro'' \<in> set volume_suffixes"
    "owner_of (''S/V'' @ ''.cbz'') ?t = Some ''alice''"
    "\<not> is_progress_path ''/mokuro-reader/S/V.mokuro''" "series_title_from_series_file_path ''/mokuro-reader/S/V.mokuro'' = None"
    "\<not> is_processor_path ''/mokuro-reader/S/V.mokuro''" "\<not> is_admin_path ''/mokuro-reader/S/V.mokuro''"
    "id_username ?i \<noteq> Some ''alice''" "\<not> has_perm (id_role ?i) ModifyDelete"
    by code_simp+
  have "\<exists>d. authorize id ''DELETE'' ''/mokuro-reader/S/V.mokuro'' None ?i \<lparr>browse = True, download = True\<rparr> ?b = Inl d"
    by (rule others_uploads_safe [OF _ _ h(1,2,3) _ _ h(4-7) refl h(8,9)]) simp_all
  then show ?thesis by simp
qed

end
